(* ===== verification/RU_Prelude.thy ===== *)
theory RU_Prelude
  imports Main "HOL-Library.Char_ord" "HOL-Library.List_Lexorder"
begin

text \<open>
  The shared base of the development: the collections that the component theories
  fill, a library of table operations in the shape the SQLite statements of
  \<^verbatim>\<open>backend/internal/store/store.go\<close> use (insert with AUTOINCREMENT, update and
  delete by a WHERE predicate, first row of a SELECT), the 64-bit wrap-around of Go
  integers, and the lemmas on lists and options the components share.
\<close>

named_theorems table_simps \<open>how the table operations act on the row list and the sequence\<close>
named_theorems store_defs \<open>the definitions of the store operations\<close>
named_theorems frame_simps \<open>parts of the store an operation leaves alone\<close>
named_theorems http_defs \<open>the definitions of the request helpers\<close>

section \<open>Machine integers\<close>

text \<open>
  Go's \<open>int\<close> and \<open>int64\<close> are two's complement numbers of 64 bits. A value is an
  \<open>int\<close> of HOL inside the range; \<open>wrap64\<close> is what an overflowing \<open>+\<close> or \<open>*\<close> leaves.
\<close>

definition wrap64 :: "int \<Rightarrow> int" where
  "wrap64 x = (x + 2 ^ 63) mod 2 ^ 64 - 2 ^ 63"

definition max_int64 :: int where
  "max_int64 = 2 ^ 63 - 1"

definition min_int64 :: int where
  "min_int64 = - (2 ^ 63)"

definition in_int64 :: "int \<Rightarrow> bool" where
  "in_int64 x \<longleftrightarrow> min_int64 \<le> x \<and> x \<le> max_int64"

lemma wrap64_id: "in_int64 x \<Longrightarrow> wrap64 x = x"
  by (simp add: in_int64_def min_int64_def max_int64_def wrap64_def)

lemma wrap64_range: "in_int64 (wrap64 x)"
proof -
  have "0 \<le> (x + 2 ^ 63) mod 2 ^ 64" "(x + 2 ^ 63) mod 2 ^ 64 < 2 ^ 64"
    by (rule pos_mod_sign, simp) (rule pos_mod_bound, simp)
  then show ?thesis
    by (simp add: in_int64_def min_int64_def max_int64_def wrap64_def)
qed

lemma wrap64_nonneg_small: "0 \<le> x \<Longrightarrow> x \<le> max_int64 \<Longrightarrow> wrap64 x = x"
  by (rule wrap64_id) (simp add: in_int64_def min_int64_def)

lemma wrap64_add: "wrap64 (wrap64 a + b) = wrap64 (a + b)"
proof -
  have "(a + 2 ^ 63) mod 2 ^ 64 - 2 ^ 63 + b + 2 ^ 63 = (a + 2 ^ 63) mod 2 ^ 64 + b" by simp
  moreover have "((a + 2 ^ 63) mod 2 ^ 64 + b) mod 2 ^ 64 = (a + 2 ^ 63 + b) mod 2 ^ 64"
    by (rule mod_add_left_eq)
  moreover have "a + 2 ^ 63 + b = a + b + 2 ^ 63" by simp
  ultimately show ?thesis by (simp only: wrap64_def)
qed

lemma wrap64_over: "max_int64 < x \<Longrightarrow> x \<le> 2 ^ 64 + max_int64 \<Longrightarrow> wrap64 x = x - 2 ^ 64"
proof -
  assume a: "max_int64 < x" "x \<le> 2 ^ 64 + max_int64"
  have "(x + 2 ^ 63) mod 2 ^ 64 = (x + 2 ^ 63 - 2 ^ 64) mod 2 ^ 64"
    by (rule minus_mod_self2[symmetric])
  also have "\<dots> = x + 2 ^ 63 - 2 ^ 64"
    by (rule mod_pos_pos_trivial) (use a in \<open>simp_all add: max_int64_def\<close>)
  finally show ?thesis by (simp add: wrap64_def)
qed

section \<open>Lists and options\<close>

lemma find_Some_in: "List.find P xs = Some x \<Longrightarrow> x \<in> set xs \<and> P x"
  by (induction xs) (auto split: if_splits)

lemma find_None_all: "List.find P xs = None \<longleftrightarrow> (\<forall>x \<in> set xs. \<not> P x)"
  by (induction xs) auto

lemma find_append:
  "List.find P (xs @ ys) = (case List.find P xs of Some x \<Rightarrow> Some x | None \<Rightarrow> List.find P ys)"
  by (induction xs) auto

lemma find_map_keep:
  assumes "\<And>x. P (f x) = P x"
  shows "List.find P (map f xs) = map_option f (List.find P xs)"
  using assms by (induction xs) auto

lemma find_filter_keep:
  assumes "\<And>x. P x \<Longrightarrow> Q x"
  shows "List.find P (filter Q xs) = List.find P xs"
  using assms by (induction xs) auto

lemma find_unique:
  assumes "x \<in> set xs" "P x" "\<And>y. y \<in> set xs \<Longrightarrow> P y \<Longrightarrow> y = x"
  shows "List.find P xs = Some x"
proof (cases "List.find P xs")
  case None
  then have "\<forall>y \<in> set xs. \<not> P y" by (simp only: find_None_all)
  with assms(1,2) show ?thesis by blast
next
  case (Some y)
  from find_Some_in[OF Some] have "y = x" using assms(3) by blast
  with Some show ?thesis by simp
qed

lemma filter_map_same_key:
  "(\<And>x. P (f x) = P x) \<Longrightarrow> filter P (map f xs) = map f (filter P xs)"
  by (induction xs) auto

lemma distinct_map_inj_eq:
  "distinct (map f xs) \<Longrightarrow> x \<in> set xs \<Longrightarrow> y \<in> set xs \<Longrightarrow> f x = f y \<Longrightarrow> x = y"
  by (auto simp: distinct_map dest: inj_onD)

section \<open>Tables\<close>

text \<open>
  A table with an \<open>INTEGER PRIMARY KEY AUTOINCREMENT\<close>: its rows in rowid order and the
  largest id handed out so far. The id of a new row is one more than every id used
  before, so appending keeps the rowid order. SQLite is free to skip numbers; nothing
  below depends on the exact value, only on its being fresh and positive.
\<close>

record 'a table =
  trows :: "'a list"
  tseq :: int

definition tempty :: "'a table" where
  "tempty = \<lparr>trows = [], tseq = 0\<rparr>"

definition tinsert :: "(int \<Rightarrow> 'a) \<Rightarrow> 'a table \<Rightarrow> 'a table" where
  "tinsert mk t = t\<lparr>trows := trows t @ [mk (tseq t + 1)], tseq := tseq t + 1\<rparr>"

definition tupdate :: "('a \<Rightarrow> bool) \<Rightarrow> ('a \<Rightarrow> 'a) \<Rightarrow> 'a table \<Rightarrow> 'a table" where
  "tupdate P f t = t\<lparr>trows := map (\<lambda>r. if P r then f r else r) (trows t)\<rparr>"

definition tdelete :: "('a \<Rightarrow> bool) \<Rightarrow> 'a table \<Rightarrow> 'a table" where
  "tdelete P t = t\<lparr>trows := filter (\<lambda>r. \<not> P r) (trows t)\<rparr>"

definition tfind :: "('a \<Rightarrow> bool) \<Rightarrow> 'a table \<Rightarrow> 'a option" where
  "tfind P t = List.find P (trows t)"

definition tselect :: "('a \<Rightarrow> bool) \<Rightarrow> 'a table \<Rightarrow> 'a list" where
  "tselect P t = filter P (trows t)"

definition thas :: "('a \<Rightarrow> bool) \<Rightarrow> 'a table \<Rightarrow> bool" where
  "thas P t = list_ex P (trows t)"

text \<open>\<open>INSERT ... ON CONFLICT(key) DO UPDATE\<close>: update the rows with the key, else append.\<close>

definition tupsert :: "('a \<Rightarrow> bool) \<Rightarrow> ('a \<Rightarrow> 'a) \<Rightarrow> (int \<Rightarrow> 'a) \<Rightarrow> 'a table \<Rightarrow> 'a table" where
  "tupsert P f mk t = (if thas P t then tupdate P f t else tinsert mk t)"

text \<open>The rowid discipline: ids are positive, increasing and never above the sequence.\<close>

definition table_ok :: "('a \<Rightarrow> int) \<Rightarrow> 'a table \<Rightarrow> bool" where
  "table_ok rid t \<longleftrightarrow> sorted_wrt (<) (map rid (trows t)) \<and>
     (\<forall>r \<in> set (trows t). 0 < rid r \<and> rid r \<le> tseq t) \<and> 0 \<le> tseq t"

lemma tempty_simps [table_simps]: "trows tempty = []" "tseq tempty = 0"
  by (simp_all add: tempty_def)

lemma tinsert_simps [table_simps]:
  "trows (tinsert mk t) = trows t @ [mk (tseq t + 1)]"
  "tseq (tinsert mk t) = tseq t + 1"
  by (simp_all add: tinsert_def)

lemma tupdate_simps [table_simps]:
  "trows (tupdate P f t) = map (\<lambda>r. if P r then f r else r) (trows t)"
  "tseq (tupdate P f t) = tseq t"
  by (simp_all add: tupdate_def)

lemma tdelete_simps [table_simps]:
  "trows (tdelete P t) = filter (\<lambda>r. \<not> P r) (trows t)"
  "tseq (tdelete P t) = tseq t"
  by (simp_all add: tdelete_def)

lemma thas_iff: "thas P t \<longleftrightarrow> (\<exists>r \<in> set (trows t). P r)"
  by (simp add: thas_def list_ex_iff)

lemma tfind_None: "tfind P t = None \<longleftrightarrow> \<not> thas P t"
  by (auto simp: tfind_def thas_iff find_None_all)

lemma tfind_SomeD: "tfind P t = Some r \<Longrightarrow> r \<in> set (trows t) \<and> P r"
  by (auto simp: tfind_def dest: find_Some_in)

lemma table_ok_empty [simp]: "table_ok rid tempty"
  by (simp add: table_ok_def table_simps)

lemma table_ok_insert:
  "table_ok rid t \<Longrightarrow> (\<And>i. rid (mk i) = i) \<Longrightarrow> table_ok rid (tinsert mk t)"
  by (force simp: table_ok_def table_simps sorted_wrt_append)

lemma table_ok_update:
  assumes "table_ok rid t" "\<And>r. rid (f r) = rid r"
  shows "table_ok rid (tupdate P f t)"
proof -
  have "rid (if P r then f r else r) = rid r" for r
    using assms(2) by simp
  then have ids: "map rid (trows (tupdate P f t)) = map rid (trows t)"
    by (simp add: table_simps)
  have rows: "\<forall>r \<in> set (trows (tupdate P f t)). 0 < rid r \<and> rid r \<le> tseq t"
    using assms by (auto simp: table_simps table_ok_def)
  show ?thesis
    using assms(1) rows by (simp add: table_ok_def ids tupdate_simps(2))
qed

lemma sorted_wrt_map_filter:
  "sorted_wrt (<) (map f xs) \<Longrightarrow> sorted_wrt (<) (map f (filter P xs))"
  by (induction xs) auto

lemma table_ok_delete: "table_ok rid t \<Longrightarrow> table_ok rid (tdelete P t)"
  by (auto simp: table_ok_def table_simps intro: sorted_wrt_map_filter)

lemma table_ok_upsert:
  "table_ok rid t \<Longrightarrow> (\<And>i. rid (mk i) = i) \<Longrightarrow> (\<And>r. rid (f r) = rid r) \<Longrightarrow>
   table_ok rid (tupsert P f mk t)"
  by (simp add: tupsert_def table_ok_insert table_ok_update)

lemma table_ok_distinct: "table_ok rid t \<Longrightarrow> distinct (map rid (trows t))"
  by (simp add: table_ok_def strict_sorted_iff)

lemma table_ok_same_id:
  "table_ok rid t \<Longrightarrow> r \<in> set (trows t) \<Longrightarrow> r' \<in> set (trows t) \<Longrightarrow> rid r = rid r' \<Longrightarrow> r = r'"
  by (blast dest: table_ok_distinct distinct_map_inj_eq)

lemma tfind_insert:
  "tfind P (tinsert mk t) =
     (case tfind P t of Some r \<Rightarrow> Some r
      | None \<Rightarrow> if P (mk (tseq t + 1)) then Some (mk (tseq t + 1)) else None)"
  by (simp add: tfind_def table_simps find_append split: option.splits)

lemma tfind_update:
  assumes "\<And>r. P (f r) = P r"
  shows "tfind P (tupdate Q f t) = map_option (\<lambda>r. if Q r then f r else r) (tfind P t)"
proof -
  have "\<And>r. P (if Q r then f r else r) = P r" using assms by simp
  then show ?thesis by (simp add: tfind_def table_simps find_map_keep)
qed

lemma tfind_delete_other:
  "(\<And>r. P r \<Longrightarrow> \<not> Q r) \<Longrightarrow> tfind P (tdelete Q t) = tfind P t"
  by (simp add: tfind_def table_simps find_filter_keep)

lemma tfind_delete_same: "tfind P (tdelete P t) = None"
  by (auto simp: tfind_None thas_iff table_simps)

lemma tfind_id:
  "table_ok rid t \<Longrightarrow> r \<in> set (trows t) \<Longrightarrow> tfind (\<lambda>x. rid x = rid r) t = Some r"
  unfolding tfind_def by (rule find_unique) (auto dest: table_ok_same_id)

lemmas table_ok_intros = table_ok_insert table_ok_update table_ok_delete table_ok_upsert

section \<open>Unique keys\<close>

definition key_unique :: "('a \<Rightarrow> 'k) \<Rightarrow> 'a table \<Rightarrow> bool" where
  "key_unique key t \<longleftrightarrow> distinct (map key (trows t))"

lemma key_unique_empty [simp]: "key_unique key tempty"
  by (simp add: key_unique_def table_simps)

lemma key_unique_insert:
  "key_unique key t \<Longrightarrow> \<not> thas (\<lambda>r. key r = key (mk (tseq t + 1))) t \<Longrightarrow> key_unique key (tinsert mk t)"
  by (auto simp: key_unique_def table_simps thas_iff)

lemma key_unique_update:
  assumes "key_unique key t" "\<And>r. P r \<Longrightarrow> key (f r) = key r"
  shows "key_unique key (tupdate P f t)"
proof -
  have "map key (trows (tupdate P f t)) = map key (trows t)"
    using assms(2) by (simp add: table_simps)
  with assms(1) show ?thesis by (simp add: key_unique_def)
qed

lemma key_unique_delete: "key_unique key t \<Longrightarrow> key_unique key (tdelete P t)"
  by (simp add: key_unique_def table_simps distinct_map_filter)

lemma key_unique_same:
  "key_unique key t \<Longrightarrow> r \<in> set (trows t) \<Longrightarrow> r' \<in> set (trows t) \<Longrightarrow> key r = key r' \<Longrightarrow> r = r'"
  unfolding key_unique_def by (rule distinct_map_inj_eq)

lemma tfind_key:
  "key_unique key t \<Longrightarrow> r \<in> set (trows t) \<Longrightarrow> tfind (\<lambda>x. key x = key r) t = Some r"
  unfolding tfind_def by (rule find_unique) (auto dest: key_unique_same)

text \<open>
  The contract of a table with a unique key: what a lookup by key returns after an upsert,
  and that the rowid discipline and the key stay intact. \<open>at k\<close> is the WHERE clause that
  selects the key, \<open>mk\<close> the row an INSERT writes, \<open>upd\<close> what \<^verbatim>\<open>DO UPDATE SET\<close> changes.
\<close>

locale keyed_table =
  fixes rid :: "'row \<Rightarrow> int" and key :: "'row \<Rightarrow> 'key" and at_key :: "'key \<Rightarrow> 'row \<Rightarrow> bool"
    and mk :: "'key \<Rightarrow> 'data \<Rightarrow> int \<Rightarrow> 'row" and upd :: "'data \<Rightarrow> 'row \<Rightarrow> 'row"
  assumes at_key: "at_key k r \<longleftrightarrow> key r = k"
    and mk_id: "rid (mk k d i) = i" and mk_key: "key (mk k d i) = k"
    and upd_id: "rid (upd d r) = rid r" and upd_key: "key (upd d r) = key r"
begin

lemma put_table_ok: "table_ok rid t \<Longrightarrow> table_ok rid (tupsert (at_key k) (upd d) (mk k d) t)"
  by (rule table_ok_upsert) (simp_all add: mk_id upd_id)

lemma put_key_unique: "key_unique key t \<Longrightarrow> key_unique key (tupsert (at_key k) (upd d) (mk k d) t)"
  unfolding tupsert_def
  by (auto intro!: key_unique_update key_unique_insert simp: upd_key mk_key at_key thas_iff)

lemma lookup_put:
  "tfind (at_key k) (tupsert (at_key k) (upd d) (mk k d) t) =
     Some (case tfind (at_key k) t of None \<Rightarrow> mk k d (tseq t + 1) | Some r \<Rightarrow> upd d r)"
proof (cases "tfind (at_key k) t")
  case None
  then have "\<not> thas (at_key k) t" by (simp add: tfind_None)
  with None show ?thesis by (simp add: tupsert_def tfind_insert at_key mk_key)
next
  case (Some r)
  then have "thas (at_key k) t" by (metis tfind_None option.distinct(1))
  moreover have "\<And>x. at_key k (upd d x) = at_key k x" by (simp add: at_key upd_key)
  moreover from Some have "at_key k r" by (simp add: tfind_SomeD)
  ultimately show ?thesis
    using Some by (simp add: tupsert_def tfind_update)
qed

lemma lookup_put_other: "k' \<noteq> k \<Longrightarrow> tfind (at_key k') (tupsert (at_key k) (upd d) (mk k d) t) = tfind (at_key k') t"
proof -
  assume "k' \<noteq> k"
  have keep: "\<And>x. at_key k' (upd d x) = at_key k' x" by (simp add: at_key upd_key)
  show ?thesis
  proof (cases "thas (at_key k) t")
    case True
    have "\<not> at_key k r" if "at_key k' r" for r
      using that \<open>k' \<noteq> k\<close> by (auto simp: at_key)
    with True show ?thesis
      by (cases "tfind (at_key k') t")
        (auto simp: tupsert_def tfind_update[of "at_key k'" "upd d", OF keep] dest: tfind_SomeD)
  next
    case False
    with \<open>k' \<noteq> k\<close> show ?thesis
      by (simp add: tupsert_def tfind_insert at_key mk_key split: option.splits)
  qed
qed

lemma put_rows:
  "r \<in> set (trows (tupsert (at_key k) (upd d) (mk k d) t)) \<Longrightarrow>
   r \<in> set (trows t) \<or> (\<exists>r0 \<in> set (trows t). key r0 = k \<and> r = upd d r0) \<or>
   (r = mk k d (tseq t + 1) \<and> \<not> thas (at_key k) t)"
  by (auto simp: tupsert_def table_simps at_key split: if_splits)

lemma put_ids: "r \<in> set (trows t) \<Longrightarrow> \<exists>r' \<in> set (trows (tupsert (at_key k) (upd d) (mk k d) t)). rid r' = rid r"
  by (rule bexI[of _ "if thas (at_key k) t \<and> at_key k r then upd d r else r"])
    (auto simp: tupsert_def table_simps upd_id thas_iff)

end

end
