(* ===== verification/Repo_Path.thy ===== *)
theory Repo_Path
  imports Go_Strings
begin

text \<open>
  \<^verbatim>\<open>backend/internal/server/repo_path.go\<close>: where the repository name ends inside a
  request path. Every authorization decision on \<^verbatim>\<open>/v2/\<close> and \<^verbatim>\<open>/api/repositories/\<close> is made
  on the name these functions cut out. The lemmas give the result for the
  paths the registry protocol and the UI use, for every repository name, including
  names with reserved segments.
\<close>

definition repoBeforeLastSuffix :: "string \<Rightarrow> string list \<Rightarrow> string" where
  "repoBeforeLastSuffix path markers =
     (let best = foldl (\<lambda>best marker.
             case LastIndex path marker of None \<Rightarrow> best
             | Some idx \<Rightarrow> if int idx > best then int idx else best) (- 1) markers
      in if best \<le> 0 then [] else take (nat best) path)"

definition v2SubPathSuffixes :: "string list" where
  "v2SubPathSuffixes = [''/manifests/'', ''/blobs/'', ''/tags/list'']"

definition apiRepoSubPathSuffixes :: "string list" where
  "apiRepoSubPathSuffixes =
     [''/tags'', ''/manifests/'', ''/blobs/'', ''/stats'', ''/tag-policy'', ''/init'',
      ''/manifests/batch-delete'', ''/retention-preview'', ''/retention-run'']"

definition v2PullResourceRepoPath :: "string \<Rightarrow> string" where
  "v2PullResourceRepoPath path =
     (let rest = TrimPrefix path ''/v2/''
      in if rest = [] \<or> rest = path then []
         else repoBeforeLastSuffix rest [''/manifests/'', ''/blobs/''])"

definition extractV2RepoPath :: "string \<Rightarrow> string" where
  "extractV2RepoPath path =
     (if \<not> HasPrefix path ''/v2/'' then []
      else let rest = TrimPrefix path ''/v2/''
      in if rest = [] \<or> rest = ''_catalog'' \<or> HasPrefix rest ''_catalog/'' then []
         else let repo = repoBeforeLastSuffix rest v2SubPathSuffixes
              in if repo \<noteq> [] then repo else rest)"

definition extractRepoNameFromPath :: "string \<Rightarrow> string" where
  "extractRepoNameFromPath path = repoBeforeLastSuffix path apiRepoSubPathSuffixes"

section \<open>The cut is at the last marker\<close>

definition occurs_at :: "string \<Rightarrow> string \<Rightarrow> nat \<Rightarrow> bool" where
  "occurs_at path m i \<longleftrightarrow> i \<le> length path \<and> HasPrefix (drop i path) m"

lemma LastIndex_occurs: "LastIndex path m = Some i \<Longrightarrow> occurs_at path m i"
  using LastIndex_SomeD[of path m i] by (auto simp: occurs_at_def HasPrefix_def)

lemma occurs_LastIndex: "occurs_at path m j \<Longrightarrow> \<exists>i. LastIndex path m = Some i \<and> j \<le> i"
  by (auto simp: occurs_at_def dest: LastIndex_last)

lemma repoBefore_fold_bound:
  assumes "\<And>m j. m \<in> set ms \<Longrightarrow> occurs_at path m j \<Longrightarrow> j \<le> i" "b \<le> int i"
  shows "foldl (\<lambda>best marker. case LastIndex path marker of None \<Rightarrow> best
             | Some idx \<Rightarrow> if int idx > best then int idx else best) b ms \<le> int i \<and>
         b \<le> foldl (\<lambda>best marker. case LastIndex path marker of None \<Rightarrow> best
             | Some idx \<Rightarrow> if int idx > best then int idx else best) b ms"
  using assms
proof (induction ms arbitrary: b)
  case Nil
  then show ?case by simp
next
  case (Cons m ms)
  let ?b = "case LastIndex path m of None \<Rightarrow> b | Some idx \<Rightarrow> if int idx > b then int idx else b"
  have "b \<le> ?b" by (auto split: option.splits)
  moreover have "?b \<le> int i"
    using Cons.prems(2) Cons.prems(1)[of m] LastIndex_occurs[of path m]
    by (auto split: option.splits)
  ultimately show ?case using Cons.IH[of ?b] Cons.prems(1) by fastforce
qed

lemma repoBefore_fold_reach:
  assumes "\<And>m j. m \<in> set ms \<Longrightarrow> occurs_at path m j \<Longrightarrow> j \<le> i" "b \<le> int i"
    "m \<in> set ms" "occurs_at path m i"
  shows "foldl (\<lambda>best marker. case LastIndex path marker of None \<Rightarrow> best
             | Some idx \<Rightarrow> if int idx > best then int idx else best) b ms = int i"
  using assms
proof (induction ms arbitrary: b)
  case Nil
  then show ?case by simp
next
  case (Cons m' ms)
  let ?b = "case LastIndex path m' of None \<Rightarrow> b | Some idx \<Rightarrow> if int idx > b then int idx else b"
  have le: "?b \<le> int i"
    using Cons.prems(2) Cons.prems(1)[of m'] LastIndex_occurs[of path m']
    by (auto split: option.splits)
  show ?case
  proof (cases "m \<in> set ms")
    case True
    with Cons.IH[of ?b] Cons.prems le show ?thesis by fastforce
  next
    case False
    with Cons.prems(3) have "m' = m" by simp
    obtain k where "LastIndex path m = Some k" "i \<le> k"
      using occurs_LastIndex[OF Cons.prems(4)] by blast
    with Cons.prems(1)[of m k] \<open>m' = m\<close> LastIndex_occurs[of path m k]
    have "LastIndex path m' = Some i" by auto
    with Cons.prems(2) have "?b = int i" by auto
    with repoBefore_fold_bound[of ms path i ?b] Cons.prems(1) show ?thesis by fastforce
  qed
qed

lemma repoBeforeLastSuffix_cut:
  assumes "m \<in> set ms" "occurs_at path m i" "0 < i"
    "\<And>m j. m \<in> set ms \<Longrightarrow> occurs_at path m j \<Longrightarrow> j \<le> i"
  shows "repoBeforeLastSuffix path ms = take i path"
  using repoBefore_fold_reach[of ms path i "- 1" m] assms
  by (simp add: repoBeforeLastSuffix_def)

section \<open>Paths with a slash-free last component\<close>

text \<open>
  In \<open>repo @ sep @ ref\<close> with a separator of the form \<^verbatim>\<open>/word/\<close> and a \<open>ref\<close> without a slash,
  the only places after the end of the name where a marker can start are the separator
  itself and its closing slash.
\<close>

lemma occurs_slash:
  assumes "occurs_at path m j" "m \<noteq> []" "hd m = CHR ''/''"
  shows "j < length path" "path ! j = CHR ''/''"
proof -
  from assms(1) have le: "j \<le> length path" and pre: "HasPrefix (drop j path) m"
    by (auto simp: occurs_at_def)
  then obtain t where t: "drop j path = m @ t" by (auto simp: HasPrefix_iff)
  with assms(2) have "drop j path \<noteq> []" by simp
  then show "j < length path" by simp
  then have "path ! j = hd (drop j path)" by (simp add: hd_drop_conv_nth)
  with t assms(2,3) show "path ! j = CHR ''/''" by simp
qed

lemma slash_positions:
  assumes "CHR ''/'' \<notin> set w" "CHR ''/'' \<notin> set ref"
    "j < length (CHR ''/'' # w @ CHR ''/'' # ref)"
    "(CHR ''/'' # w @ CHR ''/'' # ref) ! j = CHR ''/''"
  shows "j = 0 \<or> j = Suc (length w)"
proof (rule ccontr)
  assume "\<not> ?thesis"
  then obtain k where j: "j = Suc k" and "k \<noteq> length w" by (cases j) auto
  then consider "k < length w" | "length w < k" by linarith
  then show False
  proof cases
    case 1
    with assms(4) j have "w ! k = CHR ''/''" by (simp add: nth_append)
    with 1 assms(1) nth_mem[of k w] show False by simp
  next
    case 2
    define l where "l = k - Suc (length w)"
    from 2 have k: "k = length w + Suc l" by (simp add: l_def)
    from assms(4) j k have "ref ! l = CHR ''/''" by (simp add: nth_append)
    moreover from assms(3) j k have "l < length ref" by simp
    ultimately show False using assms(2) nth_mem by fastforce
  qed
qed

lemma occurs_after_name:
  assumes "CHR ''/'' \<notin> set w" "CHR ''/'' \<notin> set ref" "m \<noteq> []" "hd m = CHR ''/''"
    "occurs_at (repo @ CHR ''/'' # w @ CHR ''/'' # ref) m j" "length repo < j"
  shows "j = length repo + Suc (length w)" "HasPrefix (CHR ''/'' # ref) m"
proof -
  let ?tail = "CHR ''/'' # w @ CHR ''/'' # ref"
  from occurs_slash[OF assms(5,3,4)] assms(6)
  have "j - length repo < length ?tail" "?tail ! (j - length repo) = CHR ''/''"
    by (auto simp: nth_append)
  from slash_positions[OF assms(1,2) this] assms(6)
  show j: "j = length repo + Suc (length w)" by linarith
  have "drop j (repo @ ?tail) = CHR ''/'' # ref" by (simp add: j)
  with assms(5) show "HasPrefix (CHR ''/'' # ref) m" by (simp add: occurs_at_def)
qed

lemma cut_at_separator:
  assumes "repo \<noteq> []" "CHR ''/'' \<notin> set w" "CHR ''/'' \<notin> set ref"
    "CHR ''/'' # w @ [CHR ''/''] \<in> set ms"
    "\<And>m. m \<in> set ms \<Longrightarrow> m \<noteq> [] \<and> hd m = CHR ''/'' \<and> \<not> HasPrefix (CHR ''/'' # ref) m"
  shows "repoBeforeLastSuffix (repo @ CHR ''/'' # w @ CHR ''/'' # ref) ms = repo"
proof -
  let ?path = "repo @ CHR ''/'' # w @ CHR ''/'' # ref"
  have "occurs_at ?path (CHR ''/'' # w @ [CHR ''/'']) (length repo)"
    by (auto simp: occurs_at_def HasPrefix_iff)
  moreover have "j \<le> length repo" if "m \<in> set ms" "occurs_at ?path m j" for m j
    using occurs_after_name(2)[OF assms(2,3) _ _ that(2)] assms(5)[OF that(1)]
    by (meson not_le_imp_less)
  ultimately show ?thesis
    using repoBeforeLastSuffix_cut[of _ ms ?path "length repo"] assms(1,4) by fastforce
qed

lemma cut_at_last_slash:
  assumes "CHR ''/'' \<notin> set w" "CHR ''/'' \<notin> set ref"
    "m \<in> set ms" "HasPrefix (CHR ''/'' # ref) m"
    "\<And>m. m \<in> set ms \<Longrightarrow> m \<noteq> [] \<and> hd m = CHR ''/''"
  shows "repoBeforeLastSuffix (repo @ CHR ''/'' # w @ CHR ''/'' # ref) ms =
         repo @ CHR ''/'' # w"
proof -
  let ?path = "repo @ CHR ''/'' # w @ CHR ''/'' # ref"
  let ?i = "length repo + Suc (length w)"
  have "occurs_at ?path m ?i"
    using assms(4) by (simp add: occurs_at_def)
  moreover have "j \<le> ?i" if "m' \<in> set ms" "occurs_at ?path m' j" for m' j
    using occurs_after_name(1)[OF assms(1,2) _ _ that(2)] assms(5)[OF that(1)]
    by (metis le_add1 le_refl not_le_imp_less order.trans)
  ultimately show ?thesis
    using repoBeforeLastSuffix_cut[of m ms ?path ?i] assms(3) by simp
qed

lemma short_ref_no_marker:
  "CHR ''/'' \<notin> set ref \<Longrightarrow> CHR ''/'' \<in> set (tl m) \<Longrightarrow> \<not> HasPrefix (CHR ''/'' # ref) m"
  by (cases m) (auto simp: HasPrefix_iff)

lemma name_not_reserved:
  assumes "CHR ''/'' \<notin> set r" "repo \<noteq> r" "\<not> HasPrefix repo (r @ ''/'')"
  shows "\<not> HasPrefix (repo @ CHR ''/'' # rest) (r @ ''/'')"
proof
  assume "HasPrefix (repo @ CHR ''/'' # rest) (r @ ''/'')"
  then obtain t where "repo @ CHR ''/'' # rest = r @ CHR ''/'' # t"
    by (auto simp: HasPrefix_iff)
  then obtain us where "(repo = r @ us \<and> us @ CHR ''/'' # rest = CHR ''/'' # t) \<or>
      (repo @ us = r \<and> CHR ''/'' # rest = us @ CHR ''/'' # t)"
    by (auto simp: append_eq_append_conv2)
  then show False
  proof
    assume "repo = r @ us \<and> us @ CHR ''/'' # rest = CHR ''/'' # t"
    with assms(2,3) show False by (cases us) (auto simp: HasPrefix_iff)
  next
    assume "repo @ us = r \<and> CHR ''/'' # rest = us @ CHR ''/'' # t"
    with assms(1,2) show False by (cases us) auto
  qed
qed

lemma apiRepoSubPathSuffixes_slash:
  "m \<in> set apiRepoSubPathSuffixes \<Longrightarrow> m \<noteq> [] \<and> hd m = CHR ''/''"
  by (auto simp: apiRepoSubPathSuffixes_def)

section \<open>Properties\<close>

text \<open>
  C7. For every non-empty repository name, whatever reserved segments it contains, and
  every reference without a slash, the two parsers of \<^verbatim>\<open>/v2/\<close> paths - the one that decides
  anonymous pull and the one that decides namespace permissions - cut the same name out
  of a manifest path and of a blob path: exactly the repository.
\<close>

theorem v2_parsers_agree:
  assumes "repo \<noteq> []" "CHR ''/'' \<notin> set ref" "\<not> HasPrefix repo ''_catalog/''" "repo \<noteq> ''_catalog''"
    and "w = ''manifests'' \<or> w = ''blobs''"
  shows "v2PullResourceRepoPath (''/v2/'' @ repo @ ''/'' @ w @ ''/'' @ ref) = repo \<and>
         extractV2RepoPath (''/v2/'' @ repo @ ''/'' @ w @ ''/'' @ ref) = repo"
proof -
  let ?rest = "repo @ CHR ''/'' # w @ CHR ''/'' # ref"
  have w: "CHR ''/'' \<notin> set w" using assms(5) by auto
  have v2: "m \<noteq> [] \<and> hd m = CHR ''/'' \<and> \<not> HasPrefix (CHR ''/'' # ref) m"
    if "m \<in> set v2SubPathSuffixes" for m
    using that short_ref_no_marker[OF assms(2), of m] by (auto simp: v2SubPathSuffixes_def)
  have mem: "CHR ''/'' # w @ [CHR ''/''] \<in> set [''/manifests/'', ''/blobs/'']"
    using assms(5) by auto
  have sub: "set [''/manifests/'', ''/blobs/''] \<subseteq> set v2SubPathSuffixes"
    by (auto simp: v2SubPathSuffixes_def)
  have pull: "repoBeforeLastSuffix ?rest [''/manifests/'', ''/blobs/''] = repo"
    by (rule cut_at_separator[OF assms(1) w assms(2) mem]) (use v2 sub in blast)
  have ext: "repoBeforeLastSuffix ?rest v2SubPathSuffixes = repo"
    by (rule cut_at_separator[OF assms(1) w assms(2)]) (use v2 sub mem in blast)+
  have nocat: "?rest \<noteq> ''_catalog''" "\<not> HasPrefix ?rest ''_catalog/''"
  proof -
    show "?rest \<noteq> ''_catalog''"
    proof
      assume "?rest = ''_catalog''"
      then have "CHR ''/'' \<in> set ''_catalog''" by (metis in_set_conv_decomp)
      then show False by simp
    qed
    show "\<not> HasPrefix ?rest ''_catalog/''"
      using name_not_reserved[of "''_catalog''" repo "w @ CHR ''/'' # ref"] assms(3,4) by auto
  qed
  have p: "TrimPrefix (''/v2/'' @ ?rest) ''/v2/'' = ?rest" "HasPrefix (''/v2/'' @ ?rest) ''/v2/''"
    by (simp_all only: TrimPrefix_append HasPrefix_append)
  have "v2PullResourceRepoPath (''/v2/'' @ ?rest) = repo"
    unfolding v2PullResourceRepoPath_def p(1) Let_def pull using assms(1) by auto
  moreover have "extractV2RepoPath (''/v2/'' @ ?rest) = repo"
    unfolding extractV2RepoPath_def p(1) Let_def ext using assms(1) nocat p(2) by auto
  ultimately show ?thesis by simp
qed

theorem v2_parsers_agree_witness:
  "v2PullResourceRepoPath ''/v2/team/manifests/app/manifests/v1'' = ''team/manifests/app'' \<and>
   extractV2RepoPath ''/v2/team/manifests/app/manifests/v1'' = ''team/manifests/app''"
  using v2_parsers_agree[of "''team/manifests/app''" "''v1''" "''manifests''"]
  by (simp add: HasPrefix_def)

text \<open>
  The name cut out of a UI path \<^verbatim>\<open>repo/manifests/ref\<close> is the repository, except that a
  reference that begins like one of the reserved sub-paths (\<^verbatim>\<open>tags\<close>, \<^verbatim>\<open>stats\<close>, \<^verbatim>\<open>tag-policy\<close>,
  \<^verbatim>\<open>init\<close>, \<^verbatim>\<open>retention-preview\<close>, \<^verbatim>\<open>retention-run\<close>) moves the cut: then the permission check
  is made on \<^verbatim>\<open>repo/manifests\<close> instead of the repository the handler acts on.
\<close>

theorem extractRepoName_manifest_path:
  assumes "repo \<noteq> []" "CHR ''/'' \<notin> set ref"
  shows "extractRepoNameFromPath (repo @ ''/manifests/'' @ ref) =
         (if list_ex (\<lambda>m. HasPrefix (''/'' @ ref) m) apiRepoSubPathSuffixes
          then repo @ ''/manifests'' else repo)"
proof -
  have w: "CHR ''/'' \<notin> set ''manifests''" by simp
  have path: "repo @ ''/manifests/'' @ ref = repo @ CHR ''/'' # ''manifests'' @ CHR ''/'' # ref"
    by simp
  show ?thesis
  proof (cases "list_ex (\<lambda>m. HasPrefix (''/'' @ ref) m) apiRepoSubPathSuffixes")
    case True
    then obtain m where m: "m \<in> set apiRepoSubPathSuffixes" "HasPrefix (CHR ''/'' # ref) m"
      by (auto simp: list_ex_iff)
    show ?thesis unfolding extractRepoNameFromPath_def path
      using cut_at_last_slash[OF w assms(2) m apiRepoSubPathSuffixes_slash] True by simp
  next
    case False
    then have no: "\<And>m. m \<in> set apiRepoSubPathSuffixes \<Longrightarrow>
        m \<noteq> [] \<and> hd m = CHR ''/'' \<and> \<not> HasPrefix (CHR ''/'' # ref) m"
      using apiRepoSubPathSuffixes_slash by (auto simp: list_ex_iff)
    have "CHR ''/'' # ''manifests'' @ [CHR ''/''] \<in> set apiRepoSubPathSuffixes"
      by (simp add: apiRepoSubPathSuffixes_def)
    from cut_at_separator[OF assms(1) w assms(2) this no] False
    show ?thesis unfolding extractRepoNameFromPath_def path by simp
  qed
qed

theorem extractRepoName_manifest_path_witness:
  "extractRepoNameFromPath ''library/nginx/manifests/v1'' = ''library/nginx'' \<and>
   extractRepoNameFromPath ''library/nginx/manifests/init-2'' = ''library/nginx/manifests''"
  using extractRepoName_manifest_path[of "''library/nginx''" "''v1''"]
    extractRepoName_manifest_path[of "''library/nginx''" "''init-2''"]
  by (simp add: apiRepoSubPathSuffixes_def HasPrefix_def)

end
