(* ===== verification/Store_Types.thy ===== *)
theory Store_Types
  imports Go_Strings
begin

text \<open>
  The data of \<^verbatim>\<open>backend/internal/store/store.go\<close>: the rows of every table, the store itself
  (database plus the in-memory settings cache), the errors its operations return, and
  the setting and policy codes.

  Times written by SQLite (\<^verbatim>\<open>CURRENT_TIMESTAMP\<close>) are whole seconds; an operation that writes
  one takes the current second as its argument \<open>now\<close>. \<open>s_fault\<close> marks the tables on which every
  statement fails with an I/O error, so that the error branches of the code can be reached;
  a statement on a healthy table fails only through a constraint.
\<close>

section \<open>Rows\<close>

record namespace_row =
  ns_id :: int
  ns_name :: string
  ns_created :: int

record repo_row =
  rp_id :: int
  rp_ns :: int
  rp_name :: string
  rp_anon :: bool
  rp_push_create :: int
  rp_keep :: int
  rp_prot :: int
  rp_ow :: int
  rp_created :: int

record image_row =
  im_id :: int
  im_repo :: int
  im_tag :: string
  im_digest :: string
  im_ctype :: string
  im_size :: int
  im_atype :: string
  im_fav :: bool
  im_note :: string
  im_deleted :: bool
  im_pushed :: "string option"
  im_created :: int
  im_updated :: int

record recent_row =
  rc_id :: int
  rc_user :: int
  rc_repo :: string
  rc_ref :: string
  rc_action :: string
  rc_at :: int

record audit_row =
  au_id :: int
  au_user :: int
  au_action :: string
  au_repo :: string
  au_ref :: string
  au_digest :: string
  au_status :: string
  au_detail :: string
  au_image :: "int option"
  au_snapshot :: string
  au_at :: int

datatype recycle_status = PendingGC | Restored | GCExpired | GCFailed

record recycle_row =
  rb_id :: int
  rb_repo :: string
  rb_ref :: string
  rb_digest :: string
  rb_ctype :: string
  rb_body :: string
  rb_status :: recycle_status
  rb_image :: "int option"
  rb_size :: int
  rb_attempts :: int
  rb_error :: string
  rb_deleted :: int
  rb_restored :: "int option"

record user_row =
  us_id :: int
  us_name :: string
  us_hash :: string
  us_admin :: bool
  us_enabled :: bool
  us_mustchange :: bool
  us_created :: int
  us_updated :: int

record perm_row =
  pm_id :: int
  pm_user :: int
  pm_pattern :: string
  pm_read :: bool
  pm_write :: bool
  pm_created :: int

record rule_row =
  ru_id :: int
  ru_pattern :: string
  ru_desc :: string
  ru_created :: int

record token_row =
  tk_id :: int
  tk_user :: int
  tk_name :: string
  tk_hash :: string
  tk_prefix :: string
  tk_desc :: string
  tk_expires :: "int option"
  tk_lastused :: "int option"
  tk_created :: int

record stats_row =
  st_repo :: string
  st_pulls :: int
  st_pushes :: int
  st_lastpull :: "int option"
  st_lastpush :: "int option"

record hook_row =
  wh_id :: int
  wh_url :: string
  wh_secret :: string
  wh_events :: string
  wh_enabled :: bool
  wh_created :: int

section \<open>The store\<close>

datatype table_name =
  TSettings | TNamespaces | TRepositories | TImages | TRecent | TAudit | TRecycle
| TUsers | TPerms | TRules | TDescr | TTokens | TStats | THooks

record store =
  s_settings :: "string \<rightharpoonup> string"
  s_cache :: "string \<rightharpoonup> string"
  s_namespaces :: "namespace_row table"
  s_repos :: "repo_row table"
  s_images :: "image_row table"
  s_recent :: "recent_row table"
  s_audit :: "audit_row table"
  s_recycle :: "recycle_row table"
  s_users :: "user_row table"
  s_perms :: "perm_row table"
  s_rules :: "rule_row table"
  s_descr :: "string \<rightharpoonup> string"
  s_tokens :: "token_row table"
  s_stats :: "stats_row list"
  s_hooks :: "hook_row table"
  s_fault :: "table_name \<Rightarrow> bool"

definition empty_store :: store where
  "empty_store =
     \<lparr>s_settings = Map.empty, s_cache = Map.empty, s_namespaces = tempty, s_repos = tempty,
      s_images = tempty, s_recent = tempty, s_audit = tempty, s_recycle = tempty,
      s_users = tempty, s_perms = tempty, s_rules = tempty, s_descr = Map.empty,
      s_tokens = tempty, s_stats = [], s_hooks = tempty, s_fault = (\<lambda>_. False)\<rparr>"

text \<open>What an operation can return besides its value.\<close>

datatype serr =
  NoRows
| IOError
| UniqueViolation
| FKViolation
| InvalidSetting string string
| RepoNotFound string string
| BadRetention int
| HashFailed

type_synonym 'a sres = "serr + 'a"

definition is_ok :: "'a sres \<Rightarrow> bool" where
  "is_ok r = (case r of Inl _ \<Rightarrow> False | Inr _ \<Rightarrow> True)"

lemma is_ok_simps [simp]: "is_ok (Inr x)" "\<not> is_ok (Inl e)"
  by (simp_all add: is_ok_def)

text \<open>A SELECT of one row: no row is \<^verbatim>\<open>sql.ErrNoRows\<close>.\<close>

definition row_or_norows :: "'a option \<Rightarrow> 'a sres" where
  "row_or_norows r = (case r of None \<Rightarrow> Inl NoRows | Some x \<Rightarrow> Inr x)"

lemma row_or_norows_Inr [simp]: "row_or_norows r = Inr x \<longleftrightarrow> r = Some x"
  by (cases r) (auto simp: row_or_norows_def)

lemma row_or_norows_Inl [simp]: "row_or_norows r = Inl e \<longleftrightarrow> r = None \<and> e = NoRows"
  by (cases r) (auto simp: row_or_norows_def)

section \<open>Setting defaults and bounds\<close>

definition DefaultSettings :: "string \<rightharpoonup> string" where
  "DefaultSettings = map_of
     [(''theme'', ''light''), (''language'', ''zh''), (''appLogo'', ''RU''),
      (''appTitle'', ''Registry UI''), (''appSubtitle'', ''''), (''pageSize'', ''100''),
      (''showAudit'', ''true''), (''tls_enabled'', ''false''), (''recycleGCDays'', ''30''),
      (''protection_mode'', ''rules''), (''overwrite_action'', ''recycle''),
      (''retention_keep_count'', ''0''), (''allow_anonymous_pull'', ''false''),
      (''push_create_repo'', ''true'')]"

definition numericSettingBounds :: "string \<rightharpoonup> int \<times> int" where
  "numericSettingBounds = map_of
     [(''recycleGCDays'', (0, 3650)), (''pageSize'', (1, 1000)),
      (''retention_keep_count'', (0, 100000))]"

definition validateSettingValue :: "string \<Rightarrow> string \<Rightarrow> unit sres" where
  "validateSettingValue key value =
     (case numericSettingBounds key of
        None \<Rightarrow> Inr ()
      | Some (lo, hi) \<Rightarrow>
          (case Atoi (TrimSpace value) of
             (n, Some _) \<Rightarrow> Inl (InvalidSetting key ''must be an integer'')
           | (n, None) \<Rightarrow>
               if n < lo \<or> hi < n
               then Inl (InvalidSetting key (''must be between '' @ Itoa lo @ '' and '' @ Itoa hi))
               else Inr ()))"

section \<open>Protection and overwrite codes\<close>

definition ProtectionModeUnset :: int where "ProtectionModeUnset = -1"
definition ProtectionModeRules :: int where "ProtectionModeRules = 0"
definition ProtectionModeOverwrite :: int where "ProtectionModeOverwrite = 1"
definition ProtectionModeImmutable :: int where "ProtectionModeImmutable = 2"
definition OverwriteActionUnset :: int where "OverwriteActionUnset = -1"
definition OverwriteActionRecycle :: int where "OverwriteActionRecycle = 0"
definition OverwriteActionKeep :: int where "OverwriteActionKeep = 1"

lemmas policy_code_defs =
  ProtectionModeUnset_def ProtectionModeRules_def ProtectionModeOverwrite_def
  ProtectionModeImmutable_def OverwriteActionUnset_def OverwriteActionRecycle_def
  OverwriteActionKeep_def

definition ProtectionCodeToString :: "int \<Rightarrow> string" where
  "ProtectionCodeToString code =
     (if code = ProtectionModeOverwrite then ''overwrite''
      else if code = ProtectionModeImmutable then ''immutable''
      else if code = ProtectionModeRules then ''rules''
      else ''rules'')"

definition ProtectionStringToCode :: "string \<Rightarrow> int" where
  "ProtectionStringToCode s =
     (if s = ''overwrite'' then ProtectionModeOverwrite
      else if s = ''immutable'' then ProtectionModeImmutable
      else if s = ''rules'' then ProtectionModeRules
      else ProtectionModeUnset)"

definition OverwriteCodeToString :: "int \<Rightarrow> string" where
  "OverwriteCodeToString code =
     (if code = OverwriteActionKeep then ''keep'' else ''recycle'')"

definition OverwriteStringToCode :: "string \<Rightarrow> int" where
  "OverwriteStringToCode s =
     (if s = ''keep'' then OverwriteActionKeep
      else if s = ''recycle'' then OverwriteActionRecycle
      else OverwriteActionUnset)"

lemma protection_string_of_code:
  "0 \<le> code \<Longrightarrow> code \<le> 2 \<Longrightarrow> ProtectionStringToCode (ProtectionCodeToString code) = code"
  by (auto simp: ProtectionStringToCode_def ProtectionCodeToString_def policy_code_defs)

lemma overwrite_string_of_code:
  "0 \<le> code \<Longrightarrow> code \<le> 1 \<Longrightarrow> OverwriteStringToCode (OverwriteCodeToString code) = code"
  by (auto simp: OverwriteStringToCode_def OverwriteCodeToString_def policy_code_defs)

lemma protection_code_of_string:
  "ProtectionStringToCode s \<noteq> ProtectionModeUnset \<Longrightarrow>
   ProtectionCodeToString (ProtectionStringToCode s) = s"
  by (auto simp: ProtectionStringToCode_def ProtectionCodeToString_def policy_code_defs
      split: if_splits)

lemma overwrite_code_of_string:
  "OverwriteStringToCode s \<noteq> OverwriteActionUnset \<Longrightarrow>
   OverwriteCodeToString (OverwriteStringToCode s) = s"
  by (auto simp: OverwriteStringToCode_def OverwriteCodeToString_def policy_code_defs
      split: if_splits)

lemma protection_code_nonneg:
  "ProtectionStringToCode x \<noteq> ProtectionModeUnset \<Longrightarrow> 0 \<le> ProtectionStringToCode x"
  by (simp add: ProtectionStringToCode_def policy_code_defs split: if_splits)

lemma overwrite_code_nonneg:
  "OverwriteStringToCode x \<noteq> OverwriteActionUnset \<Longrightarrow> 0 \<le> OverwriteStringToCode x"
  by (simp add: OverwriteStringToCode_def policy_code_defs split: if_splits)

end
