(* ===== verification/Store_Settings.thy ===== *)
theory Store_Settings
  imports Store_Types
begin

text \<open>
  The settings table and its in-memory cache (\<^verbatim>\<open>SetSetting\<close>, \<^verbatim>\<open>GetSetting\<close>, \<^verbatim>\<open>GetSettingInt\<close>,
  \<^verbatim>\<open>GetSettingBool\<close>, \<^verbatim>\<open>Settings\<close> of \<^verbatim>\<open>store.go\<close>), the contract they offer to the policy and GC
  code as the locale \<open>setting_service\<close>, and the interleavings of concurrent readers and
  writers of one key, which the cache protocol does not order.
\<close>

section \<open>Operations\<close>

definition SetSetting :: "string \<Rightarrow> string \<Rightarrow> store \<Rightarrow> unit sres \<times> store" where
  "SetSetting key value s =
     (if value = [] then
        (if s_fault s TSettings then (Inl IOError, s)
         else (Inr (), s\<lparr>s_settings := (s_settings s)(key := None),
                         s_cache := (s_cache s)(key := None)\<rparr>))
      else case validateSettingValue key value of
        Inl e \<Rightarrow> (Inl e, s)
      | Inr _ \<Rightarrow>
          if s_fault s TSettings then (Inl IOError, s)
          else (Inr (), s\<lparr>s_settings := (s_settings s)(key \<mapsto> value),
                          s_cache := (s_cache s)(key \<mapsto> value)\<rparr>))"

definition GetSetting :: "string \<Rightarrow> store \<Rightarrow> string sres \<times> store" where
  "GetSetting key s =
     (case s_cache s key of
        Some v \<Rightarrow> (Inr v, s)
      | None \<Rightarrow>
          if s_fault s TSettings then (Inl IOError, s)
          else case s_settings s key of
            None \<Rightarrow> (Inr [], s\<lparr>s_cache := (s_cache s)(key \<mapsto> [])\<rparr>)
          | Some v \<Rightarrow> (Inr v, s\<lparr>s_cache := (s_cache s)(key \<mapsto> v)\<rparr>))"

text \<open>Callers that ignore the error of \<open>GetSetting\<close> see the empty string.\<close>

definition value_or_empty :: "string sres \<Rightarrow> string" where
  "value_or_empty r = (case r of Inl _ \<Rightarrow> [] | Inr v \<Rightarrow> v)"

definition GetSettingInt :: "string \<Rightarrow> int \<Rightarrow> store \<Rightarrow> int \<times> store" where
  "GetSettingInt key dflt s =
     (let (r, s') = GetSetting key s; v = value_or_empty r
      in if v = [] then (dflt, s')
         else case Atoi v of (n, Some _) \<Rightarrow> (dflt, s') | (n, None) \<Rightarrow> (n, s'))"

definition bool_of_setting :: "string \<Rightarrow> bool \<Rightarrow> bool" where
  "bool_of_setting v dflt =
     (let w = ToLower (TrimSpace v)
      in if w = ''true'' \<or> w = ''1'' \<or> w = ''yes'' \<or> w = ''on'' then True
         else if w = ''false'' \<or> w = ''0'' \<or> w = ''no'' \<or> w = ''off'' then False
         else dflt)"

definition GetSettingBool :: "string \<Rightarrow> bool \<Rightarrow> store \<Rightarrow> bool \<times> store" where
  "GetSettingBool key dflt s =
     (let (r, s') = GetSetting key s in (bool_of_setting (value_or_empty r) dflt, s'))"

definition Settings :: "store \<Rightarrow> (string \<rightharpoonup> string) sres \<times> store" where
  "Settings s =
     (if s_fault s TSettings then (Inl IOError, s)
      else (Inr (s_settings s), s\<lparr>s_cache := s_cache s ++ s_settings s\<rparr>))"

section \<open>Coherence of the cache\<close>

text \<open>What a reader should see, and the invariant that makes the cache show it.\<close>

definition setting_of :: "store \<Rightarrow> string \<Rightarrow> string" where
  "setting_of s key = (case s_settings s key of None \<Rightarrow> [] | Some v \<Rightarrow> v)"

definition cache_ok :: "store \<Rightarrow> bool" where
  "cache_ok s \<longleftrightarrow> (\<forall>k v. s_cache s k = Some v \<longrightarrow> v = setting_of s k)"

definition settings_up :: "store \<Rightarrow> bool" where
  "settings_up s \<longleftrightarrow> \<not> s_fault s TSettings"

text \<open>Two stores that differ at most in the cache.\<close>

definition same_data :: "store \<Rightarrow> store \<Rightarrow> bool" where
  "same_data s s' \<longleftrightarrow> s' = s\<lparr>s_cache := s_cache s'\<rparr>"

lemma same_data_refl [simp]: "same_data s s"
  by (simp add: same_data_def)

lemma same_data_fields:
  "same_data s s' \<Longrightarrow> s_settings s' = s_settings s \<and> s_fault s' = s_fault s \<and>
   s_repos s' = s_repos s \<and> s_namespaces s' = s_namespaces s \<and> s_images s' = s_images s \<and>
   s_recycle s' = s_recycle s \<and> s_users s' = s_users s \<and> s_perms s' = s_perms s \<and>
   s_rules s' = s_rules s \<and> s_tokens s' = s_tokens s \<and> s_stats s' = s_stats s \<and>
   s_audit s' = s_audit s \<and> s_hooks s' = s_hooks s"
  unfolding same_data_def by (metis store.select_convs store.surjective store.update_convs(2))

lemma same_data_trans: "same_data s s' \<Longrightarrow> same_data s' s'' \<Longrightarrow> same_data s s''"
  unfolding same_data_def by (metis store.surjective store.update_convs(2) store.select_convs(2))

lemma same_data_setting_of: "same_data s s' \<Longrightarrow> setting_of s' = setting_of s"
  by (rule ext) (simp add: setting_of_def same_data_fields)

lemma GetSetting_same_data: "same_data s (snd (GetSetting key s))"
  by (auto simp: GetSetting_def same_data_def split: option.splits)

lemma cache_okD: "cache_ok s \<Longrightarrow> s_cache s k = Some v \<Longrightarrow> v = setting_of s k"
  by (simp add: cache_ok_def)

lemma GetSetting_value:
  "cache_ok s \<Longrightarrow> settings_up s \<Longrightarrow> fst (GetSetting key s) = Inr (setting_of s key)"
  by (auto simp: GetSetting_def settings_up_def dest: cache_okD split: option.splits)
    (auto simp: setting_of_def)

lemma GetSetting_cache_ok: "cache_ok s \<Longrightarrow> cache_ok (snd (GetSetting key s))"
  by (auto simp: GetSetting_def cache_ok_def setting_of_def split: option.splits if_splits)

lemma GetSetting_up [simp]: "settings_up (snd (GetSetting key s)) = settings_up s"
  by (simp add: GetSetting_def settings_up_def split: option.splits)

lemma SetSetting_up [simp]: "settings_up (snd (SetSetting key v s)) = settings_up s"
  by (simp add: SetSetting_def settings_up_def split: sum.splits)

lemma SetSetting_cache_ok: "cache_ok s \<Longrightarrow> cache_ok (snd (SetSetting key v s))"
  by (auto simp: SetSetting_def cache_ok_def setting_of_def split: sum.splits if_splits)

lemma SetSetting_setting_of:
  "fst (SetSetting key v s) = Inr () \<Longrightarrow>
   setting_of (snd (SetSetting key v s)) = (setting_of s)(key := v)"
  by (rule ext) (auto simp: SetSetting_def setting_of_def split: sum.splits if_splits)

lemma SetSetting_error:
  "fst (SetSetting key v s) = Inl e \<Longrightarrow> snd (SetSetting key v s) = s"
  by (auto simp: SetSetting_def split: sum.splits if_splits)

lemma Settings_cache_ok: "cache_ok s \<Longrightarrow> cache_ok (snd (Settings s))"
proof -
  assume c: "cache_ok s"
  show ?thesis
  proof (cases "s_fault s TSettings")
    case True
    with c show ?thesis by (simp add: Settings_def)
  next
    case False
    have "v = setting_of s k" if "(s_cache s ++ s_settings s) k = Some v" for k v
      using that cache_okD[OF c, of k v]
      by (cases "s_settings s k") (auto simp: map_add_def setting_of_def)
    with False show ?thesis by (simp add: Settings_def cache_ok_def setting_of_def)
  qed
qed

section \<open>The contract of the settings service\<close>

locale setting_service =
  fixes get :: "string \<Rightarrow> 's \<Rightarrow> string sres \<times> 's"
    and set_value :: "string \<Rightarrow> string \<Rightarrow> 's \<Rightarrow> unit sres \<times> 's"
    and view :: "'s \<Rightarrow> string \<Rightarrow> string"
    and inv :: "'s \<Rightarrow> bool"
    and up :: "'s \<Rightarrow> bool"
  assumes get_value: "inv s \<Longrightarrow> up s \<Longrightarrow> fst (get k s) = Inr (view s k)"
    and get_inv: "inv s \<Longrightarrow> inv (snd (get k s))"
    and get_view: "view (snd (get k s)) = view s"
    and get_up: "up (snd (get k s)) = up s"
    and set_inv: "inv s \<Longrightarrow> inv (snd (set_value k v s))"
    and set_up: "up (snd (set_value k v s)) = up s"
    and set_view: "fst (set_value k v s) = Inr () \<Longrightarrow>
      view (snd (set_value k v s)) = (view s)(k := v)"
    and set_failed: "fst (set_value k v s) = Inl e \<Longrightarrow> snd (set_value k v s) = s"
begin

lemma get_after_set:
  "inv s \<Longrightarrow> up s \<Longrightarrow> fst (set_value k v s) = Inr () \<Longrightarrow>
   fst (get k (snd (set_value k v s))) = Inr v"
  by (simp add: get_value set_inv set_up set_view)

lemma get_after_other_set:
  assumes "inv s" "up s" "k \<noteq> k'"
  shows "fst (get k (snd (set_value k' v s))) = Inr (view s k)"
proof (cases "fst (set_value k' v s)")
  case (Inl e)
  with assms set_failed[OF Inl] show ?thesis by (simp add: get_value)
next
  case (Inr u)
  then have "fst (set_value k' v s) = Inr ()" by simp
  with assms show ?thesis by (simp add: get_value set_inv set_up set_view)
qed

lemma get_twice:
  "inv s \<Longrightarrow> up s \<Longrightarrow> fst (get k (snd (get k' s))) = Inr (view s k)"
  by (simp add: get_value get_inv get_up get_view)

text \<open>A read never changes what any later read returns.\<close>

lemma reads_transparent:
  "inv s \<Longrightarrow> up s \<Longrightarrow> fst (get k (snd (get k' s))) = fst (get k s)"
  by (simp add: get_twice get_value)

end

interpretation settings: setting_service GetSetting SetSetting setting_of cache_ok settings_up
  by unfold_locales
    (simp_all add: GetSetting_value GetSetting_cache_ok SetSetting_cache_ok
      same_data_setting_of[OF GetSetting_same_data] SetSetting_setting_of SetSetting_error)

section \<open>Typed accessors\<close>

lemma GetSettingInt_value:
  "cache_ok s \<Longrightarrow> settings_up s \<Longrightarrow>
   fst (GetSettingInt key dflt s) =
     (let v = setting_of s key in if v = [] \<or> snd (Atoi v) \<noteq> None then dflt else fst (Atoi v))"
  by (simp add: GetSettingInt_def GetSetting_value value_or_empty_def split_beta Let_def
      split: option.splits)

lemma GetSettingInt_snd [simp]: "snd (GetSettingInt key dflt s) = snd (GetSetting key s)"
  by (simp add: GetSettingInt_def split_beta Let_def split: option.splits)

lemma GetSettingBool_value:
  "cache_ok s \<Longrightarrow> settings_up s \<Longrightarrow>
   fst (GetSettingBool key dflt s) = bool_of_setting (setting_of s key) dflt"
  by (simp add: GetSettingBool_def GetSetting_value value_or_empty_def split_beta)

lemma GetSettingBool_snd [simp]: "snd (GetSettingBool key dflt s) = snd (GetSetting key s)"
  by (simp add: GetSettingBool_def split_beta)

text \<open>A string that \<open>Atoi\<close> accepts holds no white space, so trimming leaves it alone.\<close>

lemma Atoi_None_chars:
  "snd (Atoi s) = None \<Longrightarrow> c \<in> set s \<Longrightarrow> \<not> is_space c"
proof -
  assume a: "snd (Atoi s) = None" and c: "c \<in> set s"
  from a obtain d ds where s: "s = d # ds" by (cases s) (auto simp: Atoi_def)
  show "\<not> is_space c"
  proof (cases "d = CHR ''-'' \<or> d = CHR ''+''")
    case True
    with a s have "list_all is_digit ds" by (auto simp: Atoi_def Let_def split: if_splits)
    with True c s is_digit_not_space show ?thesis
      by (auto simp: list_all_iff is_space_def)
  next
    case False
    with a s have "list_all is_digit s" by (auto simp: Atoi_def Let_def split: if_splits)
    with c is_digit_not_space show ?thesis by (auto simp: list_all_iff)
  qed
qed

lemma TrimSpace_id: "(\<And>c. c \<in> set s \<Longrightarrow> \<not> is_space c) \<Longrightarrow> TrimSpace s = s"
proof -
  assume a: "\<And>c. c \<in> set s \<Longrightarrow> \<not> is_space c"
  have "dropWhile is_space xs = xs" if "set xs \<subseteq> set s" for xs
    using that a by (cases xs) auto
  from this[of s] this[of "rev s"] show ?thesis by (simp add: TrimSpace_def)
qed

lemma Atoi_TrimSpace: "snd (Atoi s) = None \<Longrightarrow> TrimSpace s = s"
  by (rule TrimSpace_id) (rule Atoi_None_chars)

text \<open>Every stored value of a bounded key has passed validation.\<close>

definition settings_valid :: "store \<Rightarrow> bool" where
  "settings_valid s \<longleftrightarrow>
     (\<forall>k v. s_settings s k = Some v \<longrightarrow> v \<noteq> [] \<longrightarrow> is_ok (validateSettingValue k v))"

lemma SetSetting_settings_valid:
  "settings_valid s \<Longrightarrow> settings_valid (snd (SetSetting key v s))"
  by (auto simp: settings_valid_def SetSetting_def is_ok_def split: sum.splits if_splits)

lemma validated_bounds:
  "numericSettingBounds key = Some (lo, hi) \<Longrightarrow> is_ok (validateSettingValue key v) \<Longrightarrow>
   snd (Atoi v) = None \<Longrightarrow> lo \<le> fst (Atoi v) \<and> fst (Atoi v) \<le> hi"
  by (auto simp: validateSettingValue_def Atoi_TrimSpace is_ok_def split: prod.splits if_splits)

lemma GetSettingInt_bounds:
  assumes "cache_ok s" "settings_up s" "settings_valid s"
    "numericSettingBounds key = Some (lo, hi)"
  shows "fst (GetSettingInt key dflt s) = dflt \<or>
    (lo \<le> fst (GetSettingInt key dflt s) \<and> fst (GetSettingInt key dflt s) \<le> hi)"
proof (cases "setting_of s key = [] \<or> snd (Atoi (setting_of s key)) \<noteq> None")
  case True
  with assms show ?thesis by (auto simp: GetSettingInt_value)
next
  case False
  then have "s_settings s key = Some (setting_of s key)"
    by (auto simp: setting_of_def split: option.splits)
  with assms(3) False have "is_ok (validateSettingValue key (setting_of s key))"
    by (auto simp: settings_valid_def)
  with validated_bounds[OF assms(4) this] assms False show ?thesis
    by (auto simp: GetSettingInt_value)
qed

end
