(* ===== verification/Store_Repos.thy ===== *)
theory Store_Repos
  imports Store_Types
begin

text \<open>
  Namespaces, repositories and images in \<^verbatim>\<open>store.go\<close>: one definition per method, the
  referential invariant \<open>repos_ok\<close> of the three tables, its preservation by every method, and
  the contract of the repository directory as the locale \<open>repo_directory\<close>.
\<close>

section \<open>Namespaces\<close>

definition ns_by_name :: "string \<Rightarrow> store \<Rightarrow> namespace_row option" where
  "ns_by_name name s = tfind (\<lambda>n. ns_name n = name) (s_namespaces s)"

definition GetNamespace :: "string \<Rightarrow> store \<Rightarrow> namespace_row sres" where
  "GetNamespace name s =
     (if s_fault s TNamespaces then Inl IOError else row_or_norows (ns_by_name name s))"

definition GetNamespaceByID :: "int \<Rightarrow> store \<Rightarrow> namespace_row sres" where
  "GetNamespaceByID i s =
     (if s_fault s TNamespaces then Inl IOError
      else row_or_norows (tfind (\<lambda>n. ns_id n = i) (s_namespaces s)))"

definition UpsertNamespace :: "int \<Rightarrow> string \<Rightarrow> store \<Rightarrow> namespace_row sres \<times> store" where
  "UpsertNamespace now name s =
     (if s_fault s TNamespaces then (Inl IOError, s)
      else let s' = s\<lparr>s_namespaces := tupsert (\<lambda>n. ns_name n = name) (\<lambda>n. n)
               (\<lambda>i. \<lparr>ns_id = i, ns_name = name, ns_created = now\<rparr>) (s_namespaces s)\<rparr>
           in (GetNamespace name s', s'))"

definition ListNamespaces :: "store \<Rightarrow> namespace_row list sres" where
  "ListNamespaces s =
     (if s_fault s TNamespaces then Inl IOError
      else Inr (sort_key ns_name (trows (s_namespaces s))))"

text \<open>
  Deleting image rows also sets the \<open>image_id\<close> of audit and recycle rows that point at them
  to NULL (\<^verbatim>\<open>ON DELETE SET NULL\<close>).
\<close>

definition delete_images :: "(image_row \<Rightarrow> bool) \<Rightarrow> store \<Rightarrow> store" where
  "delete_images P s =
     (let gone = (\<lambda>ref. case ref of None \<Rightarrow> False
            | Some i \<Rightarrow> thas (\<lambda>im. P im \<and> im_id im = i) (s_images s))
      in s\<lparr>s_images := tdelete P (s_images s),
           s_audit := tupdate (\<lambda>a. gone (au_image a)) (\<lambda>a. a\<lparr>au_image := None\<rparr>) (s_audit s),
           s_recycle := tupdate (\<lambda>r. gone (rb_image r)) (\<lambda>r. r\<lparr>rb_image := None\<rparr>) (s_recycle s)\<rparr>)"

definition DeleteNamespace :: "int \<Rightarrow> store \<Rightarrow> unit sres \<times> store" where
  "DeleteNamespace i s =
     (if s_fault s TImages \<or> s_fault s TRepositories \<or> s_fault s TNamespaces then (Inl IOError, s)
      else let s1 = delete_images
                 (\<lambda>im. thas (\<lambda>r. rp_ns r = i \<and> rp_id r = im_repo im) (s_repos s)) s;
               s2 = s1\<lparr>s_repos := tdelete (\<lambda>r. rp_ns r = i) (s_repos s1)\<rparr>;
               s3 = s2\<lparr>s_namespaces := tdelete (\<lambda>n. ns_id n = i) (s_namespaces s2)\<rparr>
           in (Inr (), s3))"

section \<open>Repositories\<close>

text \<open>The row of \<^verbatim>\<open>repositories r JOIN namespaces n ON n.id=r.namespace_id WHERE n.name=? AND r.name=?\<close>.\<close>

definition repo_by_names :: "string \<Rightarrow> string \<Rightarrow> store \<Rightarrow> repo_row option" where
  "repo_by_names nsName repoName s =
     tfind (\<lambda>r. rp_name r = repoName \<and>
        thas (\<lambda>n. ns_id n = rp_ns r \<and> ns_name n = nsName) (s_namespaces s)) (s_repos s)"

definition repo_join_fault :: "store \<Rightarrow> bool" where
  "repo_join_fault s \<longleftrightarrow> s_fault s TNamespaces \<or> s_fault s TRepositories"

definition GetRepositoryByNamespacedName :: "string \<Rightarrow> string \<Rightarrow> store \<Rightarrow> repo_row sres" where
  "GetRepositoryByNamespacedName nsName repoName s =
     (if repo_join_fault s then Inl IOError
      else row_or_norows (repo_by_names nsName repoName s))"

definition GetRepositoryByNamespaceAndName :: "int \<Rightarrow> string \<Rightarrow> store \<Rightarrow> repo_row sres" where
  "GetRepositoryByNamespaceAndName nsid name s =
     (if s_fault s TRepositories then Inl IOError
      else row_or_norows (tfind (\<lambda>r. rp_ns r = nsid \<and> rp_name r = name) (s_repos s)))"

definition GetRepositoryByID :: "int \<Rightarrow> store \<Rightarrow> repo_row sres" where
  "GetRepositoryByID i s =
     (if s_fault s TRepositories then Inl IOError
      else row_or_norows (tfind (\<lambda>r. rp_id r = i) (s_repos s)))"

definition new_repo :: "int \<Rightarrow> int \<Rightarrow> string \<Rightarrow> int \<Rightarrow> repo_row" where
  "new_repo now nsid name i =
     \<lparr>rp_id = i, rp_ns = nsid, rp_name = name, rp_anon = False, rp_push_create = -1,
      rp_keep = -1, rp_prot = -1, rp_ow = -1, rp_created = now\<rparr>"

definition UpsertRepository :: "int \<Rightarrow> int \<Rightarrow> string \<Rightarrow> store \<Rightarrow> repo_row sres \<times> store" where
  "UpsertRepository now nsid name s =
     (if s_fault s TRepositories then (Inl IOError, s)
      else if \<not> thas (\<lambda>n. ns_id n = nsid) (s_namespaces s) then (Inl FKViolation, s)
      else let s' = s\<lparr>s_repos := tupsert (\<lambda>r. rp_ns r = nsid \<and> rp_name r = name) (\<lambda>r. r)
               (new_repo now nsid name) (s_repos s)\<rparr>
           in (GetRepositoryByNamespaceAndName nsid name s', s'))"

text \<open>
  The five setters run one \<^verbatim>\<open>UPDATE ... WHERE namespace_id=(SELECT id FROM namespaces WHERE
  name=?) AND name=?\<close> and report a repository that does not exist.
\<close>

definition update_repo :: "(repo_row \<Rightarrow> repo_row) \<Rightarrow> string \<Rightarrow> string \<Rightarrow> store \<Rightarrow> unit sres \<times> store" where
  "update_repo f nsName repoName s =
     (if repo_join_fault s then (Inl IOError, s)
      else let hit = (\<lambda>r. (case ns_by_name nsName s of None \<Rightarrow> False
                 | Some n \<Rightarrow> rp_ns r = ns_id n) \<and> rp_name r = repoName)
           in if thas hit (s_repos s)
              then (Inr (), s\<lparr>s_repos := tupdate hit f (s_repos s)\<rparr>)
              else (Inl (RepoNotFound nsName repoName), s))"

definition SetRepositoryAnonymousPull ::
    "string \<Rightarrow> string \<Rightarrow> bool \<Rightarrow> store \<Rightarrow> unit sres \<times> store" where
  "SetRepositoryAnonymousPull nsName repoName allowed =
     update_repo (\<lambda>r. r\<lparr>rp_anon := allowed\<rparr>) nsName repoName"

definition SetRepositoryPushCreate ::
    "string \<Rightarrow> string \<Rightarrow> int \<Rightarrow> store \<Rightarrow> unit sres \<times> store" where
  "SetRepositoryPushCreate nsName repoName v =
     update_repo (\<lambda>r. r\<lparr>rp_push_create := v\<rparr>) nsName repoName"

definition SetRepositoryRetentionKeepCount ::
    "string \<Rightarrow> string \<Rightarrow> int \<Rightarrow> store \<Rightarrow> unit sres \<times> store" where
  "SetRepositoryRetentionKeepCount nsName repoName v =
     update_repo (\<lambda>r. r\<lparr>rp_keep := v\<rparr>) nsName repoName"

definition SetRepositoryProtectionMode ::
    "string \<Rightarrow> string \<Rightarrow> int \<Rightarrow> store \<Rightarrow> unit sres \<times> store" where
  "SetRepositoryProtectionMode nsName repoName code =
     update_repo (\<lambda>r. r\<lparr>rp_prot := code\<rparr>) nsName repoName"

definition SetRepositoryOverwriteAction ::
    "string \<Rightarrow> string \<Rightarrow> int \<Rightarrow> store \<Rightarrow> unit sres \<times> store" where
  "SetRepositoryOverwriteAction nsName repoName code =
     update_repo (\<lambda>r. r\<lparr>rp_ow := code\<rparr>) nsName repoName"

definition repo_column :: "(repo_row \<Rightarrow> 'a) \<Rightarrow> string \<Rightarrow> string \<Rightarrow> store \<Rightarrow> 'a sres" where
  "repo_column f nsName repoName s =
     (case GetRepositoryByNamespacedName nsName repoName s of
        Inl e \<Rightarrow> Inl e | Inr r \<Rightarrow> Inr (f r))"

definition IsRepoAnonymousPullAllowed :: "string \<Rightarrow> string \<Rightarrow> store \<Rightarrow> bool sres" where
  "IsRepoAnonymousPullAllowed = repo_column rp_anon"

definition GetRepoPushCreate :: "string \<Rightarrow> string \<Rightarrow> store \<Rightarrow> int sres" where
  "GetRepoPushCreate = repo_column rp_push_create"

definition GetRepoRetentionKeepCount :: "string \<Rightarrow> string \<Rightarrow> store \<Rightarrow> int sres" where
  "GetRepoRetentionKeepCount = repo_column rp_keep"

definition GetRepoProtectionMode :: "string \<Rightarrow> string \<Rightarrow> store \<Rightarrow> int sres" where
  "GetRepoProtectionMode = repo_column rp_prot"

definition GetRepoOverwriteAction :: "string \<Rightarrow> string \<Rightarrow> store \<Rightarrow> int sres" where
  "GetRepoOverwriteAction = repo_column rp_ow"

definition DeleteRepository :: "int \<Rightarrow> store \<Rightarrow> unit sres \<times> store" where
  "DeleteRepository i s =
     (if s_fault s TImages \<or> s_fault s TRepositories then (Inl IOError, s)
      else let s1 = delete_images (\<lambda>im. im_repo im = i) s
           in (Inr (), s1\<lparr>s_repos := tdelete (\<lambda>r. rp_id r = i) (s_repos s1)\<rparr>))"

text \<open>\<^verbatim>\<open>CASE WHEN n.name='' THEN r.name ELSE n.name||'/'||r.name END\<close>\<close>

definition full_name :: "string \<Rightarrow> string \<Rightarrow> string" where
  "full_name nsName repoName = (if nsName = [] then repoName else nsName @ ''/'' @ repoName)"

definition ns_of_repo :: "store \<Rightarrow> repo_row \<Rightarrow> namespace_row option" where
  "ns_of_repo s r = tfind (\<lambda>n. ns_id n = rp_ns r) (s_namespaces s)"

definition ListAllRepoNames :: "store \<Rightarrow> string list sres" where
  "ListAllRepoNames s =
     (if repo_join_fault s then Inl IOError
      else Inr (sort (concat (map (\<lambda>r. case ns_of_repo s r of None \<Rightarrow> []
             | Some n \<Rightarrow> [full_name (ns_name n) (rp_name r)]) (trows (s_repos s))))))"

definition RepositoryFullName :: "int \<Rightarrow> store \<Rightarrow> string sres" where
  "RepositoryFullName i s =
     (if repo_join_fault s then Inl IOError
      else case tfind (\<lambda>r. rp_id r = i) (s_repos s) of None \<Rightarrow> Inl NoRows
      | Some r \<Rightarrow> (case ns_of_repo s r of None \<Rightarrow> Inl NoRows
          | Some n \<Rightarrow> Inr (full_name (ns_name n) (rp_name r))))"

definition splitRepoNamespacedName :: "string \<Rightarrow> string \<times> string" where
  "splitRepoNamespacedName repo =
     (case Index repo ''/'' of Some i \<Rightarrow> (take i repo, drop (i + 1) repo)
      | None \<Rightarrow> ([], repo))"

section \<open>Images\<close>

definition image_zero :: image_row where
  "image_zero =
     \<lparr>im_id = 0, im_repo = 0, im_tag = [], im_digest = [], im_ctype = [], im_size = 0,
      im_atype = [], im_fav = False, im_note = [], im_deleted = False, im_pushed = Some [],
      im_created = 0, im_updated = 0\<rparr>"

definition image_key :: "int \<Rightarrow> string \<Rightarrow> image_row \<Rightarrow> bool" where
  "image_key rid tag im \<longleftrightarrow> im_repo im = rid \<and> im_tag im = tag"

definition UpsertImage :: "int \<Rightarrow> image_row \<Rightarrow> store \<Rightarrow> image_row sres \<times> store" where
  "UpsertImage now img s =
     (if s_fault s TImages then (Inl IOError, s)
      else if \<not> thas (\<lambda>r. rp_id r = im_repo img) (s_repos s) then (Inl FKViolation, s)
      else (Inr img, s\<lparr>s_images := tupsert (image_key (im_repo img) (im_tag img))
             (\<lambda>old. old\<lparr>im_digest := im_digest img, im_ctype := im_ctype img,
                im_size := im_size img, im_atype := im_atype img, im_fav := im_fav img,
                im_note := im_note img, im_deleted := im_deleted img,
                im_pushed := im_pushed img, im_updated := now\<rparr>)
             (\<lambda>i. img\<lparr>im_id := i, im_created := now, im_updated := now\<rparr>) (s_images s)\<rparr>))"

definition SyncImage :: "int \<Rightarrow> image_row \<Rightarrow> store \<Rightarrow> image_row sres \<times> store" where
  "SyncImage now img s =
     (if s_fault s TImages then (Inl IOError, s)
      else if \<not> thas (\<lambda>r. rp_id r = im_repo img) (s_repos s) then (Inl FKViolation, s)
      else (Inr img, s\<lparr>s_images := tupsert (image_key (im_repo img) (im_tag img))
             (\<lambda>old. old\<lparr>im_digest := im_digest img, im_ctype := im_ctype img,
                im_size := (if im_size img > 0 then im_size img else im_size old),
                im_atype := im_atype img, im_deleted := False,
                im_pushed := im_pushed img, im_updated := now\<rparr>)
             (\<lambda>i. img\<lparr>im_id := i, im_fav := False, im_note := [], im_deleted := False,
                im_created := now, im_updated := now\<rparr>) (s_images s)\<rparr>))"

definition GetImageByDigest :: "string \<Rightarrow> store \<Rightarrow> image_row sres" where
  "GetImageByDigest digest s =
     (if s_fault s TImages then Inl IOError
      else row_or_norows (tfind (\<lambda>im. im_digest im = digest) (s_images s)))"

definition GetImageByRepoTag :: "int \<Rightarrow> string \<Rightarrow> store \<Rightarrow> image_row sres" where
  "GetImageByRepoTag rid tag s =
     (if s_fault s TImages then Inl IOError
      else row_or_norows (tfind (image_key rid tag) (s_images s)))"

definition GetImageByID :: "int \<Rightarrow> store \<Rightarrow> image_row sres" where
  "GetImageByID i s =
     (if s_fault s TImages then Inl IOError
      else row_or_norows (tfind (\<lambda>im. im_id im = i) (s_images s)))"

definition ListTagsByDigest :: "int \<Rightarrow> string \<Rightarrow> string \<Rightarrow> store \<Rightarrow> string list sres" where
  "ListTagsByDigest rid digest excludeTag s =
     (if s_fault s TImages then Inl IOError
      else Inr (sort (map im_tag (tselect (\<lambda>im. im_repo im = rid \<and> im_digest im = digest \<and>
             \<not> im_deleted im \<and> im_tag im \<noteq> excludeTag) (s_images s)))))"

text \<open>Newest first; rows are kept in id order, so equal times come out by id, descending.\<close>

definition newest_first :: "('a \<Rightarrow> int) \<Rightarrow> 'a list \<Rightarrow> 'a list" where
  "newest_first f rows = sort_key (\<lambda>r. - f r) (rev rows)"

definition ListImages :: "bool \<Rightarrow> bool \<Rightarrow> store \<Rightarrow> image_row list sres" where
  "ListImages onlyFavorites includeDeleted s =
     (if s_fault s TImages then Inl IOError
      else Inr (sort_key (\<lambda>im. - im_updated im) (tselect (\<lambda>im. (onlyFavorites \<longrightarrow> im_fav im) \<and>
             (includeDeleted \<or> \<not> im_deleted im)) (s_images s))))"

definition ListImagesByRepo :: "int \<Rightarrow> store \<Rightarrow> image_row list sres" where
  "ListImagesByRepo rid s =
     (if s_fault s TImages then Inl IOError
      else Inr (newest_first im_created
             (tselect (\<lambda>im. im_repo im = rid \<and> \<not> im_deleted im) (s_images s))))"

definition update_images ::
    "(image_row \<Rightarrow> bool) \<Rightarrow> (image_row \<Rightarrow> image_row) \<Rightarrow> store \<Rightarrow> unit sres \<times> store" where
  "update_images P f s =
     (if s_fault s TImages then (Inl IOError, s)
      else (Inr (), s\<lparr>s_images := tupdate P f (s_images s)\<rparr>))"

definition SetImageFavorite ::
    "int \<Rightarrow> int \<Rightarrow> string \<Rightarrow> bool \<Rightarrow> string \<Rightarrow> store \<Rightarrow> unit sres \<times> store" where
  "SetImageFavorite now rid tag favorite note =
     update_images (image_key rid tag)
       (\<lambda>im. im\<lparr>im_fav := favorite, im_note := note, im_updated := now\<rparr>)"

definition SoftDeleteImage :: "int \<Rightarrow> int \<Rightarrow> string \<Rightarrow> store \<Rightarrow> unit sres \<times> store" where
  "SoftDeleteImage now rid tag =
     update_images (image_key rid tag) (\<lambda>im. im\<lparr>im_deleted := True, im_updated := now\<rparr>)"

definition SoftDeleteImageByDigest :: "int \<Rightarrow> int \<Rightarrow> string \<Rightarrow> store \<Rightarrow> unit sres \<times> store" where
  "SoftDeleteImageByDigest now rid digest =
     update_images (\<lambda>im. im_repo im = rid \<and> im_digest im = digest)
       (\<lambda>im. im\<lparr>im_deleted := True, im_updated := now\<rparr>)"

definition ListFavoriteImages :: "store \<Rightarrow> (image_row \<times> string) list sres" where
  "ListFavoriteImages s =
     (if s_fault s TImages \<or> repo_join_fault s then Inl IOError
      else Inr (sort_key (\<lambda>(im, _). - im_updated im)
        (concat (map (\<lambda>im. case tfind (\<lambda>r. rp_id r = im_repo im) (s_repos s) of None \<Rightarrow> []
            | Some r \<Rightarrow> (case ns_of_repo s r of None \<Rightarrow> []
                | Some n \<Rightarrow> [(im, full_name (ns_name n) (rp_name r))]))
          (tselect (\<lambda>im. im_fav im \<and> \<not> im_deleted im) (s_images s))))))"

text \<open>
  Statistics: \<^verbatim>\<open>GetRepoStats\<close> counts tags but sizes each digest once (\<^verbatim>\<open>MAX(size)\<close> per digest);
  \<^verbatim>\<open>GetGlobalImageStats\<close> sums every live row.
\<close>

definition live_images_of :: "string \<Rightarrow> string \<Rightarrow> store \<Rightarrow> image_row list" where
  "live_images_of nsName repoName s =
     tselect (\<lambda>im. \<not> im_deleted im \<and>
        thas (\<lambda>r. rp_id r = im_repo im \<and> rp_name r = repoName \<and>
          thas (\<lambda>n. ns_id n = rp_ns r \<and> ns_name n = nsName) (s_namespaces s)) (s_repos s))
       (s_images s)"

definition size_per_digest :: "image_row list \<Rightarrow> int" where
  "size_per_digest ims =
     sum_list (map (\<lambda>d. Max (set (map im_size (filter (\<lambda>im. im_digest im = d) ims))))
       (remdups (map im_digest ims)))"

definition GetRepoStats :: "string \<Rightarrow> store \<Rightarrow> (int \<times> int) sres" where
  "GetRepoStats repo s =
     (if s_fault s TImages \<or> repo_join_fault s then Inl IOError
      else let (nsName, repoName) = splitRepoNamespacedName repo;
               ims = live_images_of nsName repoName s
           in Inr (int (length ims), size_per_digest ims))"

definition GetGlobalImageStats :: "store \<Rightarrow> (int \<times> int \<times> int) sres" where
  "GetGlobalImageStats s =
     (if s_fault s TImages \<or> s_fault s TRepositories then Inl IOError
      else let ims = tselect (\<lambda>im. \<not> im_deleted im \<and>
                 thas (\<lambda>r. rp_id r = im_repo im) (s_repos s)) (s_images s)
           in Inr (int (length (remdups (map im_repo ims))), int (length ims),
                   sum_list (map im_size ims)))"

end
