(* ===== verification/Store_Users.thy ===== *)
theory Store_Users
  imports Store_Repos
begin

text \<open>
  Users, namespace permissions, immutable-tag rules, API tokens, webhooks, descriptions and
  pull/push statistics in \<^verbatim>\<open>store.go\<close>, the seeding of the default administrator at the end of
  \<^verbatim>\<open>migrate\<close>, and the invariant of these tables: ids, unique user names, unique
  (user, pattern) pairs, and no permission or token without its user.

  bcrypt is third-party code: hashing a password is the argument \<open>hash\<close>, which returns None
  where \<^verbatim>\<open>bcrypt.GenerateFromPassword\<close> fails.
\<close>

section \<open>Users\<close>

definition GetUserByUsername :: "string \<Rightarrow> store \<Rightarrow> user_row sres" where
  "GetUserByUsername name s =
     (if s_fault s TUsers then Inl IOError
      else row_or_norows (tfind (\<lambda>u. us_name u = name) (s_users s)))"

definition GetUserByID :: "int \<Rightarrow> store \<Rightarrow> user_row sres" where
  "GetUserByID i s =
     (if s_fault s TUsers then Inl IOError
      else row_or_norows (tfind (\<lambda>u. us_id u = i) (s_users s)))"

text \<open>\<^verbatim>\<open>ORDER BY is_admin DESC, username ASC\<close>\<close>

definition ListUsers :: "store \<Rightarrow> user_row list sres" where
  "ListUsers s =
     (if s_fault s TUsers then Inl IOError
      else let by_name = sort_key us_name (trows (s_users s))
           in Inr (filter us_admin by_name @ filter (\<lambda>u. \<not> us_admin u) by_name))"

definition enabled_admin :: "user_row \<Rightarrow> bool" where
  "enabled_admin u \<longleftrightarrow> us_admin u \<and> us_enabled u"

definition CountEnabledAdmins :: "store \<Rightarrow> int sres" where
  "CountEnabledAdmins s =
     (if s_fault s TUsers then Inl IOError
      else Inr (int (length (tselect enabled_admin (s_users s)))))"

definition HasAdminUser :: "store \<Rightarrow> bool sres" where
  "HasAdminUser s =
     (if s_fault s TUsers then Inl IOError
      else Inr (0 < int (length (tselect enabled_admin (s_users s)))))"

definition update_user :: "int \<Rightarrow> (user_row \<Rightarrow> user_row) \<Rightarrow> store \<Rightarrow> unit sres \<times> store" where
  "update_user i f s =
     (if s_fault s TUsers then (Inl IOError, s)
      else (Inr (), s\<lparr>s_users := tupdate (\<lambda>u. us_id u = i) f (s_users s)\<rparr>))"

text \<open>The only user update that can violate \<^verbatim>\<open>UNIQUE(username)\<close>.\<close>

definition rename_user :: "int \<Rightarrow> string \<Rightarrow> (user_row \<Rightarrow> user_row) \<Rightarrow> store \<Rightarrow> unit sres \<times> store" where
  "rename_user i name f s =
     (if s_fault s TUsers then (Inl IOError, s)
      else if thas (\<lambda>u. us_id u = i) (s_users s) \<and>
              thas (\<lambda>u. us_name u = name \<and> us_id u \<noteq> i) (s_users s)
      then (Inl UniqueViolation, s)
      else update_user i f s)"

definition UpdateUser ::
    "int \<Rightarrow> (string \<Rightarrow> string option) \<Rightarrow> int \<Rightarrow> string \<Rightarrow> string \<Rightarrow> bool \<Rightarrow> bool \<Rightarrow> store
     \<Rightarrow> unit sres \<times> store" where
  "UpdateUser now hash i username password isAdmin enabled s =
     (if password \<noteq> [] then
        (case hash password of
           None \<Rightarrow> (Inl HashFailed, s)
         | Some h \<Rightarrow> rename_user i username (\<lambda>u. u\<lparr>us_name := username, us_hash := h,
               us_admin := isAdmin, us_enabled := enabled, us_updated := now\<rparr>) s)
      else rename_user i username (\<lambda>u. u\<lparr>us_name := username, us_admin := isAdmin,
               us_enabled := enabled, us_updated := now\<rparr>) s)"

text \<open>\<^verbatim>\<open>ON DELETE CASCADE\<close> removes the permissions and tokens of the user.\<close>

definition DeleteUser :: "int \<Rightarrow> store \<Rightarrow> unit sres \<times> store" where
  "DeleteUser i s =
     (if s_fault s TUsers then (Inl IOError, s)
      else (Inr (), s\<lparr>s_users := tdelete (\<lambda>u. us_id u = i) (s_users s),
              s_perms := (if thas (\<lambda>u. us_id u = i) (s_users s)
                 then tdelete (\<lambda>p. pm_user p = i) (s_perms s) else s_perms s),
              s_tokens := (if thas (\<lambda>u. us_id u = i) (s_users s)
                 then tdelete (\<lambda>t. tk_user t = i) (s_tokens s) else s_tokens s)\<rparr>))"

definition new_user ::
    "int \<Rightarrow> string \<Rightarrow> string \<Rightarrow> bool \<Rightarrow> bool \<Rightarrow> bool \<Rightarrow> int \<Rightarrow> user_row" where
  "new_user now username h isAdmin enabled mustChange i =
     \<lparr>us_id = i, us_name = username, us_hash = h, us_admin = isAdmin, us_enabled = enabled,
      us_mustchange = mustChange, us_created = now, us_updated = now\<rparr>"

definition CreateUserWithEnabled ::
    "int \<Rightarrow> string \<Rightarrow> string \<Rightarrow> bool \<Rightarrow> bool \<Rightarrow> bool \<Rightarrow> store \<Rightarrow> user_row sres \<times> store" where
  "CreateUserWithEnabled now username h isAdmin enabled mustChange s =
     (if s_fault s TUsers then (Inl IOError, s)
      else if thas (\<lambda>u. us_name u = username) (s_users s) then (Inl UniqueViolation, s)
      else let s' = s\<lparr>s_users := tinsert (new_user now username h isAdmin enabled mustChange)
                         (s_users s)\<rparr>
           in (GetUserByUsername username s', s'))"

definition CreateUser ::
    "int \<Rightarrow> string \<Rightarrow> string \<Rightarrow> bool \<Rightarrow> bool \<Rightarrow> store \<Rightarrow> user_row sres \<times> store" where
  "CreateUser now username h isAdmin mustChange s =
     CreateUserWithEnabled now username h isAdmin True mustChange s"

definition UpdateUserPassword ::
    "int \<Rightarrow> (string \<Rightarrow> string option) \<Rightarrow> int \<Rightarrow> string \<Rightarrow> store \<Rightarrow> unit sres \<times> store" where
  "UpdateUserPassword now hash i newPassword s =
     (case hash newPassword of
        None \<Rightarrow> (Inl HashFailed, s)
      | Some h \<Rightarrow> update_user i
          (\<lambda>u. u\<lparr>us_hash := h, us_mustchange := False, us_updated := now\<rparr>) s)"

definition SetUserPasswordHash :: "int \<Rightarrow> int \<Rightarrow> string \<Rightarrow> store \<Rightarrow> unit sres \<times> store" where
  "SetUserPasswordHash now i h = update_user i (\<lambda>u. u\<lparr>us_hash := h, us_updated := now\<rparr>)"

definition SetUserEnabled :: "int \<Rightarrow> int \<Rightarrow> bool \<Rightarrow> store \<Rightarrow> unit sres \<times> store" where
  "SetUserEnabled now i enabled =
     update_user i (\<lambda>u. u\<lparr>us_enabled := enabled, us_updated := now\<rparr>)"

text \<open>
  The end of \<^verbatim>\<open>migrate\<close>: seed \<^verbatim>\<open>admin\<close> when no enabled administrator exists, then clear every
  forced-password-change flag. A failing \<^verbatim>\<open>HasAdminUser\<close> is only logged, but then the UPDATE on
  the same table fails the migration.
\<close>

definition DefaultAdminUsername :: string where
  "DefaultAdminUsername = ''admin''"

definition seed_admin :: "int \<Rightarrow> string option \<Rightarrow> store \<Rightarrow> unit sres \<times> store" where
  "seed_admin now h s =
     (case HasAdminUser s of
        Inl _ \<Rightarrow> (Inr (), s)
      | Inr True \<Rightarrow> (Inr (), s)
      | Inr False \<Rightarrow>
          (case h of None \<Rightarrow> (Inl HashFailed, s)
           | Some hv \<Rightarrow>
               if thas (\<lambda>u. us_name u = DefaultAdminUsername) (s_users s) then (Inr (), s)
               else (Inr (), s\<lparr>s_users := tinsert
                  (new_user now DefaultAdminUsername hv True True False) (s_users s)\<rparr>)))"

definition migrate_users :: "int \<Rightarrow> string option \<Rightarrow> store \<Rightarrow> unit sres \<times> store" where
  "migrate_users now h s =
     (case seed_admin now h s of
        (Inl e, s1) \<Rightarrow> (Inl e, s1)
      | (Inr _, s1) \<Rightarrow>
          if s_fault s1 TUsers then (Inl IOError, s1)
          else (Inr (), s1\<lparr>s_users := tupdate us_mustchange (\<lambda>u. u\<lparr>us_mustchange := False\<rparr>)
                  (s_users s1)\<rparr>))"

section \<open>Permissions\<close>

definition ListUserPermissions :: "int \<Rightarrow> store \<Rightarrow> perm_row list sres" where
  "ListUserPermissions uid s =
     (if s_fault s TPerms then Inl IOError
      else Inr (sort_key pm_pattern (tselect (\<lambda>p. pm_user p = uid) (s_perms s))))"

definition UpdateUserPermission ::
    "int \<Rightarrow> string \<Rightarrow> bool \<Rightarrow> bool \<Rightarrow> store \<Rightarrow> unit sres \<times> store" where
  "UpdateUserPermission i pattern canRead canWrite s =
     (if s_fault s TPerms then (Inl IOError, s)
      else if (case tfind (\<lambda>p. pm_id p = i) (s_perms s) of None \<Rightarrow> False
           | Some p0 \<Rightarrow> thas (\<lambda>p. pm_user p = pm_user p0 \<and> pm_pattern p = pattern \<and> pm_id p \<noteq> i)
                         (s_perms s))
      then (Inl UniqueViolation, s)
      else (Inr (), s\<lparr>s_perms := tupdate (\<lambda>p. pm_id p = i)
             (\<lambda>p. p\<lparr>pm_pattern := pattern, pm_read := canRead, pm_write := canWrite\<rparr>) (s_perms s)\<rparr>))"

definition DeleteUserPermission :: "int \<Rightarrow> store \<Rightarrow> unit sres \<times> store" where
  "DeleteUserPermission i s =
     (if s_fault s TPerms then (Inl IOError, s)
      else (Inr (), s\<lparr>s_perms := tdelete (\<lambda>p. pm_id p = i) (s_perms s)\<rparr>))"

definition perm_set :: "bool \<times> bool \<times> int \<Rightarrow> perm_row \<Rightarrow> perm_row" where
  "perm_set d p = p\<lparr>pm_read := fst d, pm_write := fst (snd d)\<rparr>"

definition perm_new :: "int \<times> string \<Rightarrow> bool \<times> bool \<times> int \<Rightarrow> int \<Rightarrow> perm_row" where
  "perm_new k d i =
     \<lparr>pm_id = i, pm_user = fst k, pm_pattern = snd k, pm_read = fst d, pm_write = fst (snd d),
      pm_created = snd (snd d)\<rparr>"

abbreviation at_perm :: "int \<times> string \<Rightarrow> perm_row \<Rightarrow> bool" where
  "at_perm k p \<equiv> pm_user p = fst k \<and> pm_pattern p = snd k"

text \<open>
  \<^verbatim>\<open>LastInsertId\<close> after the update branch is whatever row the connection inserted last
  (\<open>conn_rowid\<close>); it replaces the id in the returned value when it is positive.
\<close>

definition UpsertUserPermission ::
    "int \<Rightarrow> int \<Rightarrow> perm_row \<Rightarrow> store \<Rightarrow> perm_row sres \<times> store" where
  "UpsertUserPermission now conn_rowid perm s =
     (if s_fault s TPerms then (Inl IOError, s)
      else if \<not> thas (\<lambda>u. us_id u = pm_user perm) (s_users s) then (Inl FKViolation, s)
      else let k = (pm_user perm, pm_pattern perm); d = (pm_read perm, pm_write perm, now);
               rowid = (if thas (at_perm k) (s_perms s) then conn_rowid else tseq (s_perms s) + 1)
           in (Inr (if rowid > 0 then perm\<lparr>pm_id := rowid\<rparr> else perm),
               s\<lparr>s_perms := tupsert (at_perm k) (perm_set d) (perm_new k d) (s_perms s)\<rparr>))"

definition DeleteUserPermissionByPattern :: "int \<Rightarrow> string \<Rightarrow> store \<Rightarrow> unit sres \<times> store" where
  "DeleteUserPermissionByPattern uid pattern s =
     (if s_fault s TPerms then (Inl IOError, s)
      else (Inr (), s\<lparr>s_perms := tdelete (\<lambda>p. pm_user p = uid \<and> pm_pattern p = pattern) (s_perms s)\<rparr>))"

section \<open>Rules, descriptions, API tokens\<close>

definition ListImmutableTagRules :: "store \<Rightarrow> rule_row list sres" where
  "ListImmutableTagRules s = (if s_fault s TRules then Inl IOError else Inr (trows (s_rules s)))"

definition CreateImmutableTagRule :: "int \<Rightarrow> rule_row \<Rightarrow> store \<Rightarrow> rule_row sres \<times> store" where
  "CreateImmutableTagRule now r s =
     (if s_fault s TRules then (Inl IOError, s)
      else (Inr (r\<lparr>ru_id := tseq (s_rules s) + 1\<rparr>),
            s\<lparr>s_rules := tinsert (\<lambda>i. r\<lparr>ru_id := i, ru_created := now\<rparr>) (s_rules s)\<rparr>))"

definition DeleteImmutableTagRule :: "int \<Rightarrow> store \<Rightarrow> unit sres \<times> store" where
  "DeleteImmutableTagRule i s =
     (if s_fault s TRules then (Inl IOError, s)
      else (Inr (), s\<lparr>s_rules := tdelete (\<lambda>r. ru_id r = i) (s_rules s)\<rparr>))"

definition GetRepoDescription :: "string \<Rightarrow> store \<Rightarrow> string sres" where
  "GetRepoDescription repo s =
     (if s_fault s TDescr then Inl IOError
      else Inr (case s_descr s repo of None \<Rightarrow> [] | Some d \<Rightarrow> d))"

definition SetRepoDescription :: "string \<Rightarrow> string \<Rightarrow> store \<Rightarrow> unit sres \<times> store" where
  "SetRepoDescription repo description s =
     (if s_fault s TDescr then (Inl IOError, s)
      else (Inr (), s\<lparr>s_descr := (s_descr s)(repo \<mapsto> description)\<rparr>))"

definition CreateAPIToken :: "int \<Rightarrow> token_row \<Rightarrow> store \<Rightarrow> token_row sres \<times> store" where
  "CreateAPIToken now t s =
     (if s_fault s TTokens then (Inl IOError, s)
      else if \<not> thas (\<lambda>u. us_id u = tk_user t) (s_users s) then (Inl FKViolation, s)
      else (Inr (t\<lparr>tk_id := tseq (s_tokens s) + 1\<rparr>),
            s\<lparr>s_tokens := tinsert (\<lambda>i. t\<lparr>tk_id := i, tk_lastused := None, tk_created := now\<rparr>)
                             (s_tokens s)\<rparr>))"

definition ListAPITokens :: "int \<Rightarrow> store \<Rightarrow> token_row list sres" where
  "ListAPITokens uid s =
     (if s_fault s TTokens then Inl IOError
      else Inr (map (\<lambda>t. t\<lparr>tk_hash := []\<rparr>)
             (sort_key (\<lambda>t. - tk_created t) (tselect (\<lambda>t. tk_user t = uid) (s_tokens s)))))"

definition GetAPITokenByPrefix :: "string \<Rightarrow> store \<Rightarrow> token_row sres" where
  "GetAPITokenByPrefix prefix s =
     (if s_fault s TTokens then Inl IOError
      else row_or_norows (tfind (\<lambda>t. tk_prefix t = prefix) (s_tokens s)))"

definition GetAPITokenByID :: "int \<Rightarrow> store \<Rightarrow> token_row sres" where
  "GetAPITokenByID i s =
     (if s_fault s TTokens then Inl IOError
      else row_or_norows (tfind (\<lambda>t. tk_id t = i) (s_tokens s)))"

definition DeleteAPIToken :: "int \<Rightarrow> store \<Rightarrow> unit sres \<times> store" where
  "DeleteAPIToken i s =
     (if s_fault s TTokens then (Inl IOError, s)
      else (Inr (), s\<lparr>s_tokens := tdelete (\<lambda>t. tk_id t = i) (s_tokens s)\<rparr>))"

definition TouchAPIToken :: "int \<Rightarrow> int \<Rightarrow> store \<Rightarrow> unit sres \<times> store" where
  "TouchAPIToken now i s =
     (if s_fault s TTokens then (Inl IOError, s)
      else (Inr (), s\<lparr>s_tokens := tupdate (\<lambda>t. tk_id t = i) (\<lambda>t. t\<lparr>tk_lastused := Some now\<rparr>)
              (s_tokens s)\<rparr>))"

section \<open>Pull and push statistics, webhooks\<close>

text \<open>\<^verbatim>\<open>repo_stats\<close> is keyed by the name; the order of the rows does not matter.\<close>

definition bump_stats :: "string \<Rightarrow> stats_row \<Rightarrow> (stats_row \<Rightarrow> stats_row) \<Rightarrow> stats_row list \<Rightarrow> stats_row list" where
  "bump_stats repo fresh f rows =
     (if list_ex (\<lambda>r. st_repo r = repo) rows
      then map (\<lambda>r. if st_repo r = repo then f r else r) rows
      else rows @ [fresh])"

definition IncrementRepoPull :: "int \<Rightarrow> string \<Rightarrow> store \<Rightarrow> unit sres \<times> store" where
  "IncrementRepoPull now repo s =
     (if s_fault s TStats then (Inl IOError, s)
      else (Inr (), s\<lparr>s_stats := bump_stats repo
             \<lparr>st_repo = repo, st_pulls = 1, st_pushes = 0, st_lastpull = Some now, st_lastpush = None\<rparr>
             (\<lambda>r. r\<lparr>st_pulls := st_pulls r + 1, st_lastpull := Some now\<rparr>) (s_stats s)\<rparr>))"

definition IncrementRepoPush :: "int \<Rightarrow> string \<Rightarrow> store \<Rightarrow> unit sres \<times> store" where
  "IncrementRepoPush now repo s =
     (if s_fault s TStats then (Inl IOError, s)
      else (Inr (), s\<lparr>s_stats := bump_stats repo
             \<lparr>st_repo = repo, st_pulls = 0, st_pushes = 1, st_lastpull = None, st_lastpush = Some now\<rparr>
             (\<lambda>r. r\<lparr>st_pushes := st_pushes r + 1, st_lastpush := Some now\<rparr>) (s_stats s)\<rparr>))"

definition ListRepoStats :: "store \<Rightarrow> stats_row list sres" where
  "ListRepoStats s =
     (if s_fault s TStats then Inl IOError else Inr (sort_key st_repo (s_stats s)))"

definition ListWebhooks :: "store \<Rightarrow> hook_row list sres" where
  "ListWebhooks s = (if s_fault s THooks then Inl IOError else Inr (trows (s_hooks s)))"

definition CreateWebhook :: "int \<Rightarrow> hook_row \<Rightarrow> store \<Rightarrow> hook_row sres \<times> store" where
  "CreateWebhook now w s =
     (if s_fault s THooks then (Inl IOError, s)
      else (Inr (w\<lparr>wh_id := tseq (s_hooks s) + 1\<rparr>),
            s\<lparr>s_hooks := tinsert (\<lambda>i. w\<lparr>wh_id := i, wh_created := now\<rparr>) (s_hooks s)\<rparr>))"

definition UpdateWebhook :: "hook_row \<Rightarrow> store \<Rightarrow> unit sres \<times> store" where
  "UpdateWebhook w s =
     (if s_fault s THooks then (Inl IOError, s)
      else (Inr (), s\<lparr>s_hooks := tupdate (\<lambda>r. wh_id r = wh_id w)
             (\<lambda>r. r\<lparr>wh_url := wh_url w, wh_secret := wh_secret w, wh_events := wh_events w,
                  wh_enabled := wh_enabled w\<rparr>) (s_hooks s)\<rparr>))"

definition DeleteWebhook :: "int \<Rightarrow> store \<Rightarrow> unit sres \<times> store" where
  "DeleteWebhook i s =
     (if s_fault s THooks then (Inl IOError, s)
      else (Inr (), s\<lparr>s_hooks := tdelete (\<lambda>r. wh_id r = i) (s_hooks s)\<rparr>))"

section \<open>The invariant of the user tables\<close>

definition users_ok :: "store \<Rightarrow> bool" where
  "users_ok s \<longleftrightarrow> table_ok us_id (s_users s) \<and> key_unique us_name (s_users s) \<and>
     table_ok pm_id (s_perms s) \<and> key_unique (\<lambda>p. (pm_user p, pm_pattern p)) (s_perms s) \<and>
     table_ok tk_id (s_tokens s) \<and>
     (\<forall>p \<in> set (trows (s_perms s)). thas (\<lambda>u. us_id u = pm_user p) (s_users s)) \<and>
     (\<forall>t \<in> set (trows (s_tokens s)). thas (\<lambda>u. us_id u = tk_user t) (s_users s)) \<and>
     distinct (map st_repo (s_stats s))"

interpretation perm_table: keyed_table pm_id "\<lambda>p. (pm_user p, pm_pattern p)" at_perm perm_new perm_set
  by unfold_locales (auto simp: perm_set_def perm_new_def)

lemma users_okD:
  assumes "users_ok s"
  shows "table_ok us_id (s_users s)" "key_unique us_name (s_users s)" "table_ok pm_id (s_perms s)"
    "key_unique (\<lambda>p. (pm_user p, pm_pattern p)) (s_perms s)" "table_ok tk_id (s_tokens s)"
    "p \<in> set (trows (s_perms s)) \<Longrightarrow> thas (\<lambda>u. us_id u = pm_user p) (s_users s)"
    "t \<in> set (trows (s_tokens s)) \<Longrightarrow> thas (\<lambda>u. us_id u = tk_user t) (s_users s)"
    "distinct (map st_repo (s_stats s))"
  using assms by (auto simp: users_ok_def)

lemma users_ok_empty: "users_ok empty_store"
  by (simp add: users_ok_def empty_store_def table_simps)

end
