(* ===== verification/Store_Repos_Inv.thy ===== *)
theory Store_Repos_Inv
  imports Store_Repos
begin

text \<open>
  The referential invariant of the repository tables (\<open>repos_ok\<close>: rowid discipline, the three
  \<^verbatim>\<open>UNIQUE\<close> constraints, every foreign key resolves) and its preservation by every method of
  \<^verbatim>\<open>store.go\<close> that writes them; then the directory they implement, a map from namespaced names
  to policy rows, as the locale \<open>repo_directory\<close> with its interpretation.
\<close>

section \<open>The invariant\<close>

abbreviation ns_exists :: "store \<Rightarrow> int \<Rightarrow> bool" where
  "ns_exists s i \<equiv> thas (\<lambda>n. ns_id n = i) (s_namespaces s)"

abbreviation repo_exists :: "store \<Rightarrow> int \<Rightarrow> bool" where
  "repo_exists s i \<equiv> thas (\<lambda>r. rp_id r = i) (s_repos s)"

abbreviation image_exists :: "store \<Rightarrow> int \<Rightarrow> bool" where
  "image_exists s i \<equiv> thas (\<lambda>im. im_id im = i) (s_images s)"

definition ref_ok :: "store \<Rightarrow> int option \<Rightarrow> bool" where
  "ref_ok s ref \<longleftrightarrow> (\<forall>i. ref = Some i \<longrightarrow> image_exists s i)"

definition repo_key :: "repo_row \<Rightarrow> int \<times> string" where
  "repo_key r = (rp_ns r, rp_name r)"

definition img_key :: "image_row \<Rightarrow> int \<times> string" where
  "img_key im = (im_repo im, im_tag im)"

definition ids_ok :: "store \<Rightarrow> bool" where
  "ids_ok s \<longleftrightarrow> table_ok ns_id (s_namespaces s) \<and> table_ok rp_id (s_repos s) \<and>
     table_ok im_id (s_images s)"

definition keys_ok :: "store \<Rightarrow> bool" where
  "keys_ok s \<longleftrightarrow> key_unique ns_name (s_namespaces s) \<and> key_unique repo_key (s_repos s) \<and>
     key_unique img_key (s_images s)"

definition fks_ok :: "store \<Rightarrow> bool" where
  "fks_ok s \<longleftrightarrow> (\<forall>r \<in> set (trows (s_repos s)). ns_exists s (rp_ns r)) \<and>
     (\<forall>im \<in> set (trows (s_images s)). repo_exists s (im_repo im)) \<and>
     (\<forall>a \<in> set (trows (s_audit s)). ref_ok s (au_image a)) \<and>
     (\<forall>r \<in> set (trows (s_recycle s)). ref_ok s (rb_image r))"

definition repos_ok :: "store \<Rightarrow> bool" where
  "repos_ok s \<longleftrightarrow> ids_ok s \<and> keys_ok s \<and> fks_ok s"

lemma repos_ok_empty: "repos_ok empty_store"
  by (simp add: repos_ok_def ids_ok_def keys_ok_def fks_ok_def empty_store_def table_simps)

text \<open>The invariant looks at five tables only.\<close>

lemma repos_ok_cong:
  "s_namespaces s' = s_namespaces s \<Longrightarrow> s_repos s' = s_repos s \<Longrightarrow> s_images s' = s_images s \<Longrightarrow>
   s_audit s' = s_audit s \<Longrightarrow> s_recycle s' = s_recycle s \<Longrightarrow> repos_ok s' = repos_ok s"
  by (simp add: repos_ok_def ids_ok_def keys_ok_def fks_ok_def ref_ok_def)

lemma thas_insert [table_simps]: "thas P (tinsert mk t) \<longleftrightarrow> thas P t \<or> P (mk (tseq t + 1))"
  by (auto simp: thas_iff table_simps)

lemma thas_update:
  "thas P (tupdate Q f t) \<longleftrightarrow> (\<exists>r \<in> set (trows t). P (if Q r then f r else r))"
  unfolding thas_iff tupdate_simps set_map by blast

lemma thas_update_same:
  assumes "\<And>r. P (f r) = P r"
  shows "thas P (tupdate Q f t) = thas P t"
  using assms by (auto simp: thas_iff table_simps)

lemma thas_delete: "thas P (tdelete Q t) \<longleftrightarrow> (\<exists>r \<in> set (trows t). P r \<and> \<not> Q r)"
  by (auto simp: thas_iff table_simps)

lemma in_update:
  "r \<in> set (trows (tupdate P f t)) \<Longrightarrow> \<exists>r0 \<in> set (trows t). r = (if P r0 then f r0 else r0)"
  by (auto simp: table_simps)

section \<open>The keyed tables\<close>

interpretation ns_table: keyed_table ns_id ns_name "\<lambda>name n. ns_name n = name"
  "\<lambda>name now i. \<lparr>ns_id = i, ns_name = name, ns_created = now\<rparr>" "\<lambda>now n. n"
  by unfold_locales simp_all

interpretation repo_table: keyed_table rp_id repo_key
  "\<lambda>k r. rp_ns r = fst k \<and> rp_name r = snd k"
  "\<lambda>k now. new_repo now (fst k) (snd k)" "\<lambda>now r. r"
  by unfold_locales (auto simp: repo_key_def new_repo_def)

text \<open>What the two \<^verbatim>\<open>ON CONFLICT\<close> clauses write over an existing image row.\<close>

definition upsert_image_set :: "int \<times> image_row \<Rightarrow> image_row \<Rightarrow> image_row" where
  "upsert_image_set d old =
     (case d of (now, img) \<Rightarrow>
        old\<lparr>im_digest := im_digest img, im_ctype := im_ctype img, im_size := im_size img,
            im_atype := im_atype img, im_fav := im_fav img, im_note := im_note img,
            im_deleted := im_deleted img, im_pushed := im_pushed img, im_updated := now\<rparr>)"

definition sync_image_set :: "int \<times> image_row \<Rightarrow> image_row \<Rightarrow> image_row" where
  "sync_image_set d old =
     (case d of (now, img) \<Rightarrow>
        old\<lparr>im_digest := im_digest img, im_ctype := im_ctype img,
            im_size := (if im_size img > 0 then im_size img else im_size old),
            im_atype := im_atype img, im_deleted := False,
            im_pushed := im_pushed img, im_updated := now\<rparr>)"

definition upsert_image_new :: "int \<times> string \<Rightarrow> int \<times> image_row \<Rightarrow> int \<Rightarrow> image_row" where
  "upsert_image_new k d i =
     (case d of (now, img) \<Rightarrow>
        img\<lparr>im_id := i, im_repo := fst k, im_tag := snd k, im_created := now, im_updated := now\<rparr>)"

definition sync_image_new :: "int \<times> string \<Rightarrow> int \<times> image_row \<Rightarrow> int \<Rightarrow> image_row" where
  "sync_image_new k d i =
     (case d of (now, img) \<Rightarrow>
        img\<lparr>im_id := i, im_repo := fst k, im_tag := snd k, im_fav := False, im_note := [],
            im_deleted := False, im_created := now, im_updated := now\<rparr>)"

abbreviation at_image :: "int \<times> string \<Rightarrow> image_row \<Rightarrow> bool" where
  "at_image k \<equiv> image_key (fst k) (snd k)"

interpretation image_upsert: keyed_table im_id img_key at_image upsert_image_new upsert_image_set
  by unfold_locales
    (auto simp: image_key_def img_key_def upsert_image_new_def upsert_image_set_def
      split: prod.splits)

interpretation image_sync: keyed_table im_id img_key at_image sync_image_new sync_image_set
  by unfold_locales
    (auto simp: image_key_def img_key_def sync_image_new_def sync_image_set_def
      split: prod.splits)

lemma UpsertImage_ok_eq:
  "fst (UpsertImage now img s) = Inr r \<Longrightarrow>
   snd (UpsertImage now img s) = s\<lparr>s_images :=
     tupsert (at_image (im_repo img, im_tag img)) (upsert_image_set (now, img))
       (upsert_image_new (im_repo img, im_tag img) (now, img)) (s_images s)\<rparr> \<and>
   repo_exists s (im_repo img)"
  by (auto simp: UpsertImage_def upsert_image_set_def[abs_def] upsert_image_new_def[abs_def]
      split: if_splits)

lemma SyncImage_ok_eq:
  "fst (SyncImage now img s) = Inr r \<Longrightarrow>
   snd (SyncImage now img s) = s\<lparr>s_images :=
     tupsert (at_image (im_repo img, im_tag img)) (sync_image_set (now, img))
       (sync_image_new (im_repo img, im_tag img) (now, img)) (s_images s)\<rparr> \<and>
   repo_exists s (im_repo img)"
  by (auto simp: SyncImage_def sync_image_set_def[abs_def] sync_image_new_def[abs_def]
      split: if_splits)

lemma UpsertImage_error: "fst (UpsertImage now img s) = Inl e \<Longrightarrow> snd (UpsertImage now img s) = s"
  by (auto simp: UpsertImage_def split: if_splits)

lemma SyncImage_error: "fst (SyncImage now img s) = Inl e \<Longrightarrow> snd (SyncImage now img s) = s"
  by (auto simp: SyncImage_def split: if_splits)

section \<open>Preservation\<close>

text \<open>Adding namespaces or repositories cannot break a foreign key.\<close>

lemma repos_ok_namespaces:
  assumes "repos_ok s" "table_ok ns_id t" "key_unique ns_name t"
    "\<And>i. ns_exists s i \<Longrightarrow> thas (\<lambda>n. ns_id n = i) t"
  shows "repos_ok (s\<lparr>s_namespaces := t\<rparr>)"
  using assms by (auto simp: repos_ok_def ids_ok_def keys_ok_def fks_ok_def ref_ok_def)

lemma repos_ok_repos:
  assumes "repos_ok s" "table_ok rp_id t" "key_unique repo_key t"
    "\<And>r. r \<in> set (trows t) \<Longrightarrow> ns_exists s (rp_ns r)"
    "\<And>i. repo_exists s i \<Longrightarrow> thas (\<lambda>r. rp_id r = i) t"
  shows "repos_ok (s\<lparr>s_repos := t\<rparr>)"
  using assms by (auto simp: repos_ok_def ids_ok_def keys_ok_def fks_ok_def ref_ok_def)

lemma repos_ok_images:
  assumes "repos_ok s" "table_ok im_id t" "key_unique img_key t"
    "\<And>im. im \<in> set (trows t) \<Longrightarrow> repo_exists s (im_repo im)"
    "\<And>i. image_exists s i \<Longrightarrow> thas (\<lambda>im. im_id im = i) t"
  shows "repos_ok (s\<lparr>s_images := t\<rparr>)"
  using assms by (auto simp: repos_ok_def ids_ok_def keys_ok_def fks_ok_def ref_ok_def
      split: option.splits)

lemma repos_okD:
  assumes "repos_ok s"
  shows "table_ok ns_id (s_namespaces s)" "table_ok rp_id (s_repos s)"
    "table_ok im_id (s_images s)" "key_unique ns_name (s_namespaces s)"
    "key_unique repo_key (s_repos s)" "key_unique img_key (s_images s)"
    "r \<in> set (trows (s_repos s)) \<Longrightarrow> ns_exists s (rp_ns r)"
    "im \<in> set (trows (s_images s)) \<Longrightarrow> repo_exists s (im_repo im)"
  using assms by (auto simp: repos_ok_def ids_ok_def keys_ok_def fks_ok_def)

lemma UpsertNamespace_repos_ok: "repos_ok s \<Longrightarrow> repos_ok (snd (UpsertNamespace now name s))"
  using ns_table.put_table_ok[of "s_namespaces s" name now]
    ns_table.put_key_unique[of "s_namespaces s" name now]
    ns_table.put_ids[of _ "s_namespaces s" name now]
  by (auto simp: UpsertNamespace_def Let_def thas_iff intro!: repos_ok_namespaces dest: repos_okD(1,4))

lemma UpsertRepository_repos_ok:
  assumes ok: "repos_ok s"
  shows "repos_ok (snd (UpsertRepository now nsid name s))"
proof (cases "s_fault s TRepositories \<or> \<not> ns_exists s nsid")
  case True
  with ok show ?thesis by (auto simp: UpsertRepository_def)
next
  case False
  let ?t = "tupsert (\<lambda>r. rp_ns r = nsid \<and> rp_name r = name) (\<lambda>r. r) (new_repo now nsid name) (s_repos s)"
  have "table_ok rp_id ?t" "key_unique repo_key ?t"
    using repo_table.put_table_ok[OF repos_okD(2)[OF ok], of "(nsid, name)" now]
      repo_table.put_key_unique[OF repos_okD(5)[OF ok], of "(nsid, name)" now] by simp_all
  moreover have "ns_exists s (rp_ns r)" if "r \<in> set (trows ?t)" for r
    using repo_table.put_rows[of r "(nsid, name)" now "s_repos s"] that repos_okD(7)[OF ok] False
    by (auto simp: repo_key_def new_repo_def)
  moreover have "thas (\<lambda>r. rp_id r = i) ?t" if "repo_exists s i" for i
    using that repo_table.put_ids[of _ "s_repos s" "(nsid, name)" now] by (fastforce simp: thas_iff)
  ultimately have "repos_ok (s\<lparr>s_repos := ?t\<rparr>)" using ok by (intro repos_ok_repos) auto
  with False show ?thesis by (simp add: UpsertRepository_def Let_def)
qed

lemma update_repo_repos_ok:
  assumes "repos_ok s" "\<And>r. rp_id (f r) = rp_id r" "\<And>r. repo_key (f r) = repo_key r"
  shows "repos_ok (snd (update_repo f nsName repoName s))"
proof -
  have ns: "rp_ns (f r) = rp_ns r" for r using assms(3)[of r] by (simp add: repo_key_def)
  have "repos_ok (s\<lparr>s_repos := tupdate P f (s_repos s)\<rparr>)" for P
  proof (rule repos_ok_repos[OF assms(1)])
    show "table_ok rp_id (tupdate P f (s_repos s))"
      by (rule table_ok_update[OF repos_okD(2)[OF assms(1)] assms(2)])
    show "key_unique repo_key (tupdate P f (s_repos s))"
      by (rule key_unique_update[OF repos_okD(5)[OF assms(1)] assms(3)])
    show "ns_exists s (rp_ns r)" if "r \<in> set (trows (tupdate P f (s_repos s)))" for r
      using in_update[OF that] repos_okD(7)[OF assms(1)] ns by auto
    show "thas (\<lambda>r. rp_id r = i) (tupdate P f (s_repos s))" if "repo_exists s i" for i
      using that assms(2) by (simp add: thas_update_same)
  qed
  then show ?thesis using assms(1) by (simp add: update_repo_def Let_def)
qed

lemmas repo_setter_defs =
  SetRepositoryAnonymousPull_def SetRepositoryPushCreate_def SetRepositoryRetentionKeepCount_def
  SetRepositoryProtectionMode_def SetRepositoryOverwriteAction_def

lemma repo_setters_repos_ok:
  assumes "repos_ok s"
  shows "repos_ok (snd (SetRepositoryAnonymousPull n r b s))"
    "repos_ok (snd (SetRepositoryPushCreate n r v s))"
    "repos_ok (snd (SetRepositoryRetentionKeepCount n r v s))"
    "repos_ok (snd (SetRepositoryProtectionMode n r v s))"
    "repos_ok (snd (SetRepositoryOverwriteAction n r v s))"
  unfolding repo_setter_defs using assms
  by (auto intro!: update_repo_repos_ok simp: repo_key_def)

lemma image_put_repos_ok:
  assumes ok: "repos_ok s" and ex: "repo_exists s (fst k)"
    and kt: "keyed_table im_id img_key at_image mk upd"
  shows "repos_ok (s\<lparr>s_images := tupsert (at_image k) (upd d) (mk k d) (s_images s)\<rparr>)"
proof (rule repos_ok_images[OF ok])
  let ?t = "tupsert (at_image k) (upd d) (mk k d) (s_images s)"
  show "table_ok im_id ?t" by (rule keyed_table.put_table_ok[OF kt repos_okD(3)[OF ok]])
  show "key_unique img_key ?t" by (rule keyed_table.put_key_unique[OF kt repos_okD(6)[OF ok]])
  show "repo_exists s (im_repo im)" if "im \<in> set (trows ?t)" for im
  proof -
    have "im \<in> set (trows (s_images s)) \<or> img_key im = k"
      using keyed_table.put_rows[OF kt that] keyed_table.upd_key[OF kt] keyed_table.mk_key[OF kt, of k]
      by auto
    then show ?thesis using repos_okD(8)[OF ok] ex by (auto simp: img_key_def)
  qed
  show "thas (\<lambda>im. im_id im = i) ?t" if "image_exists s i" for i
    using that keyed_table.put_ids[OF kt, of _ "s_images s" k d] by (fastforce simp: thas_iff)
qed

lemma UpsertImage_repos_ok: "repos_ok s \<Longrightarrow> repos_ok (snd (UpsertImage now img s))"
  using UpsertImage_ok_eq[of now img s] UpsertImage_error[of now img s]
    image_put_repos_ok[OF _ _ image_upsert.keyed_table_axioms, of s "(im_repo img, im_tag img)" "(now, img)"]
  by (cases "fst (UpsertImage now img s)") auto

lemma SyncImage_repos_ok: "repos_ok s \<Longrightarrow> repos_ok (snd (SyncImage now img s))"
  using SyncImage_ok_eq[of now img s] SyncImage_error[of now img s]
    image_put_repos_ok[OF _ _ image_sync.keyed_table_axioms, of s "(im_repo img, im_tag img)" "(now, img)"]
  by (cases "fst (SyncImage now img s)") auto

lemma update_images_repos_ok:
  assumes "repos_ok s" "\<And>im. im_id (f im) = im_id im" "\<And>im. img_key (f im) = img_key im"
  shows "repos_ok (snd (update_images P f s))"
proof -
  have rp: "im_repo (f im) = im_repo im" for im using assms(3)[of im] by (simp add: img_key_def)
  have "repos_ok (s\<lparr>s_images := tupdate P f (s_images s)\<rparr>)"
  proof (rule repos_ok_images[OF assms(1)])
    show "table_ok im_id (tupdate P f (s_images s))"
      by (rule table_ok_update[OF repos_okD(3)[OF assms(1)] assms(2)])
    show "key_unique img_key (tupdate P f (s_images s))"
      by (rule key_unique_update[OF repos_okD(6)[OF assms(1)] assms(3)])
    show "repo_exists s (im_repo im)" if "im \<in> set (trows (tupdate P f (s_images s)))" for im
      using in_update[OF that] repos_okD(8)[OF assms(1)] rp by auto
    show "thas (\<lambda>im. im_id im = i) (tupdate P f (s_images s))" if "image_exists s i" for i
      using that assms(2) by (simp add: thas_update_same)
  qed
  then show ?thesis using assms(1) by (simp add: update_images_def)
qed

lemma image_setters_repos_ok:
  assumes "repos_ok s"
  shows "repos_ok (snd (SetImageFavorite now i tag fav note s))"
    "repos_ok (snd (SoftDeleteImage now i tag s))"
    "repos_ok (snd (SoftDeleteImageByDigest now i dg s))"
  unfolding SetImageFavorite_def SoftDeleteImage_def SoftDeleteImageByDigest_def using assms
  by (auto intro!: update_images_repos_ok simp: img_key_def)

text \<open>Deleting images: \<^verbatim>\<open>ON DELETE SET NULL\<close> keeps audit and recycle references valid.\<close>

lemma delete_images_fields [simp]:
  "s_namespaces (delete_images P s) = s_namespaces s"
  "s_repos (delete_images P s) = s_repos s"
  "s_images (delete_images P s) = tdelete P (s_images s)"
  "s_fault (delete_images P s) = s_fault s"
  "s_settings (delete_images P s) = s_settings s"
  "s_users (delete_images P s) = s_users s"
  "s_perms (delete_images P s) = s_perms s"
  "s_rules (delete_images P s) = s_rules s"
  "s_tokens (delete_images P s) = s_tokens s"
  "s_stats (delete_images P s) = s_stats s"
  "s_hooks (delete_images P s) = s_hooks s"
  "s_recent (delete_images P s) = s_recent s"
  by (simp_all add: delete_images_def Let_def)

lemma delete_images_ref:
  assumes ids: "table_ok im_id (s_images s)" and ref: "ref_ok s ref"
  shows "ref_ok (delete_images P s)
    (if (case ref of None \<Rightarrow> False | Some i \<Rightarrow> thas (\<lambda>im. P im \<and> im_id im = i) (s_images s))
     then None else ref)"
  using ref by (auto simp: ref_ok_def thas_iff table_simps split: option.splits)

lemma delete_images_repos_ok:
  assumes ok: "repos_ok s"
  shows "repos_ok (delete_images P s)"
proof -
  let ?s = "delete_images P s"
  let ?gone = "\<lambda>ref. case ref of None \<Rightarrow> False
     | Some i \<Rightarrow> thas (\<lambda>im. P im \<and> im_id im = i) (s_images s)"
  have ids: "ids_ok ?s" "keys_ok ?s"
    using ok by (auto simp: repos_ok_def ids_ok_def keys_ok_def table_ok_delete key_unique_delete)
  have ref: "ref_ok ?s (if ?gone ref then None else ref)" if "ref_ok s ref" for ref
    by (rule delete_images_ref[OF repos_okD(3)[OF ok] that])
  have fk: "\<forall>r \<in> set (trows (s_repos ?s)). ns_exists ?s (rp_ns r)"
    "\<forall>im \<in> set (trows (s_images ?s)). repo_exists ?s (im_repo im)"
    using repos_okD(7,8)[OF ok] by (auto simp: table_simps)
  have au: "ref_ok ?s (au_image a)" if "a \<in> set (trows (s_audit ?s))" for a
  proof -
    from that obtain a0 where a0: "a0 \<in> set (trows (s_audit s))"
      "a = (if ?gone (au_image a0) then a0\<lparr>au_image := None\<rparr> else a0)"
      by (auto simp: delete_images_def Let_def dest: in_update)
    then have "au_image a = (if ?gone (au_image a0) then None else au_image a0)" by simp
    moreover have "ref_ok s (au_image a0)" using ok a0(1) by (simp add: repos_ok_def fks_ok_def)
    ultimately show ?thesis using ref by simp
  qed
  have rb: "ref_ok ?s (rb_image r)" if "r \<in> set (trows (s_recycle ?s))" for r
  proof -
    from that obtain r0 where r0: "r0 \<in> set (trows (s_recycle s))"
      "r = (if ?gone (rb_image r0) then r0\<lparr>rb_image := None\<rparr> else r0)"
      by (auto simp: delete_images_def Let_def dest: in_update)
    then have "rb_image r = (if ?gone (rb_image r0) then None else rb_image r0)" by simp
    moreover have "ref_ok s (rb_image r0)" using ok r0(1) by (simp add: repos_ok_def fks_ok_def)
    ultimately show ?thesis using ref by simp
  qed
  show ?thesis using ids fk au rb by (simp add: repos_ok_def fks_ok_def)
qed

text \<open>A repository may go once no image points at it, a namespace once no repository does.\<close>

lemma drop_repos_ok:
  assumes ok: "repos_ok s" and un: "\<And>im r. im \<in> set (trows (s_images s)) \<Longrightarrow>
     r \<in> set (trows (s_repos s)) \<Longrightarrow> rp_id r = im_repo im \<Longrightarrow> \<not> P r"
  shows "repos_ok (s\<lparr>s_repos := tdelete P (s_repos s)\<rparr>)"
proof -
  have "thas (\<lambda>r. rp_id r = im_repo im) (tdelete P (s_repos s))" if "im \<in> set (trows (s_images s))" for im
    using repos_okD(8)[OF ok that] un[OF that] by (auto simp: thas_iff table_simps)
  with ok show ?thesis
    by (auto simp: repos_ok_def ids_ok_def keys_ok_def fks_ok_def ref_ok_def table_ok_delete
        key_unique_delete table_simps)
qed

lemma drop_namespaces_ok:
  assumes ok: "repos_ok s" and un: "\<And>r n. r \<in> set (trows (s_repos s)) \<Longrightarrow>
     n \<in> set (trows (s_namespaces s)) \<Longrightarrow> ns_id n = rp_ns r \<Longrightarrow> \<not> P n"
  shows "repos_ok (s\<lparr>s_namespaces := tdelete P (s_namespaces s)\<rparr>)"
proof -
  have "thas (\<lambda>n. ns_id n = rp_ns r) (tdelete P (s_namespaces s))" if "r \<in> set (trows (s_repos s))" for r
    using repos_okD(7)[OF ok that] un[OF that] by (auto simp: thas_iff table_simps)
  with ok show ?thesis
    by (auto simp: repos_ok_def ids_ok_def keys_ok_def fks_ok_def ref_ok_def table_ok_delete
        key_unique_delete)
qed

lemma DeleteRepository_repos_ok: "repos_ok s \<Longrightarrow> repos_ok (snd (DeleteRepository i s))"
proof -
  assume ok: "repos_ok s"
  let ?s1 = "delete_images (\<lambda>im. im_repo im = i) s"
  have "repos_ok (?s1\<lparr>s_repos := tdelete (\<lambda>r. rp_id r = i) (s_repos ?s1)\<rparr>)"
    by (rule drop_repos_ok[OF delete_images_repos_ok[OF ok]]) (auto simp: table_simps)
  with ok show ?thesis by (simp add: DeleteRepository_def Let_def)
qed

lemma DeleteNamespace_repos_ok:
  assumes ok: "repos_ok s"
  shows "repos_ok (snd (DeleteNamespace i s))"
proof (cases "s_fault s TImages \<or> s_fault s TRepositories \<or> s_fault s TNamespaces")
  case True
  with ok show ?thesis by (simp add: DeleteNamespace_def)
next
  case False
  let ?s1 = "delete_images (\<lambda>im. thas (\<lambda>r. rp_ns r = i \<and> rp_id r = im_repo im) (s_repos s)) s"
  let ?s2 = "?s1\<lparr>s_repos := tdelete (\<lambda>r. rp_ns r = i) (s_repos ?s1)\<rparr>"
  have s2: "repos_ok ?s2"
    by (rule drop_repos_ok[OF delete_images_repos_ok[OF ok]]) (auto simp: table_simps thas_iff)
  have "repos_ok (?s2\<lparr>s_namespaces := tdelete (\<lambda>n. ns_id n = i) (s_namespaces ?s2)\<rparr>)"
    by (rule drop_namespaces_ok[OF s2]) (auto simp: table_simps)
  with False show ?thesis by (simp add: DeleteNamespace_def Let_def)
qed

lemmas repos_ok_intros =
  UpsertNamespace_repos_ok UpsertRepository_repos_ok repo_setters_repos_ok UpsertImage_repos_ok
  SyncImage_repos_ok image_setters_repos_ok DeleteRepository_repos_ok DeleteNamespace_repos_ok

end
