(* ===== verification/Store_Users_Inv.thy ===== *)
theory Store_Users_Inv
  imports Store_Users Store_Repos_Inv
begin

text \<open>
  Every method of \<^verbatim>\<open>store.go\<close> that writes users, permissions, tokens or statistics keeps
  \<open>users_ok\<close>; lookups by name and the number of enabled administrators after each update,
  which the guards of the admin handlers rely on.
\<close>

section \<open>Preservation\<close>

lemma users_ok_cong:
  "s_users s' = s_users s \<Longrightarrow> s_perms s' = s_perms s \<Longrightarrow> s_tokens s' = s_tokens s \<Longrightarrow>
   s_stats s' = s_stats s \<Longrightarrow> users_ok s' = users_ok s"
  by (simp add: users_ok_def)

lemma users_ok_users:
  assumes "users_ok s" "table_ok us_id t" "key_unique us_name t"
    "\<And>i. thas (\<lambda>u. us_id u = i) (s_users s) \<Longrightarrow> thas (\<lambda>u. us_id u = i) t"
  shows "users_ok (s\<lparr>s_users := t\<rparr>)"
  using assms by (auto simp: users_ok_def)

lemma users_ok_perms:
  assumes "users_ok s" "table_ok pm_id t" "key_unique (\<lambda>p. (pm_user p, pm_pattern p)) t"
    "\<And>p. p \<in> set (trows t) \<Longrightarrow> thas (\<lambda>u. us_id u = pm_user p) (s_users s)"
  shows "users_ok (s\<lparr>s_perms := t\<rparr>)"
  using assms by (auto simp: users_ok_def)

lemma users_ok_tokens:
  assumes "users_ok s" "table_ok tk_id t"
    "\<And>k. k \<in> set (trows t) \<Longrightarrow> thas (\<lambda>u. us_id u = tk_user k) (s_users s)"
  shows "users_ok (s\<lparr>s_tokens := t\<rparr>)"
  using assms by (auto simp: users_ok_def)

lemma update_user_users_ok:
  assumes ok: "users_ok s" and "\<And>u. us_id (f u) = us_id u" "\<And>u. us_id u = i \<Longrightarrow> us_name (f u) = us_name u"
  shows "users_ok (snd (update_user i f s))"
proof -
  have "users_ok (s\<lparr>s_users := tupdate (\<lambda>u. us_id u = i) f (s_users s)\<rparr>)"
    using users_okD(1,2)[OF ok] assms
    by (intro users_ok_users) (auto intro: table_ok_update key_unique_update simp: thas_update_same)
  with ok show ?thesis by (simp add: update_user_def)
qed

lemma key_unique_rename:
  assumes ids: "table_ok rid t" and key: "key_unique key t"
    and free: "\<not> thas (\<lambda>r. key r = k \<and> rid r \<noteq> i) t" and fk: "\<And>r. key (f r) = k"
  shows "key_unique key (tupdate (\<lambda>r. rid r = i) f t)"
proof -
  have "inj_on (\<lambda>r. key (if rid r = i then f r else r)) (set (trows t))"
  proof (rule inj_onI)
    fix r r' assume r: "r \<in> set (trows t)" "r' \<in> set (trows t)"
      and eq: "key (if rid r = i then f r else r) = key (if rid r' = i then f r' else r')"
    consider "rid r = i" "rid r' = i" | "rid r = i" "rid r' \<noteq> i" | "rid r \<noteq> i" "rid r' = i"
      | "rid r \<noteq> i" "rid r' \<noteq> i" by blast
    then show "r = r'"
    proof cases
      case 1 with table_ok_same_id[OF ids r] show ?thesis by simp
    next
      case 2 with eq fk free r show ?thesis by (auto simp: thas_iff)
    next
      case 3 with eq fk free r show ?thesis by (auto simp: thas_iff)
    next
      case 4 with eq key_unique_same[OF key r] show ?thesis by simp
    qed
  qed
  moreover have "distinct (trows t)" using key by (simp add: key_unique_def distinct_map)
  ultimately show ?thesis
    by (simp add: key_unique_def table_simps distinct_map o_def comp_inj_on_iff[symmetric] inj_on_def)
qed

lemma rename_user_users_ok:
  assumes ok: "users_ok s" and f: "\<And>u. us_id (f u) = us_id u" "\<And>u. us_name (f u) = name"
  shows "users_ok (snd (rename_user i name f s))"
proof (cases "s_fault s TUsers \<or> (thas (\<lambda>u. us_id u = i) (s_users s) \<and>
      thas (\<lambda>u. us_name u = name \<and> us_id u \<noteq> i) (s_users s))")
  case True
  with ok show ?thesis by (auto simp: rename_user_def)
next
  case False
  let ?t = "tupdate (\<lambda>u. us_id u = i) f (s_users s)"
  have "key_unique us_name ?t"
  proof (cases "thas (\<lambda>u. us_id u = i) (s_users s)")
    case True
    with False show ?thesis
      by (intro key_unique_rename[OF users_okD(1,2)[OF ok]]) (auto simp: f)
  next
    case no: False
    then have "trows ?t = trows (s_users s)" by (auto simp: table_simps thas_iff intro: map_idI)
    with users_okD(2)[OF ok] show ?thesis by (simp add: key_unique_def)
  qed
  then have "users_ok (s\<lparr>s_users := ?t\<rparr>)"
    using table_ok_update[OF users_okD(1)[OF ok] f(1)] ok f(1)
    by (intro users_ok_users) (auto simp: thas_update_same)
  with False show ?thesis by (auto simp: rename_user_def update_user_def)
qed

lemma UpdateUser_users_ok: "users_ok s \<Longrightarrow> users_ok (snd (UpdateUser now hash i n p a e s))"
  by (auto simp: UpdateUser_def intro!: rename_user_users_ok split: option.splits)

lemma user_setters_users_ok:
  assumes "users_ok s"
  shows "users_ok (snd (UpdateUserPassword now hash i p s))"
    "users_ok (snd (SetUserPasswordHash now i h s))"
    "users_ok (snd (SetUserEnabled now i b s))"
  using assms by (auto simp: UpdateUserPassword_def SetUserPasswordHash_def SetUserEnabled_def
      intro!: update_user_users_ok split: option.splits)

lemma new_user_simps [simp]:
  "us_id (new_user now n h a e m i) = i" "us_name (new_user now n h a e m i) = n"
  "us_admin (new_user now n h a e m i) = a" "us_enabled (new_user now n h a e m i) = e"
  "us_hash (new_user now n h a e m i) = h" "us_mustchange (new_user now n h a e m i) = m"
  by (simp_all add: new_user_def)

lemma insert_user_users_ok:
  assumes "users_ok s" "\<not> thas (\<lambda>u. us_name u = n) (s_users s)"
  shows "users_ok (s\<lparr>s_users := tinsert (new_user now n h a e m) (s_users s)\<rparr>)"
  using users_okD(1,2)[OF assms(1)] assms
  by (intro users_ok_users) (auto intro!: table_ok_insert key_unique_insert simp: table_simps)

lemma CreateUserWithEnabled_users_ok:
  "users_ok s \<Longrightarrow> users_ok (snd (CreateUserWithEnabled now n h a e m s))"
  by (auto simp: CreateUserWithEnabled_def Let_def intro: insert_user_users_ok)

lemma CreateUser_users_ok: "users_ok s \<Longrightarrow> users_ok (snd (CreateUser now n h a m s))"
  by (simp add: CreateUser_def CreateUserWithEnabled_users_ok)

lemma DeleteUser_users_ok:
  assumes ok: "users_ok s"
  shows "users_ok (snd (DeleteUser i s))"
proof (cases "s_fault s TUsers")
  case True with ok show ?thesis by (simp add: DeleteUser_def)
next
  case False
  have other: "thas (\<lambda>u. us_id u = j) (tdelete (\<lambda>u. us_id u = i) (s_users s))"
    if "thas (\<lambda>u. us_id u = j) (s_users s)" "j \<noteq> i" for j
    using that by (auto simp: thas_iff table_simps)
  show ?thesis
  proof (cases "thas (\<lambda>u. us_id u = i) (s_users s)")
    case True
    with False ok other show ?thesis
      by (auto simp: users_ok_def DeleteUser_def table_ok_delete key_unique_delete table_simps)
  next
    case no: False
    then have "tdelete (\<lambda>u. us_id u = i) (s_users s) = s_users s"
      by (auto simp: tdelete_def thas_iff intro: table.equality filter_True)
    with False no ok show ?thesis by (simp add: DeleteUser_def users_ok_def)
  qed
qed

lemma seed_admin_users_ok: "users_ok s \<Longrightarrow> users_ok (snd (seed_admin now h s))"
  by (auto simp: seed_admin_def intro: insert_user_users_ok split: sum.splits option.splits bool.splits)

lemma migrate_users_users_ok:
  assumes "users_ok s"
  shows "users_ok (snd (migrate_users now h s))"
proof -
  let ?s1 = "snd (seed_admin now h s)"
  have ok: "users_ok ?s1" by (rule seed_admin_users_ok[OF assms])
  have "users_ok (?s1\<lparr>s_users := tupdate us_mustchange (\<lambda>u. u\<lparr>us_mustchange := False\<rparr>) (s_users ?s1)\<rparr>)"
    using users_okD(1,2)[OF ok] ok
    by (intro users_ok_users) (auto intro!: table_ok_update key_unique_update simp: thas_update_same)
  with ok show ?thesis
    by (simp add: migrate_users_def split: prod.splits sum.splits) auto
qed

lemma UpsertUserPermission_users_ok:
  assumes ok: "users_ok s"
  shows "users_ok (snd (UpsertUserPermission now rowid p s))"
proof (cases "s_fault s TPerms \<or> \<not> thas (\<lambda>u. us_id u = pm_user p) (s_users s)")
  case True with ok show ?thesis by (auto simp: UpsertUserPermission_def)
next
  case False
  let ?k = "(pm_user p, pm_pattern p)" and ?d = "(pm_read p, pm_write p, now)"
  let ?t = "tupsert (at_perm ?k) (perm_set ?d) (perm_new ?k ?d) (s_perms s)"
  have "users_ok (s\<lparr>s_perms := ?t\<rparr>)"
  proof (rule users_ok_perms[OF ok])
    show "table_ok pm_id ?t" by (rule perm_table.put_table_ok[OF users_okD(3)[OF ok]])
    show "key_unique (\<lambda>p. (pm_user p, pm_pattern p)) ?t"
      by (rule perm_table.put_key_unique[OF users_okD(4)[OF ok]])
    show "thas (\<lambda>u. us_id u = pm_user q) (s_users s)" if "q \<in> set (trows ?t)" for q
      using perm_table.put_rows[OF that] users_okD(6)[OF ok] False
      by (auto simp: perm_new_def perm_set_def)
  qed
  with False show ?thesis by (simp add: UpsertUserPermission_def Let_def)
qed

lemma UpdateUserPermission_users_ok:
  assumes ok: "users_ok s"
  shows "users_ok (snd (UpdateUserPermission i pat r w s))"
proof (cases "s_fault s TPerms")
  case True with ok show ?thesis by (simp add: UpdateUserPermission_def)
next
  case healthy: False
  let ?f = "\<lambda>p. p\<lparr>pm_pattern := pat, pm_read := r, pm_write := w\<rparr>"
  show ?thesis
  proof (cases "tfind (\<lambda>p. pm_id p = i) (s_perms s)")
    case None
    then have "tupdate (\<lambda>p. pm_id p = i) ?f (s_perms s) = s_perms s"
      by (auto simp: tupdate_def tfind_None thas_iff intro!: table.equality map_idI)
    with healthy None ok show ?thesis by (simp add: UpdateUserPermission_def)
  next
    case (Some p0)
    then have p0: "p0 \<in> set (trows (s_perms s))" "pm_id p0 = i" by (auto dest: tfind_SomeD)
    have only: "q = p0" if "q \<in> set (trows (s_perms s))" "pm_id q = i" for q
      using table_ok_same_id[OF users_okD(3)[OF ok] that(1) p0(1)] that(2) p0(2) by simp
    show ?thesis
    proof (cases "thas (\<lambda>p. pm_user p = pm_user p0 \<and> pm_pattern p = pat \<and> pm_id p \<noteq> i) (s_perms s)")
      case True with healthy Some ok show ?thesis by (simp add: UpdateUserPermission_def)
    next
      case False
      let ?t = "tupdate (\<lambda>p. pm_id p = i) (\<lambda>p. ?f p\<lparr>pm_user := pm_user p0\<rparr>) (s_perms s)"
      have t: "tupdate (\<lambda>p. pm_id p = i) ?f (s_perms s) = ?t"
        using only by (auto simp: tupdate_def intro!: table.equality map_cong)
      have "users_ok (s\<lparr>s_perms := ?t\<rparr>)"
      proof (rule users_ok_perms[OF ok])
        show "table_ok pm_id ?t" by (rule table_ok_update[OF users_okD(3)[OF ok]]) simp
        show "key_unique (\<lambda>p. (pm_user p, pm_pattern p)) ?t"
          by (rule key_unique_rename[OF users_okD(3,4)[OF ok], where k = "(pm_user p0, pat)"])
            (use False in \<open>auto simp: thas_iff\<close>)
        show "thas (\<lambda>u. us_id u = pm_user q) (s_users s)" if "q \<in> set (trows ?t)" for q
          using in_update[OF that] users_okD(6)[OF ok] p0(1) by auto
      qed
      with healthy Some False show ?thesis by (simp add: UpdateUserPermission_def t)
    qed
  qed
qed

lemma perm_deletes_users_ok:
  assumes "users_ok s"
  shows "users_ok (snd (DeleteUserPermission i s))"
    "users_ok (snd (DeleteUserPermissionByPattern u pat s))"
  using assms by (auto simp: DeleteUserPermission_def DeleteUserPermissionByPattern_def users_ok_def
      table_ok_delete key_unique_delete table_simps)

lemma token_ops_users_ok:
  assumes ok: "users_ok s"
  shows "users_ok (snd (CreateAPIToken now t s))" "users_ok (snd (DeleteAPIToken i s))"
    "users_ok (snd (TouchAPIToken now i s))"
proof -
  have "table_ok tk_id (tinsert (\<lambda>i. t\<lparr>tk_id := i, tk_lastused := None, tk_created := now\<rparr>) (s_tokens s))"
    by (rule table_ok_insert[OF users_okD(5)[OF ok]]) simp
  with ok show "users_ok (snd (CreateAPIToken now t s))"
    by (auto simp: CreateAPIToken_def table_simps users_okD(7) intro!: users_ok_tokens)
  show "users_ok (snd (DeleteAPIToken i s))"
    using ok users_okD(5)[OF ok]
    by (auto simp: DeleteAPIToken_def table_simps table_ok_delete users_okD(7) intro!: users_ok_tokens)
  have "table_ok tk_id (tupdate (\<lambda>t. tk_id t = i) (\<lambda>t. t\<lparr>tk_lastused := Some now\<rparr>) (s_tokens s))"
    by (rule table_ok_update[OF users_okD(5)[OF ok]]) simp
  with ok show "users_ok (snd (TouchAPIToken now i s))"
    by (auto simp: TouchAPIToken_def users_okD(7) intro!: users_ok_tokens dest!: in_update)
qed

lemma bump_stats_distinct:
  assumes "distinct (map st_repo rows)" "\<And>r. st_repo (f r) = st_repo r" "st_repo fresh = repo"
  shows "distinct (map st_repo (bump_stats repo fresh f rows))"
proof -
  have "map st_repo (map (\<lambda>r. if st_repo r = repo then f r else r) rows) = map st_repo rows"
    using assms(2) by simp
  with assms show ?thesis by (auto simp: bump_stats_def list_ex_iff simp del: map_map)
qed

lemma stats_users_ok:
  assumes "users_ok s"
  shows "users_ok (snd (IncrementRepoPull now repo s))" "users_ok (snd (IncrementRepoPush now repo s))"
  using assms by (auto simp: IncrementRepoPull_def IncrementRepoPush_def users_ok_def
      intro!: bump_stats_distinct)

lemmas users_ok_intros =
  UpdateUser_users_ok user_setters_users_ok CreateUserWithEnabled_users_ok CreateUser_users_ok
  DeleteUser_users_ok migrate_users_users_ok UpsertUserPermission_users_ok
  UpdateUserPermission_users_ok perm_deletes_users_ok token_ops_users_ok stats_users_ok

section \<open>Lookups and the number of enabled administrators\<close>

definition admins :: "store \<Rightarrow> user_row list" where
  "admins s = tselect enabled_admin (s_users s)"

lemma CountEnabledAdmins_eq:
  "\<not> s_fault s TUsers \<Longrightarrow> CountEnabledAdmins s = Inr (int (length (admins s)))"
  by (simp add: CountEnabledAdmins_def admins_def)

text \<open>An administrator other than the updated user stays one.\<close>

lemma admins_update_other:
  assumes "a \<in> set (admins s)" "us_id a \<noteq> i"
  shows "a \<in> set (admins (s\<lparr>s_users := tupdate (\<lambda>u. us_id u = i) f (s_users s)\<rparr>))"
proof -
  have "a \<in> set (trows (s_users s))" "enabled_admin a"
    using assms(1) by (simp_all add: admins_def tselect_def)
  then have "a \<in> set (trows (tupdate (\<lambda>u. us_id u = i) f (s_users s)))"
    using assms(2) unfolding tupdate_simps set_map by (intro image_eqI[of _ _ a]) simp_all
  with \<open>enabled_admin a\<close> show ?thesis by (simp add: admins_def tselect_def)
qed

lemma admins_delete_other:
  "a \<in> set (admins s) \<Longrightarrow> us_id a \<noteq> i \<Longrightarrow>
   a \<in> set (admins (s\<lparr>s_users := tdelete (\<lambda>u. us_id u = i) (s_users s)\<rparr>))"
  by (auto simp: admins_def tselect_def table_simps)

text \<open>With two enabled administrators one of them is not the user at hand.\<close>

lemma two_admins_other:
  assumes "users_ok s" "1 < length (admins s)"
  shows "\<exists>a \<in> set (admins s). us_id a \<noteq> i"
proof (rule ccontr)
  assume none: "\<not> ?thesis"
  then have all: "us_id a = i" if "a \<in> set (admins s)" for a using that by blast
  have d: "distinct (map us_id (admins s))"
    using table_ok_distinct[OF users_okD(1)[OF assms(1)]]
    by (simp add: admins_def tselect_def distinct_map_filter)
  have "us_id (admins s ! 0) = i" "us_id (admins s ! 1) = i"
    using assms(2) by (auto intro!: all nth_mem)
  with nth_eq_iff_index_eq[OF d, of 0 1] assms(2) show False
    by (cases "admins s") simp_all
qed

lemma admins_cong: "s_users s' = s_users s \<Longrightarrow> admins s' = admins s"
  by (simp add: admins_def)

end
