(* ===== verification/Store_Recycle.thy ===== *)
theory Store_Recycle
  imports Store_Repos_Inv
begin

text \<open>
  The history tables of \<^verbatim>\<open>store.go\<close>: recently visited repositories, the audit log and the
  recycle bin with its garbage-collection bookkeeping. Lemmas: the visit history stays within
  100 rows per user with one row per repository; the recycle bin keeps its unique key; the
  life cycle of a recycle item, with the retry threshold of \<^verbatim>\<open>MarkRecycleGCFailure\<close>.
\<close>

section \<open>Recently visited\<close>

definition recent_of :: "int \<Rightarrow> recent_row table \<Rightarrow> recent_row list" where
  "recent_of uid t = newest_first rc_at (tselect (\<lambda>r. rc_user r = uid) t)"

definition trim_recent :: "int \<Rightarrow> recent_row table \<Rightarrow> recent_row table" where
  "trim_recent uid t =
     (let keep = map rc_id (take 100 (recent_of uid t))
      in tdelete (\<lambda>r. rc_user r = uid \<and> rc_id r \<notin> set keep) t)"

definition AddRecent :: "int \<Rightarrow> int \<Rightarrow> string \<Rightarrow> string \<Rightarrow> string \<Rightarrow> store \<Rightarrow> unit sres \<times> store" where
  "AddRecent now uid repo ref action s =
     (if s_fault s TRecent then (Inl IOError, s)
      else let t1 = tdelete (\<lambda>r. rc_user r = uid \<and> rc_repo r = repo) (s_recent s);
               t2 = tinsert (\<lambda>i. \<lparr>rc_id = i, rc_user = uid, rc_repo = repo, rc_ref = ref,
                      rc_action = action, rc_at = now\<rparr>) t1
           in (Inr (), s\<lparr>s_recent := trim_recent uid t2\<rparr>))"

definition ListRecent :: "int \<Rightarrow> int \<Rightarrow> store \<Rightarrow> recent_row list sres" where
  "ListRecent uid limit s =
     (if s_fault s TRecent then Inl IOError
      else let n = (if limit \<le> 0 \<or> 200 < limit then 50 else limit)
           in Inr (take (nat n) (recent_of uid (s_recent s))))"

section \<open>Audit log\<close>

definition AddAuditWithImage ::
    "int \<Rightarrow> int \<Rightarrow> string \<Rightarrow> string \<Rightarrow> string \<Rightarrow> string \<Rightarrow> string \<Rightarrow> string \<Rightarrow> int option
     \<Rightarrow> string \<Rightarrow> store \<Rightarrow> unit sres \<times> store" where
  "AddAuditWithImage now uid action repo ref digest status detail imageID snap s =
     (if s_fault s TAudit then (Inl IOError, s)
      else if (case imageID of None \<Rightarrow> False | Some i \<Rightarrow> \<not> thas (\<lambda>im. im_id im = i) (s_images s))
      then (Inl FKViolation, s)
      else (Inr (), s\<lparr>s_audit := tinsert (\<lambda>i. \<lparr>au_id = i, au_user = uid, au_action = action,
              au_repo = repo, au_ref = ref, au_digest = digest, au_status = status,
              au_detail = detail, au_image = imageID, au_snapshot = snap, au_at = now\<rparr>)
              (s_audit s)\<rparr>))"

definition AddAudit ::
    "int \<Rightarrow> int \<Rightarrow> string \<Rightarrow> string \<Rightarrow> string \<Rightarrow> string \<Rightarrow> string \<Rightarrow> string \<Rightarrow> store
     \<Rightarrow> unit sres \<times> store" where
  "AddAudit now uid action repo ref digest status detail s =
     (if s_fault s TAudit then (Inl IOError, s)
      else (Inr (), s\<lparr>s_audit := tinsert (\<lambda>i. \<lparr>au_id = i, au_user = uid, au_action = action,
              au_repo = repo, au_ref = ref, au_digest = digest, au_status = status,
              au_detail = detail, au_image = None, au_snapshot = [], au_at = now\<rparr>)
              (s_audit s)\<rparr>))"

text \<open>Each row comes with the user name of the LEFT JOIN (empty when the user is gone).\<close>

definition ListAudit :: "int \<Rightarrow> int \<Rightarrow> store \<Rightarrow> (audit_row \<times> string) list sres" where
  "ListAudit uid limit s =
     (if s_fault s TAudit \<or> s_fault s TUsers then Inl IOError
      else let n = (if limit \<le> 0 \<or> 500 < limit then 100 else limit);
               rows = newest_first au_at (tselect (\<lambda>a. uid \<le> 0 \<or> au_user a = uid) (s_audit s))
           in Inr (map (\<lambda>a. (a, case tfind (\<lambda>u. us_id u = au_user a) (s_users s) of
                        None \<Rightarrow> [] | Some u \<Rightarrow> us_name u)) (take (nat n) rows)))"

section \<open>Recycle bin\<close>

definition recycle_key :: "recycle_row \<Rightarrow> string \<times> string \<times> string" where
  "recycle_key r = (rb_repo r, rb_ref r, rb_digest r)"

abbreviation at_recycle :: "string \<times> string \<times> string \<Rightarrow> recycle_row \<Rightarrow> bool" where
  "at_recycle k r \<equiv> recycle_key r = k"

definition recycle_new ::
    "string \<times> string \<times> string \<Rightarrow> int \<times> recycle_row \<Rightarrow> int \<Rightarrow> recycle_row" where
  "recycle_new k d i = (case d of (now, item) \<Rightarrow>
     \<lparr>rb_id = i, rb_repo = fst k, rb_ref = fst (snd k), rb_digest = snd (snd k),
      rb_ctype = rb_ctype item, rb_body = rb_body item, rb_status = PendingGC,
      rb_image = rb_image item, rb_size = rb_size item, rb_attempts = 0, rb_error = [],
      rb_deleted = now, rb_restored = None\<rparr>)"

text \<open>
  The conflict clause refreshes the manifest and makes the item pending again; the deletion
  time restarts only for a restored item, and the retry counter is left as it is.
\<close>

definition recycle_set :: "int \<times> recycle_row \<Rightarrow> recycle_row \<Rightarrow> recycle_row" where
  "recycle_set d old = (case d of (now, item) \<Rightarrow>
     old\<lparr>rb_ctype := rb_ctype item, rb_body := rb_body item, rb_size := rb_size item,
         rb_status := PendingGC,
         rb_deleted := (if rb_status old = Restored then now else rb_deleted old),
         rb_restored := None, rb_image := rb_image item\<rparr>)"

definition AddRecycleItem :: "int \<Rightarrow> recycle_row \<Rightarrow> store \<Rightarrow> unit sres \<times> store" where
  "AddRecycleItem now item s =
     (if s_fault s TRecycle then (Inl IOError, s)
      else if (case rb_image item of None \<Rightarrow> False
           | Some i \<Rightarrow> \<not> thas (\<lambda>im. im_id im = i) (s_images s))
      then (Inl FKViolation, s)
      else (Inr (), s\<lparr>s_recycle := tupsert (at_recycle (recycle_key item))
              (recycle_set (now, item)) (recycle_new (recycle_key item) (now, item)) (s_recycle s)\<rparr>))"

definition delete_recycle :: "(recycle_row \<Rightarrow> bool) \<Rightarrow> store \<Rightarrow> unit sres \<times> store" where
  "delete_recycle P s =
     (if s_fault s TRecycle then (Inl IOError, s)
      else (Inr (), s\<lparr>s_recycle := tdelete P (s_recycle s)\<rparr>))"

definition update_recycle ::
    "(recycle_row \<Rightarrow> bool) \<Rightarrow> (recycle_row \<Rightarrow> recycle_row) \<Rightarrow> store \<Rightarrow> unit sres \<times> store" where
  "update_recycle P f s =
     (if s_fault s TRecycle then (Inl IOError, s)
      else (Inr (), s\<lparr>s_recycle := tupdate P f (s_recycle s)\<rparr>))"

definition DeletePendingGCByRepoRef :: "string \<Rightarrow> string \<Rightarrow> store \<Rightarrow> unit sres \<times> store" where
  "DeletePendingGCByRepoRef repo ref =
     delete_recycle (\<lambda>r. rb_status r = PendingGC \<and> rb_repo r = repo \<and> rb_ref r = ref)"

definition DeleteRecycleItem :: "int \<Rightarrow> store \<Rightarrow> unit sres \<times> store" where
  "DeleteRecycleItem i = delete_recycle (\<lambda>r. rb_id r = i)"

definition MarkRecycleRestored :: "int \<Rightarrow> int \<Rightarrow> store \<Rightarrow> unit sres \<times> store" where
  "MarkRecycleRestored now i =
     update_recycle (\<lambda>r. rb_id r = i) (\<lambda>r. r\<lparr>rb_status := Restored, rb_restored := Some now\<rparr>)"

definition MarkRecycleGCExpired :: "int \<Rightarrow> store \<Rightarrow> unit sres \<times> store" where
  "MarkRecycleGCExpired i =
     update_recycle (\<lambda>r. rb_id r = i) (\<lambda>r. r\<lparr>rb_status := GCExpired\<rparr>)"

definition MarkRecycleGCFailure :: "int \<Rightarrow> string \<Rightarrow> int \<Rightarrow> store \<Rightarrow> bool sres \<times> store" where
  "MarkRecycleGCFailure i errMsg maxAttempts s =
     (if s_fault s TRecycle then (Inl IOError, s)
      else let limit = (if maxAttempts \<le> 0 then 5 else maxAttempts);
               t1 = tupdate (\<lambda>r. rb_id r = i)
                      (\<lambda>r. r\<lparr>rb_attempts := rb_attempts r + 1, rb_error := errMsg\<rparr>) (s_recycle s);
               due = (\<lambda>r. rb_id r = i \<and> rb_status r = PendingGC \<and> limit \<le> rb_attempts r)
           in (Inr (thas due t1),
               s\<lparr>s_recycle := tupdate due (\<lambda>r. r\<lparr>rb_status := GCFailed\<rparr>) t1\<rparr>))"

definition ListRecycleItems :: "bool \<Rightarrow> int \<Rightarrow> store \<Rightarrow> recycle_row list sres" where
  "ListRecycleItems includeRestored limit s =
     (if s_fault s TRecycle then Inl IOError
      else let n = (if limit \<le> 0 \<or> 500 < limit then 100 else limit)
           in Inr (map (\<lambda>r. r\<lparr>rb_body := []\<rparr>) (take (nat n) (newest_first rb_deleted
                (tselect (\<lambda>r. includeRestored \<or>
                   rb_status r \<in> {PendingGC, GCExpired, GCFailed}) (s_recycle s))))))"

definition GetRecycleItem :: "int \<Rightarrow> store \<Rightarrow> recycle_row sres" where
  "GetRecycleItem i s =
     (if s_fault s TRecycle then Inl IOError
      else row_or_norows (tfind (\<lambda>r. rb_id r = i) (s_recycle s)))"

definition listPendingGC :: "(recycle_row \<Rightarrow> bool) \<Rightarrow> store \<Rightarrow> recycle_row list sres" where
  "listPendingGC extra s =
     (if s_fault s TRecycle then Inl IOError
      else Inr (map (\<lambda>r. r\<lparr>rb_body := []\<rparr>) (sort_key rb_deleted
             (tselect (\<lambda>r. rb_status r = PendingGC \<and> extra r) (s_recycle s)))))"

text \<open>\<^verbatim>\<open>deleted_at < datetime('now', '-N days')\<close>, in seconds.\<close>

definition ListPendingGC :: "int \<Rightarrow> int \<Rightarrow> store \<Rightarrow> recycle_row list sres" where
  "ListPendingGC now days s =
     (if days \<le> 0 then Inl (BadRetention days)
      else listPendingGC (\<lambda>r. rb_deleted r < now - days * 86400) s)"

definition ListAllPendingGC :: "store \<Rightarrow> recycle_row list sres" where
  "ListAllPendingGC s = listPendingGC (\<lambda>_. True) s"

text \<open>Pending items whose digest no live tag refers to.\<close>

definition unreferenced :: "store \<Rightarrow> recycle_row \<Rightarrow> bool" where
  "unreferenced s r \<longleftrightarrow> \<not> thas (\<lambda>im. im_digest im = rb_digest r \<and> \<not> im_deleted im) (s_images s)"

definition pending_stats :: "(recycle_row \<Rightarrow> bool) \<Rightarrow> store \<Rightarrow> (int \<times> int) sres" where
  "pending_stats P s =
     (if s_fault s TRecycle \<or> s_fault s TImages then Inl IOError
      else let rows = tselect (\<lambda>r. rb_status r = PendingGC \<and> P r \<and> unreferenced s r) (s_recycle s)
           in Inr (int (length rows), sum_list (map rb_size rows)))"

definition GetPendingGCStats :: "store \<Rightarrow> (int \<times> int) sres" where
  "GetPendingGCStats = pending_stats (\<lambda>_. True)"

definition GetRepoPendingGCStats :: "string \<Rightarrow> store \<Rightarrow> (int \<times> int) sres" where
  "GetRepoPendingGCStats repo = pending_stats (\<lambda>r. rb_repo r = repo)"

section \<open>The invariant of the history tables\<close>

interpretation recycle_table: keyed_table rb_id recycle_key at_recycle recycle_new recycle_set
  by unfold_locales (auto simp: recycle_key_def recycle_new_def recycle_set_def split: prod.splits)

definition recent_ok :: "recent_row table \<Rightarrow> bool" where
  "recent_ok t \<longleftrightarrow> table_ok rc_id t \<and> key_unique (\<lambda>r. (rc_user r, rc_repo r)) t \<and>
     (\<forall>uid. length (tselect (\<lambda>r. rc_user r = uid) t) \<le> 100)"

definition history_ok :: "store \<Rightarrow> bool" where
  "history_ok s \<longleftrightarrow> recent_ok (s_recent s) \<and> table_ok au_id (s_audit s) \<and>
     table_ok rb_id (s_recycle s) \<and> key_unique recycle_key (s_recycle s)"

lemma history_ok_empty: "history_ok empty_store"
  by (simp add: history_ok_def recent_ok_def empty_store_def tselect_def table_simps)

lemma recent_of_set: "set (recent_of uid t) = {r \<in> set (trows t). rc_user r = uid}"
  by (auto simp: recent_of_def newest_first_def tselect_def)

lemma recent_of_length: "length (recent_of uid t) = length (tselect (\<lambda>r. rc_user r = uid) t)"
  by (simp add: recent_of_def newest_first_def)

lemma trim_recent_ids:
  assumes "table_ok rc_id t"
  shows "length (tselect (\<lambda>r. rc_user r = uid) (trim_recent uid t)) \<le> 100"
proof -
  let ?keep = "set (map rc_id (take 100 (recent_of uid t)))"
  let ?rows = "tselect (\<lambda>r. rc_user r = uid) (trim_recent uid t)"
  have sub: "set (map rc_id ?rows) \<subseteq> ?keep"
    by (auto simp: trim_recent_def Let_def tselect_def table_simps)
  have "distinct (map rc_id ?rows)"
    using table_ok_distinct[OF assms]
    by (simp add: trim_recent_def Let_def tselect_def table_simps distinct_map_filter)
  then have "length ?rows = card (set (map rc_id ?rows))"
    by (metis distinct_card length_map)
  also have "\<dots> \<le> card ?keep" by (rule card_mono[OF _ sub]) simp
  also have "\<dots> \<le> length (take 100 (recent_of uid t))" by (metis card_length length_map)
  finally show ?thesis by simp
qed

lemma trim_recent_other:
  "uid' \<noteq> uid \<Longrightarrow> tselect (\<lambda>r. rc_user r = uid') (trim_recent uid t) = tselect (\<lambda>r. rc_user r = uid') t"
  by (auto simp: trim_recent_def Let_def tselect_def table_simps intro: filter_cong)

lemma tselect_delete_other:
  "(\<And>r. P r \<Longrightarrow> \<not> Q r) \<Longrightarrow> tselect P (tdelete Q t) = tselect P t"
  by (auto simp: tselect_def table_simps intro: filter_cong)

lemma AddRecent_recent_ok:
  assumes ok: "recent_ok (s_recent s)"
  shows "recent_ok (s_recent (snd (AddRecent now uid repo ref action s)))"
proof (cases "s_fault s TRecent")
  case True
  with ok show ?thesis by (simp add: AddRecent_def)
next
  case False
  let ?mk = "\<lambda>i. \<lparr>rc_id = i, rc_user = uid, rc_repo = repo, rc_ref = ref, rc_action = action, rc_at = now\<rparr>"
  let ?t1 = "tdelete (\<lambda>r. rc_user r = uid \<and> rc_repo r = repo) (s_recent s)"
  let ?t2 = "tinsert ?mk ?t1"
  let ?key = "\<lambda>r. (rc_user r, rc_repo r)"
  have t1: "table_ok rc_id ?t1" "key_unique ?key ?t1"
    using ok by (auto simp: recent_ok_def table_ok_delete key_unique_delete)
  have "\<not> thas (\<lambda>r. ?key r = ?key (?mk (tseq ?t1 + 1))) ?t1"
    by (auto simp: thas_iff table_simps)
  then have t2: "table_ok rc_id ?t2" "key_unique ?key ?t2"
    using key_unique_insert[OF t1(2), of ?mk] table_ok_insert[OF t1(1), of ?mk] by auto
  have "table_ok rc_id (trim_recent uid ?t2)" "key_unique ?key (trim_recent uid ?t2)"
    using t2 by (simp_all add: trim_recent_def Let_def table_ok_delete key_unique_delete)
  moreover have "length (tselect (\<lambda>r. rc_user r = u) (trim_recent uid ?t2)) \<le> 100" for u
  proof (cases "u = uid")
    case True
    with trim_recent_ids[OF t2(1)] show ?thesis by simp
  next
    case other: False
    then have "tselect (\<lambda>r. rc_user r = u) (trim_recent uid ?t2) = tselect (\<lambda>r. rc_user r = u) (s_recent s)"
      using tselect_delete_other[of "\<lambda>r. rc_user r = u" "\<lambda>r. rc_user r = uid \<and> rc_repo r = repo" "s_recent s"]
      by (auto simp: trim_recent_other) (simp add: tselect_def table_simps)
    with ok show ?thesis by (simp add: recent_ok_def)
  qed
  ultimately show ?thesis using False by (simp add: AddRecent_def Let_def recent_ok_def)
qed

lemma AddRecent_frame:
  "snd (AddRecent now uid repo ref action s) =
   s\<lparr>s_recent := s_recent (snd (AddRecent now uid repo ref action s))\<rparr>"
  by (simp add: AddRecent_def Let_def)

lemma AddRecent_history_ok: "history_ok s \<Longrightarrow> history_ok (snd (AddRecent now uid repo ref action s))"
  using AddRecent_recent_ok[of s now uid repo ref action]
  by (subst AddRecent_frame) (simp add: history_ok_def)

lemma audit_history_ok:
  assumes "history_ok s"
  shows "history_ok (snd (AddAudit now uid ac rp rf dg st dt s))"
    "history_ok (snd (AddAuditWithImage now uid ac rp rf dg st dt im sn s))"
  using assms by (auto simp: history_ok_def AddAudit_def AddAuditWithImage_def intro!: table_ok_insert)

lemma AddRecycleItem_history_ok: "history_ok s \<Longrightarrow> history_ok (snd (AddRecycleItem now item s))"
  by (auto simp: history_ok_def AddRecycleItem_def
      intro!: recycle_table.put_table_ok recycle_table.put_key_unique)

lemma delete_recycle_history_ok: "history_ok s \<Longrightarrow> history_ok (snd (delete_recycle P s))"
  by (auto simp: history_ok_def delete_recycle_def table_ok_delete key_unique_delete)

lemma update_recycle_history_ok:
  assumes "history_ok s" "\<And>r. rb_id (f r) = rb_id r" "\<And>r. recycle_key (f r) = recycle_key r"
  shows "history_ok (snd (update_recycle P f s))"
  using assms by (auto simp: history_ok_def update_recycle_def intro!: table_ok_update key_unique_update)

lemma MarkRecycleGCFailure_history_ok:
  "history_ok s \<Longrightarrow> history_ok (snd (MarkRecycleGCFailure i e m s))"
  by (auto simp: history_ok_def MarkRecycleGCFailure_def Let_def recycle_key_def
      intro!: table_ok_update key_unique_update)

lemma recycle_ops_history_ok:
  assumes "history_ok s"
  shows "history_ok (snd (DeletePendingGCByRepoRef repo ref s))"
    "history_ok (snd (DeleteRecycleItem i s))" "history_ok (snd (MarkRecycleRestored now i s))"
    "history_ok (snd (MarkRecycleGCExpired i s))"
  using assms
  by (simp_all add: DeletePendingGCByRepoRef_def DeleteRecycleItem_def MarkRecycleRestored_def
      MarkRecycleGCExpired_def delete_recycle_history_ok update_recycle_history_ok recycle_key_def)

text \<open>Setting image references to NULL does not touch the keys of the history tables.\<close>

lemma delete_images_history_ok: "history_ok s \<Longrightarrow> history_ok (delete_images P s)"
  by (auto simp: history_ok_def delete_images_def Let_def recycle_key_def
      intro!: table_ok_update key_unique_update)

section \<open>References to images\<close>

lemma repos_ok_audit:
  assumes "repos_ok s" "\<And>a. a \<in> set (trows t) \<Longrightarrow> ref_ok s (au_image a)"
  shows "repos_ok (s\<lparr>s_audit := t\<rparr>)"
  using assms by (auto simp: repos_ok_def ids_ok_def keys_ok_def fks_ok_def ref_ok_def)

lemma repos_ok_recycle:
  assumes "repos_ok s" "\<And>r. r \<in> set (trows t) \<Longrightarrow> ref_ok s (rb_image r)"
  shows "repos_ok (s\<lparr>s_recycle := t\<rparr>)"
  using assms by (auto simp: repos_ok_def ids_ok_def keys_ok_def fks_ok_def ref_ok_def)

lemma repos_ok_refs:
  assumes "repos_ok s"
  shows "a \<in> set (trows (s_audit s)) \<Longrightarrow> ref_ok s (au_image a)"
    "r \<in> set (trows (s_recycle s)) \<Longrightarrow> ref_ok s (rb_image r)"
  using assms by (auto simp: repos_ok_def fks_ok_def)

lemma audit_repos_ok:
  assumes "repos_ok s"
  shows "repos_ok (snd (AddAudit now uid ac rp rf dg st dt s))"
    "repos_ok (snd (AddAuditWithImage now uid ac rp rf dg st dt im sn s))"
  using assms repos_ok_refs(1)[OF assms]
  by (auto simp: AddAudit_def AddAuditWithImage_def table_simps ref_ok_def
      intro!: repos_ok_audit split: option.splits)

lemma delete_recycle_repos_ok: "repos_ok s \<Longrightarrow> repos_ok (snd (delete_recycle P s))"
  by (auto simp: delete_recycle_def table_simps repos_ok_refs intro!: repos_ok_recycle)

lemma update_recycle_repos_ok:
  assumes "repos_ok s" "\<And>r. rb_image (f r) = rb_image r"
  shows "repos_ok (snd (update_recycle P f s))"
  using assms
  by (auto simp: update_recycle_def repos_ok_refs intro!: repos_ok_recycle dest!: in_update)

lemma MarkRecycleGCFailure_repos_ok:
  "repos_ok s \<Longrightarrow> repos_ok (snd (MarkRecycleGCFailure i e m s))"
  by (auto simp: MarkRecycleGCFailure_def Let_def repos_ok_refs intro!: repos_ok_recycle dest!: in_update)

lemma AddRecycleItem_repos_ok:
  assumes ok: "repos_ok s"
  shows "repos_ok (snd (AddRecycleItem now item s))"
proof (cases "s_fault s TRecycle \<or> \<not> ref_ok s (rb_image item)")
  case True
  with ok show ?thesis by (auto simp: AddRecycleItem_def ref_ok_def split: option.splits)
next
  case False
  let ?t = "tupsert (at_recycle (recycle_key item)) (recycle_set (now, item))
     (recycle_new (recycle_key item) (now, item)) (s_recycle s)"
  have "ref_ok s (rb_image r)" if "r \<in> set (trows ?t)" for r
    using recycle_table.put_rows[OF that] repos_ok_refs(2)[OF ok] False
    by (auto simp: recycle_set_def recycle_new_def)
  with ok have "repos_ok (s\<lparr>s_recycle := ?t\<rparr>)" by (auto intro: repos_ok_recycle)
  with ok show ?thesis by (auto simp: AddRecycleItem_def)
qed

lemma recycle_ops_repos_ok:
  assumes "repos_ok s"
  shows "repos_ok (snd (DeletePendingGCByRepoRef repo ref s))"
    "repos_ok (snd (DeleteRecycleItem i s))" "repos_ok (snd (MarkRecycleRestored now i s))"
    "repos_ok (snd (MarkRecycleGCExpired i s))"
  using assms
  by (simp_all add: DeletePendingGCByRepoRef_def DeleteRecycleItem_def MarkRecycleRestored_def
      MarkRecycleGCExpired_def delete_recycle_repos_ok update_recycle_repos_ok)

section \<open>The life cycle of an item\<close>

definition recycle_of :: "int \<Rightarrow> store \<Rightarrow> recycle_row option" where
  "recycle_of i s = tfind (\<lambda>r. rb_id r = i) (s_recycle s)"

lemma MarkRecycleGCFailure_item:
  assumes "\<not> s_fault s TRecycle" "recycle_of i s = Some r"
  shows "recycle_of i (snd (MarkRecycleGCFailure i e m s)) =
    Some (let a = rb_attempts r + 1; limit = (if m \<le> 0 then 5 else m)
          in r\<lparr>rb_attempts := a, rb_error := e,
               rb_status := (if rb_status r = PendingGC \<and> limit \<le> a then GCFailed else rb_status r)\<rparr>)"
proof -
  have "rb_id r = i" using assms(2) by (auto simp: recycle_of_def dest: tfind_SomeD)
  with assms show ?thesis
    by (simp add: MarkRecycleGCFailure_def Let_def recycle_of_def tfind_update)
qed

lemma MarkRecycleGCFailure_result:
  assumes "history_ok s" "\<not> s_fault s TRecycle" "recycle_of i s = Some r"
  shows "fst (MarkRecycleGCFailure i e m s) =
    Inr (rb_status r = PendingGC \<and> (if m \<le> 0 then 5 else m) \<le> rb_attempts r + 1)"
proof -
  have r: "r \<in> set (trows (s_recycle s))" "rb_id r = i"
    using assms(3) by (auto simp: recycle_of_def dest: tfind_SomeD)
  have only: "q = r" if "q \<in> set (trows (s_recycle s))" "rb_id q = i" for q
    using assms(1) that r table_ok_same_id[of rb_id "s_recycle s" q r] by (auto simp: history_ok_def)
  have ex: "(\<exists>q \<in> set (trows (s_recycle s)). rb_id q = i \<and> Q q) = Q r" for Q
    using only r by blast
  let ?lim = "if m \<le> 0 then 5 else m :: int"
  let ?t1 = "tupdate (\<lambda>r. rb_id r = i) (\<lambda>r. r\<lparr>rb_attempts := rb_attempts r + 1, rb_error := e\<rparr>) (s_recycle s)"
  have "thas (\<lambda>r. rb_id r = i \<and> rb_status r = PendingGC \<and> ?lim \<le> rb_attempts r) ?t1 =
    (\<exists>q \<in> set (trows (s_recycle s)). rb_id q = i \<and> (rb_status q = PendingGC \<and> ?lim \<le> rb_attempts q + 1))"
    unfolding thas_update by (rule bex_cong[OF refl]) simp
  also have "\<dots> = (rb_status r = PendingGC \<and> ?lim \<le> rb_attempts r + 1)" by (rule ex)
  finally show ?thesis using assms(2) by (simp only: MarkRecycleGCFailure_def Let_def if_False fst_conv)
qed

lemma listPendingGC_set:
  "listPendingGC P s = Inr rows \<Longrightarrow>
   set rows = (\<lambda>r. r\<lparr>rb_body := []\<rparr>) ` {r \<in> set (trows (s_recycle s)). rb_status r = PendingGC \<and> P r}"
  by (auto simp: listPendingGC_def tselect_def split: if_splits)

lemma ListPendingGC_age:
  assumes "ListPendingGC now days s = Inr rows" "r \<in> set rows"
  shows "0 < days \<and> rb_status r = PendingGC \<and> rb_deleted r < now - days * 86400"
  using assms listPendingGC_set[of "\<lambda>r. rb_deleted r < now - days * 86400" s rows]
  by (auto simp: ListPendingGC_def split: if_splits)

end
