(* ===== verification/Store_Invariant.thy ===== *)
theory Store_Invariant
  imports Store_Settings Store_Users_Inv Store_Recycle
begin

text \<open>
  The whole store: every mutating method of \<^verbatim>\<open>store.go\<close> as one constructor of an operation type, the
  run of a sequence of them (\<open>run_ops\<close>), and the invariant \<open>store_ok\<close> that every run keeps,
  whatever the arguments, the clock and the outcome of each call.
\<close>

section \<open>Operations as data\<close>

datatype settings_op =
  OpSetSetting string string
| OpGetSetting string
| OpSettings

datatype repo_op =
  OpUpsertNamespace int string
| OpDeleteNamespace int
| OpUpsertRepository int int string
| OpSetAnonymousPull string string bool
| OpSetPushCreate string string int
| OpSetKeepCount string string int
| OpSetProtection string string int
| OpSetOverwrite string string int
| OpDeleteRepository int
| OpUpsertImage int image_row
| OpSyncImage int image_row
| OpSetFavorite int int string bool string
| OpSoftDelete int int string
| OpSoftDeleteDigest int int string

datatype history_op =
  OpAddRecent int int string string string
| OpAddAudit int int string string string string string string
| OpAddAuditImage int int string string string string string string "int option" string
| OpAddRecycle int recycle_row
| OpDeletePending string string
| OpDeleteRecycle int
| OpMarkRestored int int
| OpMarkExpired int
| OpMarkFailure int string int

datatype user_op =
  OpCreateUser int string string bool bool bool
| OpUpdateUser int "string \<Rightarrow> string option" int string string bool bool
| OpDeleteUser int
| OpUpdatePassword int "string \<Rightarrow> string option" int string
| OpSetHash int int string
| OpSetEnabled int int bool
| OpMigrateUsers int "string option"
| OpUpdatePerm int string bool bool
| OpUpsertPerm int int perm_row
| OpDeletePerm int
| OpDeletePermPattern int string
| OpCreateToken int token_row
| OpDeleteToken int
| OpTouchToken int int
| OpPull int string
| OpPush int string

datatype misc_op =
  OpCreateRule int rule_row
| OpDeleteRule int
| OpSetDescription string string
| OpCreateHook int hook_row
| OpUpdateHook hook_row
| OpDeleteHook int

datatype store_op =
  SettingsOp settings_op | RepoOp repo_op | HistoryOp history_op | UserOp user_op | MiscOp misc_op

fun exec_settings :: "settings_op \<Rightarrow> store \<Rightarrow> store" where
  "exec_settings (OpSetSetting k v) s = snd (SetSetting k v s)"
| "exec_settings (OpGetSetting k) s = snd (GetSetting k s)"
| "exec_settings OpSettings s = snd (Settings s)"

fun exec_repo :: "repo_op \<Rightarrow> store \<Rightarrow> store" where
  "exec_repo (OpUpsertNamespace now n) s = snd (UpsertNamespace now n s)"
| "exec_repo (OpDeleteNamespace i) s = snd (DeleteNamespace i s)"
| "exec_repo (OpUpsertRepository now i n) s = snd (UpsertRepository now i n s)"
| "exec_repo (OpSetAnonymousPull n r b) s = snd (SetRepositoryAnonymousPull n r b s)"
| "exec_repo (OpSetPushCreate n r v) s = snd (SetRepositoryPushCreate n r v s)"
| "exec_repo (OpSetKeepCount n r v) s = snd (SetRepositoryRetentionKeepCount n r v s)"
| "exec_repo (OpSetProtection n r v) s = snd (SetRepositoryProtectionMode n r v s)"
| "exec_repo (OpSetOverwrite n r v) s = snd (SetRepositoryOverwriteAction n r v s)"
| "exec_repo (OpDeleteRepository i) s = snd (DeleteRepository i s)"
| "exec_repo (OpUpsertImage now im) s = snd (UpsertImage now im s)"
| "exec_repo (OpSyncImage now im) s = snd (SyncImage now im s)"
| "exec_repo (OpSetFavorite now i t f n) s = snd (SetImageFavorite now i t f n s)"
| "exec_repo (OpSoftDelete now i t) s = snd (SoftDeleteImage now i t s)"
| "exec_repo (OpSoftDeleteDigest now i d) s = snd (SoftDeleteImageByDigest now i d s)"

fun exec_history :: "history_op \<Rightarrow> store \<Rightarrow> store" where
  "exec_history (OpAddRecent now u rp rf a) s = snd (AddRecent now u rp rf a s)"
| "exec_history (OpAddAudit now u a rp rf d st dt) s = snd (AddAudit now u a rp rf d st dt s)"
| "exec_history (OpAddAuditImage now u a rp rf d st dt im sn) s =
     snd (AddAuditWithImage now u a rp rf d st dt im sn s)"
| "exec_history (OpAddRecycle now it) s = snd (AddRecycleItem now it s)"
| "exec_history (OpDeletePending rp rf) s = snd (DeletePendingGCByRepoRef rp rf s)"
| "exec_history (OpDeleteRecycle i) s = snd (DeleteRecycleItem i s)"
| "exec_history (OpMarkRestored now i) s = snd (MarkRecycleRestored now i s)"
| "exec_history (OpMarkExpired i) s = snd (MarkRecycleGCExpired i s)"
| "exec_history (OpMarkFailure i e m) s = snd (MarkRecycleGCFailure i e m s)"

fun exec_user :: "user_op \<Rightarrow> store \<Rightarrow> store" where
  "exec_user (OpCreateUser now n h a e m) s = snd (CreateUserWithEnabled now n h a e m s)"
| "exec_user (OpUpdateUser now hash i n p a e) s = snd (UpdateUser now hash i n p a e s)"
| "exec_user (OpDeleteUser i) s = snd (DeleteUser i s)"
| "exec_user (OpUpdatePassword now hash i p) s = snd (UpdateUserPassword now hash i p s)"
| "exec_user (OpSetHash now i h) s = snd (SetUserPasswordHash now i h s)"
| "exec_user (OpSetEnabled now i b) s = snd (SetUserEnabled now i b s)"
| "exec_user (OpMigrateUsers now h) s = snd (migrate_users now h s)"
| "exec_user (OpUpdatePerm i p r w) s = snd (UpdateUserPermission i p r w s)"
| "exec_user (OpUpsertPerm now rowid p) s = snd (UpsertUserPermission now rowid p s)"
| "exec_user (OpDeletePerm i) s = snd (DeleteUserPermission i s)"
| "exec_user (OpDeletePermPattern u p) s = snd (DeleteUserPermissionByPattern u p s)"
| "exec_user (OpCreateToken now t) s = snd (CreateAPIToken now t s)"
| "exec_user (OpDeleteToken i) s = snd (DeleteAPIToken i s)"
| "exec_user (OpTouchToken now i) s = snd (TouchAPIToken now i s)"
| "exec_user (OpPull now r) s = snd (IncrementRepoPull now r s)"
| "exec_user (OpPush now r) s = snd (IncrementRepoPush now r s)"

fun exec_misc :: "misc_op \<Rightarrow> store \<Rightarrow> store" where
  "exec_misc (OpCreateRule now r) s = snd (CreateImmutableTagRule now r s)"
| "exec_misc (OpDeleteRule i) s = snd (DeleteImmutableTagRule i s)"
| "exec_misc (OpSetDescription r d) s = snd (SetRepoDescription r d s)"
| "exec_misc (OpCreateHook now w) s = snd (CreateWebhook now w s)"
| "exec_misc (OpUpdateHook w) s = snd (UpdateWebhook w s)"
| "exec_misc (OpDeleteHook i) s = snd (DeleteWebhook i s)"

fun exec_op :: "store_op \<Rightarrow> store \<Rightarrow> store" where
  "exec_op (SettingsOp op) s = exec_settings op s"
| "exec_op (RepoOp op) s = exec_repo op s"
| "exec_op (HistoryOp op) s = exec_history op s"
| "exec_op (UserOp op) s = exec_user op s"
| "exec_op (MiscOp op) s = exec_misc op s"

definition run_ops :: "store_op list \<Rightarrow> store \<Rightarrow> store" where
  "run_ops ops s = foldl (\<lambda>s op. exec_op op s) s ops"

lemma run_ops_simps [simp]:
  "run_ops [] s = s" "run_ops (op # ops) s = run_ops ops (exec_op op s)"
  "run_ops (xs @ ys) s = run_ops ys (run_ops xs s)"
  by (simp_all add: run_ops_def)

section \<open>Frames\<close>

text \<open>Which group of tables an operation leaves alone.\<close>

definition same_repos :: "store \<Rightarrow> store \<Rightarrow> bool" where
  "same_repos s s' \<longleftrightarrow> s_namespaces s' = s_namespaces s \<and> s_repos s' = s_repos s \<and>
     s_images s' = s_images s \<and> s_audit s' = s_audit s \<and> s_recycle s' = s_recycle s"

definition same_users :: "store \<Rightarrow> store \<Rightarrow> bool" where
  "same_users s s' \<longleftrightarrow> s_users s' = s_users s \<and> s_perms s' = s_perms s \<and>
     s_tokens s' = s_tokens s \<and> s_stats s' = s_stats s"

definition same_history :: "store \<Rightarrow> store \<Rightarrow> bool" where
  "same_history s s' \<longleftrightarrow> s_recent s' = s_recent s \<and> s_audit s' = s_audit s \<and>
     s_recycle s' = s_recycle s"

definition same_settings :: "store \<Rightarrow> store \<Rightarrow> bool" where
  "same_settings s s' \<longleftrightarrow> s_settings s' = s_settings s \<and> s_cache s' = s_cache s"

lemmas same_defs = same_repos_def same_users_def same_history_def same_settings_def

lemmas settings_op_defs = SetSetting_def GetSetting_def Settings_def

lemmas repo_op_defs = UpsertNamespace_def UpsertRepository_def update_repo_def repo_setter_defs
  UpsertImage_def SyncImage_def update_images_def SetImageFavorite_def SoftDeleteImage_def
  SoftDeleteImageByDigest_def

lemmas history_op_defs = AddRecent_def AddAudit_def AddAuditWithImage_def AddRecycleItem_def
  delete_recycle_def update_recycle_def DeletePendingGCByRepoRef_def DeleteRecycleItem_def
  MarkRecycleRestored_def MarkRecycleGCExpired_def MarkRecycleGCFailure_def

lemmas user_op_defs = CreateUserWithEnabled_def UpdateUser_def rename_user_def update_user_def
  DeleteUser_def UpdateUserPassword_def SetUserPasswordHash_def SetUserEnabled_def
  seed_admin_def migrate_users_def UpdateUserPermission_def UpsertUserPermission_def
  DeleteUserPermission_def DeleteUserPermissionByPattern_def CreateAPIToken_def
  DeleteAPIToken_def TouchAPIToken_def IncrementRepoPull_def IncrementRepoPush_def

lemmas misc_op_defs = CreateImmutableTagRule_def DeleteImmutableTagRule_def SetRepoDescription_def
  CreateWebhook_def UpdateWebhook_def DeleteWebhook_def

lemma delete_images_cache [simp]: "s_cache (delete_images P s) = s_cache s"
  "s_descr (delete_images P s) = s_descr s"
  by (simp_all add: delete_images_def Let_def)

lemma repo_same_settings: "same_settings s (exec_repo op s)"
  by (cases op) (simp_all add: same_settings_def repo_op_defs DeleteNamespace_def
      DeleteRepository_def Let_def split: option.splits sum.splits)

lemma history_same_settings: "same_settings s (exec_history op s)"
  by (cases op) (simp_all add: same_settings_def history_op_defs Let_def)

lemma user_same_settings: "same_settings s (exec_user op s)"
  by (cases op) (simp_all add: same_settings_def user_op_defs Let_def
      split: option.splits sum.splits bool.splits)

lemma misc_same_settings: "same_settings s (exec_misc op s)"
  by (cases op) (simp_all add: same_settings_def misc_op_defs)

lemma settings_same_repos: "same_repos s (exec_settings op s)"
  by (cases op) (simp_all add: same_repos_def settings_op_defs split: option.splits sum.splits)

lemma user_same_repos: "same_repos s (exec_user op s)"
  by (cases op) (simp_all add: same_repos_def user_op_defs Let_def
      split: option.splits sum.splits bool.splits)

lemma misc_same_repos: "same_repos s (exec_misc op s)"
  by (cases op) (simp_all add: same_repos_def misc_op_defs)

lemma settings_same_users: "same_users s (exec_settings op s)"
  by (cases op) (simp_all add: same_users_def settings_op_defs split: option.splits sum.splits)

lemma repo_same_users: "same_users s (exec_repo op s)"
  by (cases op) (simp_all add: same_users_def repo_op_defs DeleteNamespace_def
      DeleteRepository_def Let_def split: option.splits sum.splits)

lemma history_same_users: "same_users s (exec_history op s)"
  by (cases op) (simp_all add: same_users_def history_op_defs Let_def)

lemma misc_same_users: "same_users s (exec_misc op s)"
  by (cases op) (simp_all add: same_users_def misc_op_defs)

lemma settings_same_history: "same_history s (exec_settings op s)"
  by (cases op) (simp_all add: same_history_def settings_op_defs split: option.splits sum.splits)

lemma user_same_history: "same_history s (exec_user op s)"
  by (cases op) (simp_all add: same_history_def user_op_defs Let_def
      split: option.splits sum.splits bool.splits)

lemma misc_same_history: "same_history s (exec_misc op s)"
  by (cases op) (simp_all add: same_history_def misc_op_defs)

section \<open>The invariant\<close>

definition store_ok :: "store \<Rightarrow> bool" where
  "store_ok s \<longleftrightarrow> repos_ok s \<and> users_ok s \<and> history_ok s \<and> cache_ok s \<and> settings_valid s"

lemma store_ok_empty: "store_ok empty_store"
  by (simp add: store_ok_def repos_ok_empty users_ok_empty history_ok_empty)
    (simp add: cache_ok_def settings_valid_def empty_store_def)

text \<open>Each part of the invariant looks only at its own tables.\<close>

lemma same_repos_ok: "same_repos s s' \<Longrightarrow> repos_ok s \<Longrightarrow> repos_ok s'"
  using repos_ok_cong[of s' s] by (simp add: same_repos_def)

lemma same_users_ok: "same_users s s' \<Longrightarrow> users_ok s \<Longrightarrow> users_ok s'"
  using users_ok_cong[of s' s] by (simp add: same_users_def)

lemma same_history_ok: "same_history s s' \<Longrightarrow> history_ok s \<Longrightarrow> history_ok s'"
  by (simp add: same_history_def history_ok_def)

definition settings_ok :: "store \<Rightarrow> bool" where
  "settings_ok s \<longleftrightarrow> cache_ok s \<and> settings_valid s"

lemma same_settings_ok: "same_settings s s' \<Longrightarrow> settings_ok s \<Longrightarrow> settings_ok s'"
  by (simp add: same_settings_def settings_ok_def cache_ok_def settings_valid_def setting_of_def)

lemma GetSetting_settings_valid: "settings_valid s \<Longrightarrow> settings_valid (snd (GetSetting k s))"
  by (simp add: settings_valid_def same_data_fields[OF GetSetting_same_data])

lemma Settings_settings_valid: "settings_valid s \<Longrightarrow> settings_valid (snd (Settings s))"
  by (simp add: settings_valid_def Settings_def)

lemma exec_settings_ok: "settings_ok s \<Longrightarrow> settings_ok (exec_settings op s)"
  by (cases op) (simp_all add: settings_ok_def SetSetting_cache_ok SetSetting_settings_valid
      GetSetting_cache_ok GetSetting_settings_valid Settings_cache_ok Settings_settings_valid)

lemma AddRecent_repos_ok: "repos_ok s \<Longrightarrow> repos_ok (snd (AddRecent now u rp rf a s))"
  by (subst repos_ok_cong[of _ s]) (simp_all add: AddRecent_def Let_def)

lemma exec_repo_repos_ok: "repos_ok s \<Longrightarrow> repos_ok (exec_repo op s)"
  by (cases op) (simp_all add: repos_ok_intros)

lemma exec_history_repos_ok: "repos_ok s \<Longrightarrow> repos_ok (exec_history op s)"
  by (cases op) (simp_all add: AddRecent_repos_ok audit_repos_ok
      AddRecycleItem_repos_ok recycle_ops_repos_ok MarkRecycleGCFailure_repos_ok)

lemma exec_user_users_ok: "users_ok s \<Longrightarrow> users_ok (exec_user op s)"
  by (cases op) (simp_all add: users_ok_intros)

lemma exec_history_history_ok: "history_ok s \<Longrightarrow> history_ok (exec_history op s)"
  by (cases op) (simp_all add: AddRecent_history_ok audit_history_ok AddRecycleItem_history_ok
      recycle_ops_history_ok MarkRecycleGCFailure_history_ok)

lemma exec_repo_history_ok: "history_ok s \<Longrightarrow> history_ok (exec_repo op s)"
proof -
  assume ok: "history_ok s"
  have "same_history s (exec_repo op s)"
    if "\<And>i. op \<noteq> OpDeleteNamespace i" "\<And>i. op \<noteq> OpDeleteRepository i"
    using that by (cases op) (auto simp: same_history_def repo_op_defs Let_def)
  moreover have "history_ok (exec_repo (OpDeleteNamespace i) s)"
    "history_ok (exec_repo (OpDeleteRepository i) s)" for i
    using ok delete_images_history_ok[OF ok]
    by (auto simp: DeleteNamespace_def DeleteRepository_def Let_def history_ok_def)
  ultimately show ?thesis using ok same_history_ok by (metis)
qed

lemma store_ok_parts:
  "store_ok s \<longleftrightarrow> repos_ok s \<and> users_ok s \<and> history_ok s \<and> settings_ok s"
  by (simp add: store_ok_def settings_ok_def)

lemma exec_store_ok: "store_ok s \<Longrightarrow> store_ok (exec_op op s)"
  by (cases op)
    (auto simp: store_ok_parts
      intro: exec_settings_ok exec_repo_repos_ok exec_history_repos_ok exec_user_users_ok
        exec_history_history_ok exec_repo_history_ok
        same_settings_ok[OF repo_same_settings] same_settings_ok[OF history_same_settings]
        same_settings_ok[OF user_same_settings] same_settings_ok[OF misc_same_settings]
        same_repos_ok[OF settings_same_repos] same_repos_ok[OF user_same_repos]
        same_repos_ok[OF misc_same_repos] same_users_ok[OF settings_same_users]
        same_users_ok[OF repo_same_users] same_users_ok[OF history_same_users]
        same_users_ok[OF misc_same_users] same_history_ok[OF settings_same_history]
        same_history_ok[OF user_same_history] same_history_ok[OF misc_same_history])

lemma run_store_ok: "store_ok s \<Longrightarrow> store_ok (run_ops ops s)"
  by (induction ops arbitrary: s) (simp_all add: exec_store_ok)

section \<open>Reachable stores\<close>

text \<open>
  A handler changes the store only through these methods: its final store is reachable from
  the one it started in, so it keeps the invariant.
\<close>

definition reaches :: "store \<Rightarrow> store \<Rightarrow> bool" where
  "reaches s s' \<longleftrightarrow> (\<exists>ops. s' = run_ops ops s)"

lemma reaches_refl [simp, intro]: "reaches s s"
  unfolding reaches_def by (rule exI[of _ "[]"]) simp

lemma reaches_trans: "reaches s s' \<Longrightarrow> reaches s' s'' \<Longrightarrow> reaches s s''"
  unfolding reaches_def by (metis run_ops_simps(3))

lemma reaches_exec: "reaches s (exec_op op s)"
  unfolding reaches_def by (rule exI[of _ "[op]"]) simp

lemma reaches_store_ok: "reaches s s' \<Longrightarrow> store_ok s \<Longrightarrow> store_ok s'"
  by (auto simp: reaches_def run_store_ok)

lemma reaches_ops [intro, simp]:
  "reaches s (snd (SetSetting k v s))" "reaches s (snd (GetSetting k s))" "reaches s (snd (Settings s))"
  "reaches s (snd (UpsertNamespace now n s))" "reaches s (snd (DeleteNamespace i s))"
  "reaches s (snd (UpsertRepository now i n s))" "reaches s (snd (DeleteRepository i s))"
  "reaches s (snd (SetRepositoryAnonymousPull a b c s))" "reaches s (snd (SetRepositoryPushCreate a b v2 s))"
  "reaches s (snd (SetRepositoryRetentionKeepCount a b v2 s))"
  "reaches s (snd (SetRepositoryProtectionMode a b v2 s))"
  "reaches s (snd (SetRepositoryOverwriteAction a b v2 s))"
  "reaches s (snd (UpsertImage now im s))" "reaches s (snd (SyncImage now im s))"
  "reaches s (snd (SetImageFavorite now i t c nt s))" "reaches s (snd (SoftDeleteImage now i t s))"
  "reaches s (snd (SoftDeleteImageByDigest now i t s))"
  "reaches s (snd (AddRecent now i rp rf ac s))" "reaches s (snd (AddAudit now i ac rp rf dg st dt s))"
  "reaches s (snd (AddAuditWithImage now i ac rp rf dg st dt imo sn s))"
  "reaches s (snd (AddRecycleItem now it s))" "reaches s (snd (DeletePendingGCByRepoRef rp rf s))"
  "reaches s (snd (DeleteRecycleItem i s))" "reaches s (snd (MarkRecycleRestored now i s))"
  "reaches s (snd (MarkRecycleGCExpired i s))" "reaches s (snd (MarkRecycleGCFailure i em mx s))"
  "reaches s (snd (CreateUserWithEnabled now un h ad en mc s))"
  "reaches s (snd (UpdateUser now hash i un pw ad en s))" "reaches s (snd (DeleteUser i s))"
  "reaches s (snd (UpdateUserPassword now hash i pw s))" "reaches s (snd (SetUserPasswordHash now i h s))"
  "reaches s (snd (SetUserEnabled now i en s))" "reaches s (snd (migrate_users now ho s))"
  "reaches s (snd (UpdateUserPermission i pt rd wr s))" "reaches s (snd (UpsertUserPermission now rid p s))"
  "reaches s (snd (DeleteUserPermission i s))" "reaches s (snd (DeleteUserPermissionByPattern i pt s))"
  "reaches s (snd (CreateImmutableTagRule now ru s))" "reaches s (snd (DeleteImmutableTagRule i s))"
  "reaches s (snd (SetRepoDescription rp ds s))" "reaches s (snd (CreateAPIToken now tk s))"
  "reaches s (snd (DeleteAPIToken i s))" "reaches s (snd (TouchAPIToken now i s))"
  "reaches s (snd (IncrementRepoPull now rp s))" "reaches s (snd (IncrementRepoPush now rp s))"
  "reaches s (snd (CreateWebhook now wh s))" "reaches s (snd (UpdateWebhook wh s))"
  "reaches s (snd (DeleteWebhook i s))"
  using reaches_exec[of s "SettingsOp (OpSetSetting k v)"] reaches_exec[of s "SettingsOp (OpGetSetting k)"]
    reaches_exec[of s "SettingsOp OpSettings"]
    reaches_exec[of s "RepoOp (OpUpsertNamespace now n)"] reaches_exec[of s "RepoOp (OpDeleteNamespace i)"]
    reaches_exec[of s "RepoOp (OpUpsertRepository now i n)"] reaches_exec[of s "RepoOp (OpDeleteRepository i)"]
    reaches_exec[of s "RepoOp (OpSetAnonymousPull a b c)"] reaches_exec[of s "RepoOp (OpSetPushCreate a b v2)"]
    reaches_exec[of s "RepoOp (OpSetKeepCount a b v2)"] reaches_exec[of s "RepoOp (OpSetProtection a b v2)"]
    reaches_exec[of s "RepoOp (OpSetOverwrite a b v2)"] reaches_exec[of s "RepoOp (OpUpsertImage now im)"]
    reaches_exec[of s "RepoOp (OpSyncImage now im)"] reaches_exec[of s "RepoOp (OpSetFavorite now i t c nt)"]
    reaches_exec[of s "RepoOp (OpSoftDelete now i t)"] reaches_exec[of s "RepoOp (OpSoftDeleteDigest now i t)"]
    reaches_exec[of s "HistoryOp (OpAddRecent now i rp rf ac)"]
    reaches_exec[of s "HistoryOp (OpAddAudit now i ac rp rf dg st dt)"]
    reaches_exec[of s "HistoryOp (OpAddAuditImage now i ac rp rf dg st dt imo sn)"]
    reaches_exec[of s "HistoryOp (OpAddRecycle now it)"] reaches_exec[of s "HistoryOp (OpDeletePending rp rf)"]
    reaches_exec[of s "HistoryOp (OpDeleteRecycle i)"] reaches_exec[of s "HistoryOp (OpMarkRestored now i)"]
    reaches_exec[of s "HistoryOp (OpMarkExpired i)"] reaches_exec[of s "HistoryOp (OpMarkFailure i em mx)"]
    reaches_exec[of s "UserOp (OpCreateUser now un h ad en mc)"]
    reaches_exec[of s "UserOp (OpUpdateUser now hash i un pw ad en)"] reaches_exec[of s "UserOp (OpDeleteUser i)"]
    reaches_exec[of s "UserOp (OpUpdatePassword now hash i pw)"] reaches_exec[of s "UserOp (OpSetHash now i h)"]
    reaches_exec[of s "UserOp (OpSetEnabled now i en)"] reaches_exec[of s "UserOp (OpMigrateUsers now ho)"]
    reaches_exec[of s "UserOp (OpUpdatePerm i pt rd wr)"] reaches_exec[of s "UserOp (OpUpsertPerm now rid p)"]
    reaches_exec[of s "UserOp (OpDeletePerm i)"] reaches_exec[of s "UserOp (OpDeletePermPattern i pt)"]
    reaches_exec[of s "MiscOp (OpCreateRule now ru)"] reaches_exec[of s "MiscOp (OpDeleteRule i)"]
    reaches_exec[of s "MiscOp (OpSetDescription rp ds)"] reaches_exec[of s "UserOp (OpCreateToken now tk)"]
    reaches_exec[of s "UserOp (OpDeleteToken i)"] reaches_exec[of s "UserOp (OpTouchToken now i)"]
    reaches_exec[of s "UserOp (OpPull now rp)"] reaches_exec[of s "UserOp (OpPush now rp)"]
    reaches_exec[of s "MiscOp (OpCreateHook now wh)"] reaches_exec[of s "MiscOp (OpUpdateHook wh)"]
    reaches_exec[of s "MiscOp (OpDeleteHook i)"]
  by simp_all

text \<open>The same facts, to go on from a store already reached.\<close>

lemmas reaches_after = reaches_ops[THEN [2] reaches_trans]

section \<open>Properties\<close>

text \<open>
  C2. Whatever methods of the store are called, with whatever arguments and in whatever
  order, starting from a fresh database: ids stay fresh and increasing, namespace names,
  (namespace, repository), (repository, tag), user names, (user, pattern) and recycle keys
  stay unique, no row refers to a missing namespace, repository, image or user, a user's
  visit history holds at most 100 repositories, the settings cache agrees with the table
  and every stored numeric setting is within its bounds.
\<close>

theorem store_invariant: "store_ok (run_ops ops empty_store)"
  by (rule run_store_ok[OF store_ok_empty])

end
