(* ===== verification/Http.thy ===== *)
theory Http
  imports Store_Invariant
begin

text \<open>
  What the handlers of \<^verbatim>\<open>backend/internal/server\<close> see of a request and what they answer. A
  request carries the user the authentication middleware put into its context (\<open>rq_user\<close>,
  None when there is none). A reply is the status with the decoded body, or the status of an
  error body, or the panic that \<^verbatim>\<open>net/http\<close> turns into a dropped connection. Headers and query
  parameters are maps that return the empty string for an absent key, as \<^verbatim>\<open>Get\<close> does.
\<close>

record request =
  rq_method :: string
  rq_path :: string
  rq_query :: "string \<Rightarrow> string"
  rq_header :: "string \<Rightarrow> string"
  rq_cookie :: "string \<rightharpoonup> string"
  rq_basic :: "(string \<times> string) option"
  rq_tls :: bool
  rq_host :: string
  rq_user :: "user_row option"

datatype 'b reply = Reply int 'b | Fail int | Panic

fun reply_status :: "'b reply \<Rightarrow> int" where
  "reply_status (Reply c _) = c"
| "reply_status (Fail c) = c"
| "reply_status Panic = 0"

definition blank_request :: request where
  "blank_request = \<lparr>rq_method = ''GET'', rq_path = ''/'', rq_query = (\<lambda>_. []), rq_header = (\<lambda>_. []),
     rq_cookie = Map.empty, rq_basic = None, rq_tls = False, rq_host = [], rq_user = None\<rparr>"

section \<open>Request helpers\<close>

definition isMutatingMethod :: "string \<Rightarrow> bool" where
  "isMutatingMethod m \<longleftrightarrow> m \<in> set [''POST'', ''PUT'', ''PATCH'', ''DELETE'']"

definition requireAdmin :: "request \<Rightarrow> bool" where
  "requireAdmin rq \<longleftrightarrow> (case rq_user rq of Some u \<Rightarrow> us_admin u | None \<Rightarrow> True)"

definition currentUserID :: "request \<Rightarrow> int" where
  "currentUserID rq = (case rq_user rq of Some u \<Rightarrow> us_id u | None \<Rightarrow> 0)"

definition currentUsername :: "request \<Rightarrow> string" where
  "currentUsername rq = (case rq_user rq of Some u \<Rightarrow> us_name u | None \<Rightarrow> [])"

text \<open>\<^verbatim>\<open>strconv.ParseInt(strings.Trim(s, "/"), 10, 64)\<close>\<close>

definition parseID :: "string \<Rightarrow> int option" where
  "parseID s = (case Atoi (Trim s ''/'') of (i, None) \<Rightarrow> Some i | (_, Some _) \<Rightarrow> None)"

text \<open>
  \<^verbatim>\<open>secureCookie\<close>, \<^verbatim>\<open>externalOrigin\<close>: \<open>external_url\<close> is the configured EXTERNAL_URL.
\<close>

definition secureCookie :: "request \<Rightarrow> bool" where
  "secureCookie rq \<longleftrightarrow> rq_tls rq \<or> EqualFold (rq_header rq ''X-Forwarded-Proto'') ''https''"

definition externalOrigin :: "string \<Rightarrow> request \<Rightarrow> string" where
  "externalOrigin external_url rq =
     (let base = TrimRight (TrimSpace external_url) ''/''
      in if base \<noteq> [] then base
         else (if secureCookie rq then ''https'' else ''http'') @ ''://'' @ rq_host rq)"

section \<open>Namespace permissions\<close>

text \<open>The test every permission check makes: the pattern itself or anything below it.\<close>

definition perm_covers :: "perm_row \<Rightarrow> string \<Rightarrow> bool" where
  "perm_covers p repo \<longleftrightarrow> repo = pm_pattern p \<or> HasPrefix repo (pm_pattern p @ ''/'')"

definition userCanAccessRepo :: "request \<Rightarrow> string \<Rightarrow> store \<Rightarrow> bool" where
  "userCanAccessRepo rq repo s =
     (case rq_user rq of
        None \<Rightarrow> True
      | Some u \<Rightarrow>
          if us_admin u then True
          else case ListUserPermissions (us_id u) s of
            Inl _ \<Rightarrow> False
          | Inr perms \<Rightarrow> list_ex (\<lambda>p. pm_read p \<and> perm_covers p repo) perms)"

definition userCanWriteRepo :: "request \<Rightarrow> string \<Rightarrow> store \<Rightarrow> bool" where
  "userCanWriteRepo rq repo s =
     (case rq_user rq of
        None \<Rightarrow> True
      | Some u \<Rightarrow>
          if us_admin u then True
          else case ListUserPermissions (us_id u) s of
            Inl _ \<Rightarrow> False
          | Inr perms \<Rightarrow> list_ex (\<lambda>p. pm_write p \<and> perm_covers p repo) perms)"

text \<open>\<^verbatim>\<open>filterVisibleNamespaces\<close>: the same test on namespace names; an error hides everything.\<close>

definition filterVisibleNamespaces ::
    "request \<Rightarrow> namespace_row list \<Rightarrow> store \<Rightarrow> namespace_row list" where
  "filterVisibleNamespaces rq nss s =
     (case rq_user rq of
        None \<Rightarrow> nss
      | Some u \<Rightarrow>
          if us_admin u then nss
          else case ListUserPermissions (us_id u) s of
            Inl _ \<Rightarrow> []
          | Inr perms \<Rightarrow>
              filter (\<lambda>n. list_ex (\<lambda>p. pm_read p \<and> perm_covers p (ns_name n)) perms) nss)"

section \<open>Who may do what\<close>

lemma ListUserPermissions_set:
  "ListUserPermissions uid s = Inr ps \<Longrightarrow>
   set ps = {p \<in> set (trows (s_perms s)). pm_user p = uid}"
  by (auto simp: ListUserPermissions_def tselect_def split: if_splits)

text \<open>What a permission table grants, as a relation on the rows.\<close>

definition granted :: "(perm_row \<Rightarrow> bool) \<Rightarrow> int \<Rightarrow> string \<Rightarrow> store \<Rightarrow> bool" where
  "granted right uid repo s \<longleftrightarrow>
     (\<exists>p \<in> set (trows (s_perms s)). pm_user p = uid \<and> right p \<and> perm_covers p repo)"

lemma userCanAccessRepo_iff:
  "userCanAccessRepo rq repo s \<longleftrightarrow> (\<forall>u. rq_user rq = Some u \<longrightarrow> us_admin u \<or>
     (\<not> s_fault s TPerms \<and> granted pm_read (us_id u) repo s))"
  by (auto simp: userCanAccessRepo_def granted_def ListUserPermissions_def tselect_def list_ex_iff
      split: option.splits)

lemma userCanWriteRepo_iff:
  "userCanWriteRepo rq repo s \<longleftrightarrow> (\<forall>u. rq_user rq = Some u \<longrightarrow> us_admin u \<or>
     (\<not> s_fault s TPerms \<and> granted pm_write (us_id u) repo s))"
  by (auto simp: userCanWriteRepo_def granted_def ListUserPermissions_def tselect_def list_ex_iff
      split: option.splits)

lemma granted_cong: "s_perms s' = s_perms s \<Longrightarrow> granted right uid repo s' = granted right uid repo s"
  by (simp add: granted_def)

lemma filterVisibleNamespaces_set:
  "n \<in> set (filterVisibleNamespaces rq nss s) \<longleftrightarrow> n \<in> set nss \<and>
   userCanAccessRepo rq (ns_name n) s"
  by (auto simp: filterVisibleNamespaces_def userCanAccessRepo_def split: option.splits sum.splits)

end
