(* ===== verification/Repo_Listing.thy ===== *)
theory Repo_Listing
  imports Http
begin

text \<open>
  \<^verbatim>\<open>GET /api/repositories\<close> (\<^verbatim>\<open>handleRepositories\<close>), the namespace endpoints and \<^verbatim>\<open>/api/me\<close> of
  \<^verbatim>\<open>server.go\<close>. The page is cut with Go's slice expression on 64-bit indices; the lemmas say that
  following the cursor enumerates exactly the repositories the user may read, once each, and
  when the index arithmetic overflows.
\<close>

section \<open>Pages\<close>

text \<open>Go's \<open>xs[a:b]\<close>: None is the run-time panic for bad bounds.\<close>

definition slice :: "'a list \<Rightarrow> int \<Rightarrow> int \<Rightarrow> 'a list option" where
  "slice xs a b =
     (if 0 \<le> a \<and> a \<le> b \<and> b \<le> int (length xs)
      then Some (take (nat (b - a)) (drop (nat a) xs)) else None)"

definition page_size :: "string \<Rightarrow> int" where
  "page_size n = (if n \<noteq> [] \<and> fst (Atoi n) > 0 then fst (Atoi n) else 100)"

fun start_after :: "string \<Rightarrow> string list \<Rightarrow> nat" where
  "start_after lst [] = 0"
| "start_after lst (r # rs) = (if lst < r then 0 else Suc (start_after lst rs))"

definition paginate :: "string list \<Rightarrow> string \<Rightarrow> string \<Rightarrow> (string list \<times> string option) option" where
  "paginate repos n lst =
     (let start = (if lst \<noteq> [] then int (start_after lst repos) else 0);
          e0 = wrap64 (start + page_size n);
          e = (if e0 > int (length repos) then int (length repos) else e0)
      in case slice repos start e of
           None \<Rightarrow> None
         | Some page \<Rightarrow>
             Some (page, if e < int (length repos) then Some (repos ! nat (e - 1)) else None))"

definition handleRepositories :: "request \<Rightarrow> store \<Rightarrow> (string list \<times> string option) reply" where
  "handleRepositories rq s =
     (if rq_method rq \<noteq> ''GET'' then Fail 405
      else case ListAllRepoNames s of
        Inl _ \<Rightarrow> Fail 500
      | Inr repos \<Rightarrow>
          (let answer = (\<lambda>visible. case paginate visible (rq_query rq ''n'') (rq_query rq ''last'') of
                 None \<Rightarrow> Panic | Some page \<Rightarrow> Reply 200 page)
           in case rq_user rq of
             Some u \<Rightarrow>
               if us_admin u then answer repos
               else (case ListUserPermissions (us_id u) s of
                   Inl _ \<Rightarrow> Fail 500
                 | Inr perms \<Rightarrow> answer (filter (\<lambda>repo. list_ex (\<lambda>p. pm_read p \<and> perm_covers p repo) perms)
                        repos))
           | None \<Rightarrow> answer repos))"

section \<open>Namespaces and the current user\<close>

datatype ns_body = NsList "namespace_row list" | NsRow namespace_row | NsDeleted

definition handleNamespaces ::
    "int \<Rightarrow> request \<Rightarrow> string option \<Rightarrow> store \<Rightarrow> ns_body reply \<times> store" where
  "handleNamespaces now rq body s =
     (if rq_method rq = ''GET'' then
        (case ListNamespaces s of
           Inl _ \<Rightarrow> (Fail 500, s)
         | Inr nss \<Rightarrow> (Reply 200 (NsList (filterVisibleNamespaces rq nss s)), s))
      else if rq_method rq = ''POST'' then
        (if \<not> requireAdmin rq then (Fail 403, s)
         else case body of
           None \<Rightarrow> (Fail 400, s)
         | Some name \<Rightarrow>
             (case UpsertNamespace now name s of
                (Inl _, s') \<Rightarrow> (Fail 400, s')
              | (Inr ns, s') \<Rightarrow> (Reply 201 (NsRow ns), s')))
      else (Fail 405, s))"

definition handleNamespaceByName :: "int \<Rightarrow> request \<Rightarrow> store \<Rightarrow> ns_body reply \<times> store" where
  "handleNamespaceByName now rq s =
     (let name = TrimPrefix (rq_path rq) ''/api/namespaces/'' in
      if name = [] then (Fail 404, s)
      else if rq_method rq \<noteq> ''DELETE'' then (Fail 405, s)
      else if \<not> requireAdmin rq then (Fail 403, s)
      else case GetNamespace name s of
        Inl _ \<Rightarrow> (Fail 404, s)
      | Inr ns \<Rightarrow>
          (case DeleteNamespace (ns_id ns) s of
             (Inl _, s') \<Rightarrow> (Fail 500, s')
           | (Inr _, s') \<Rightarrow>
               (Reply 200 NsDeleted,
                snd (AddAudit now (currentUserID rq) ''namespace.delete'' name [] [] ''ok'' [] s'))))"

definition handleMe :: "request \<Rightarrow> user_row reply" where
  "handleMe rq = (case rq_user rq of None \<Rightarrow> Fail 401 | Some u \<Rightarrow> Reply 200 u)"

definition handleMyPermissions :: "request \<Rightarrow> store \<Rightarrow> perm_row list reply" where
  "handleMyPermissions rq s =
     (case rq_user rq of
        None \<Rightarrow> Reply 200 []
      | Some u \<Rightarrow>
          if us_admin u then Reply 200 []
          else case ListUserPermissions (us_id u) s of
            Inl _ \<Rightarrow> Fail 500 | Inr perms \<Rightarrow> Reply 200 perms)"

section \<open>Following the cursor\<close>

text \<open>The client loop: request pages until no cursor comes back.\<close>

fun walk :: "nat \<Rightarrow> string list \<Rightarrow> string \<Rightarrow> string \<Rightarrow> string list option" where
  "walk 0 repos n lst = None"
| "walk (Suc fuel) repos n lst =
     (case paginate repos n lst of
        None \<Rightarrow> None
      | Some (page, None) \<Rightarrow> Some page
      | Some (page, Some cur) \<Rightarrow> map_option (\<lambda>rest. page @ rest) (walk fuel repos n cur))"

lemma start_after_sorted:
  "sorted_wrt (<) (xs @ x # ys) \<Longrightarrow> start_after x (xs @ x # ys) = Suc (length xs)"
proof (induction xs)
  case Nil
  then show ?case by (cases ys) auto
next
  case (Cons a xs)
  then have "a < x" by auto
  then have "\<not> x < a" by simp
  with Cons show ?case by simp
qed

lemma start_after_nth:
  assumes "sorted_wrt (<) repos" "i < length repos"
  shows "start_after (repos ! i) repos = Suc i"
proof -
  have "repos = take i repos @ repos ! i # drop (Suc i) repos"
    using assms(2) by (rule id_take_nth_drop)
  with start_after_sorted[of "take i repos" "repos ! i" "drop (Suc i) repos"] assms
  show ?thesis by simp
qed

text \<open>A page from position \<open>k\<close>, when the index arithmetic stays in range.\<close>

lemma paginate_from:
  assumes "sorted_wrt (<) repos" "[] \<notin> set repos" "k \<le> length repos"
    and lst: "lst = (if k = 0 then [] else repos ! (k - 1))"
    and small: "int (length repos) + page_size n \<le> max_int64"
  shows "paginate repos n lst =
    Some (take (nat (page_size n)) (drop k repos),
          if k + nat (page_size n) < length repos then Some (repos ! (k + nat (page_size n) - 1)) else None)"
proof -
  have ps: "0 < page_size n" by (simp add: page_size_def)
  have start: "(if lst \<noteq> [] then int (start_after lst repos) else 0) = int k"
  proof (cases k)
    case 0 with lst show ?thesis by simp
  next
    case (Suc j)
    with assms(3) have "repos ! j \<in> set repos" by simp
    with assms(2) have "repos ! j \<noteq> []" by metis
    with start_after_nth[OF assms(1), of j] Suc assms(3) lst show ?thesis by simp
  qed
  have w: "wrap64 (int k + page_size n) = int k + page_size n"
    using ps small assms(3) by (intro wrap64_nonneg_small) auto
  show ?thesis
  proof (cases "k + nat (page_size n) < length repos")
    case True
    then have lt: "int k + page_size n < int (length repos)" using ps by linarith
    have e: "nat (int k + page_size n - 1) = k + nat (page_size n) - 1" using ps by linarith
    show ?thesis unfolding paginate_def Let_def start w using lt ps True e by (simp add: slice_def)
  next
    case False
    then have ge: "int (length repos) \<le> int k + page_size n" using ps by linarith
    then have e: "(if int k + page_size n > int (length repos) then int (length repos)
        else int k + page_size n) = int (length repos)" by simp
    show ?thesis using False assms(3) unfolding paginate_def Let_def start w e
      by (simp add: slice_def)
  qed
qed

lemma walk_from:
  assumes sorted: "sorted_wrt (<) repos" and ne: "[] \<notin> set repos"
    and small: "int (length repos) + page_size n \<le> max_int64"
  shows "k \<le> length repos \<Longrightarrow> length repos - k < fuel \<Longrightarrow>
    walk fuel repos n (if k = 0 then [] else repos ! (k - 1)) = Some (drop k repos)"
proof (induction fuel arbitrary: k)
  case 0
  then show ?case by simp
next
  case (Suc fuel)
  let ?p = "nat (page_size n)"
  have ps: "0 < ?p" by (simp add: page_size_def)
  note page = paginate_from[OF sorted ne Suc.prems(1) refl small]
  show ?case
  proof (cases "k + ?p < length repos")
    case True
    let ?k = "k + ?p"
    have "walk fuel repos n (repos ! (?k - 1)) = Some (drop ?k repos)"
      using Suc.IH[of ?k] True ps Suc.prems by simp
    moreover have "take ?p (drop k repos) @ drop ?k repos = drop k repos"
      by (metis append_take_drop_id drop_drop add.commute)
    ultimately show ?thesis using page True by simp
  next
    case False
    with page show ?thesis by simp
  qed
qed

lemma visible_sorted:
  "sorted_wrt (<) repos \<Longrightarrow> sorted_wrt (<) (filter P repos)"
  by (rule sorted_wrt_filter)

text \<open>
  C6. Listing repositories page by page: for a duplicate-free sorted catalog and any page
  size, following the returned cursor from the start yields every repository of the catalog
  exactly once and in order, within one request more than there are repositories, as long
  as the catalog length plus the page size fits a 64-bit integer.
\<close>

theorem paging_complete:
  assumes "sorted_wrt (<) repos" "[] \<notin> set repos"
    and "int (length repos) + page_size n \<le> max_int64"
  shows "walk (Suc (length repos)) repos n [] = Some repos"
  using walk_from[OF assms, of 0 "Suc (length repos)"] by simp

theorem paging_complete_witness:
  "walk 4 [''a/x'', ''a/y'', ''b''] ''2'' [] = Some [''a/x'', ''a/y'', ''b'']"
proof -
  have "Atoi ''2'' = (2, None)"
    by (simp add: Atoi_def is_digit_def digits_val_def digit_val_def min_int64_def max_int64_def)
  then have "page_size ''2'' = 2" by (simp add: page_size_def)
  then show ?thesis
    using paging_complete[of "[''a/x'', ''a/y'', ''b'']" "''2''"]
    by (simp add: max_int64_def less_char_def eval_nat_numeral)
qed

text \<open>
  A page size above \<^verbatim>\<open>MaxInt64 - start\<close> makes the end index wrap negative, and the slice
  expression panics: any query with an out-of-range \<^verbatim>\<open>n\<close> (which \<^verbatim>\<open>strconv.Atoi\<close> saturates) and a
  cursor past the first repository.
\<close>

theorem paging_overflow_panics:
  assumes "lst \<noteq> []" "0 < start_after lst repos" "int (length repos) \<le> max_int64"
    and "max_int64 < int (start_after lst repos) + page_size n"
  shows "paginate repos n lst = None"
proof -
  let ?x = "int (start_after lst repos) + page_size n"
  have le: "start_after lst xs \<le> length xs" for xs by (induction xs) auto
  have "page_size n \<le> max_int64"
    using Atoi_range[of n] by (auto simp: page_size_def in_int64_def max_int64_def)
  then have "?x \<le> 2 ^ 64 - 2"
    using le[of repos] assms(3) by (simp add: max_int64_def)
  with assms(4) have "wrap64 ?x = ?x - 2 ^ 64"
    by (intro wrap64_over) (simp_all add: max_int64_def)
  then have "wrap64 ?x < 0" using \<open>?x \<le> 2 ^ 64 - 2\<close> by simp
  with assms(1) show ?thesis by (simp add: paginate_def slice_def Let_def)
qed

theorem paging_overflow_panics_witness:
  "paginate [''a'', ''b''] ''99999999999999999999'' ''a'' = None"
proof -
  have "Atoi ''99999999999999999999'' = (max_int64, Some ErrRange)"
    by (simp add: Atoi_def is_digit_def digits_val_def digit_val_def min_int64_def max_int64_def)
  then have "page_size ''99999999999999999999'' = max_int64"
    by (simp add: page_size_def max_int64_def)
  then show ?thesis
    using paging_overflow_panics[of "''a''" "[''a'', ''b'']" "''99999999999999999999''"]
    by (simp add: max_int64_def)
qed

end
