(* ===== verification/Encoding.thy ===== *)
theory Encoding
  imports Go_Strings
begin

text \<open>
  The byte encodings the server uses: lower-case hexadecimal (\<^verbatim>\<open>hex.EncodeToString\<close>) and base64
  without padding over the URL alphabet (\<^verbatim>\<open>base64.RawURLEncoding\<close>) or with padding over the
  standard one. Decoding is Go's non-strict decoder: line breaks are skipped, unused trailing
  bits are not checked. The lemmas are the round trip and the alphabet of an encoding.
\<close>

section \<open>Hexadecimal\<close>

definition hex_lower :: "nat \<Rightarrow> char" where
  "hex_lower n = (if n < 10 then char_of (48 + n) else char_of (87 + n))"

definition HexEncode :: "string \<Rightarrow> string" where
  "HexEncode s = concat (map (\<lambda>c. let n = of_char c :: nat in [hex_lower (n div 16), hex_lower (n mod 16)]) s)"

lemma length_HexEncode [simp]: "length (HexEncode s) = 2 * length s"
  by (induction s) (simp_all add: HexEncode_def Let_def)

lemma HexEncode_chars: "c \<in> set (HexEncode s) \<Longrightarrow> \<exists>n < 16. c = hex_lower n"
proof -
  have n: "(of_char x :: nat) div 16 < 16" "(of_char x :: nat) mod 16 < 16" for x :: char
    by (simp_all add: less_mult_imp_div_less of_char_def)
  assume "c \<in> set (HexEncode s)"
  then obtain x where "c = hex_lower (of_char x div 16) \<or> c = hex_lower (of_char x mod 16)"
    by (auto simp: HexEncode_def Let_def)
  then show ?thesis using n by metis
qed

section \<open>Groups of six bits\<close>

fun sextets :: "nat list \<Rightarrow> nat list" where
  "sextets (a # b # c # bs) =
     a div 4 # (a mod 4 * 16 + b div 16) # (b mod 16 * 4 + c div 64) # (c mod 64) # sextets bs"
| "sextets [a, b] = [a div 4, a mod 4 * 16 + b div 16, b mod 16 * 4]"
| "sextets [a] = [a div 4, a mod 4 * 16]"
| "sextets [] = []"

fun octets :: "nat list \<Rightarrow> nat list option" where
  "octets (p # q # r # s # xs) = map_option (\<lambda>bs.
     (p * 4 + q div 16) # (q mod 16 * 16 + r div 4) # (r mod 4 * 64 + s) # bs) (octets xs)"
| "octets [p, q, r] = Some [p * 4 + q div 16, q mod 16 * 16 + r div 4]"
| "octets [p, q] = Some [p * 4 + q div 16]"
| "octets [p] = None"
| "octets [] = Some []"

lemma split_at:
  fixes x y :: nat
  shows "y < 16 \<Longrightarrow> (x * 16 + y) div 16 = x" "y < 16 \<Longrightarrow> (x * 16 + y) mod 16 = y"
    "y < 4 \<Longrightarrow> (x * 4 + y) div 4 = x" "y < 4 \<Longrightarrow> (x * 4 + y) mod 4 = y"
  by simp_all

lemma high_bits:
  fixes b :: nat
  assumes "b < 256"
  shows "b div 16 < 16" "b div 64 < 4" "b div 4 < 64"
  using assms by simp_all

lemma join_bits:
  fixes a :: nat
  shows "a div 4 * 4 + a mod 4 = a" "a div 16 * 16 + a mod 16 = a" "c div 64 * 64 + c mod 64 = (c :: nat)"
  by simp_all

lemma octets_sextets: "list_all (\<lambda>n. n < 256) bs \<Longrightarrow> octets (sextets bs) = Some bs"
proof (induction bs rule: sextets.induct)
  case (1 a b c bs)
  then have b: "b div 16 < 16" and c: "c div 64 < 4" by (simp_all add: high_bits)
  from 1 have IH: "octets (sextets bs) = Some bs" by simp
  show ?case
    by (simp only: sextets.simps octets.simps IH split_at(1,2)[OF b] split_at(3,4)[OF c] join_bits option.map)
next
  case (2 a b)
  then have b: "b div 16 < 16" by (simp add: high_bits)
  have "b mod 16 * 4 div 4 = b mod 16" by simp
  then show ?case
    by (simp only: sextets.simps octets.simps split_at(1,2)[OF b] join_bits option.map)
next
  case (3 a)
  then show ?case by simp
qed simp

lemma sextets_range: "list_all (\<lambda>n. n < 256) bs \<Longrightarrow> list_all (\<lambda>n. n < 64) (sextets bs)"
proof (induction bs rule: sextets.induct)
  case (1 a b c bs)
  then have "a div 4 < 64" "b div 16 < 16" "c div 64 < 4" by (simp_all add: high_bits)
  moreover have "a mod 4 < 4" "b mod 16 < 16" "c mod 64 < 64" by simp_all
  ultimately have "a mod 4 * 16 + b div 16 < 64" "b mod 16 * 4 + c div 64 < 64" by linarith+
  with 1 \<open>a div 4 < 64\<close> show ?case by simp
next
  case (2 a b)
  then have "a div 4 < 64" "b div 16 < 16" by (simp_all add: high_bits)
  moreover have "a mod 4 < 4" "b mod 16 < 16" by simp_all
  ultimately have "a mod 4 * 16 + b div 16 < 64" "b mod 16 * 4 < 64" by linarith+
  with \<open>a div 4 < 64\<close> show ?case by simp
next
  case (3 a)
  then have "a div 4 < 64" by (simp add: high_bits)
  moreover have "a mod 4 < 4" by simp
  then have "a mod 4 * 16 < 64" by linarith
  ultimately show ?case by simp
qed simp

section \<open>Base64\<close>

definition b64_char :: "string \<Rightarrow> nat \<Rightarrow> char" where
  "b64_char marks n =
     (if n < 26 then char_of (65 + n) else if n < 52 then char_of (71 + n)
      else if n < 62 then char_of (n - 4) else if n = 62 then marks ! 0 else marks ! 1)"

definition b64_val :: "string \<Rightarrow> char \<Rightarrow> nat option" where
  "b64_val marks c =
     (let n = of_char c :: nat in
      if 65 \<le> n \<and> n \<le> 90 then Some (n - 65)
      else if 97 \<le> n \<and> n \<le> 122 then Some (n - 71)
      else if 48 \<le> n \<and> n \<le> 57 then Some (n + 4)
      else if c = marks ! 0 then Some 62 else if c = marks ! 1 then Some 63 else None)"

definition url_marks :: string where "url_marks = ''-_''"
definition std_marks :: string where "std_marks = ''+/''"

definition b64_encode :: "string \<Rightarrow> string \<Rightarrow> string" where
  "b64_encode marks s = map (b64_char marks) (sextets (map of_char s))"

definition RawURLEncode :: "string \<Rightarrow> string" where
  "RawURLEncode s = b64_encode url_marks s"

definition StdEncode :: "string \<Rightarrow> string" where
  "StdEncode s = b64_encode std_marks s @ replicate ((3 - length s mod 3) mod 3) (CHR ''='')"

fun all_vals :: "nat option list \<Rightarrow> nat list option" where
  "all_vals [] = Some []"
| "all_vals (None # xs) = None"
| "all_vals (Some n # xs) = map_option (\<lambda>ns. n # ns) (all_vals xs)"

definition RawURLDecode :: "string \<Rightarrow> string option" where
  "RawURLDecode s =
     (case all_vals (map (b64_val url_marks) (filter (\<lambda>c. c \<noteq> CHR 0x0A \<and> c \<noteq> CHR 0x0D) s)) of
        None \<Rightarrow> None
      | Some ns \<Rightarrow> map_option (map char_of) (octets ns))"

lemma b64_val_char:
  assumes "n < 64"
  shows "b64_val url_marks (b64_char url_marks n) = Some n"
proof -
  have v: "(of_char (char_of m :: char) :: nat) = m" if "m < 256" for m using that by simp
  consider "n < 26" | "26 \<le> n" "n < 52" | "52 \<le> n" "n < 62" | "n = 62" | "n = 63" using assms by linarith
  then show ?thesis
    by cases (auto simp: b64_val_def b64_char_def url_marks_def Let_def)
qed

lemma b64_char_class:
  assumes "n < 64"
  shows "b64_char url_marks n \<notin> {CHR ''.'', CHR 0x0A, CHR 0x0D}"
  using b64_val_char[OF assms] by (auto simp: b64_val_def url_marks_def)

lemma all_vals_Some: "all_vals (map Some ns) = Some ns"
  by (induction ns) simp_all

lemma sextets_of_string: "list_all (\<lambda>n. n < 64) (sextets (map of_char (s :: string)))"
  by (rule sextets_range) (simp add: list_all_iff of_char_def)

text \<open>Decoding gives the bytes back, and an encoding has no dot and no line break.\<close>

lemma RawURLDecode_Encode [simp]: "RawURLDecode (RawURLEncode s) = Some s"
proof -
  let ?ns = "sextets (map of_char s)"
  have small: "n < 64" if "n \<in> set ?ns" for n using that sextets_of_string[of s] by (simp add: list_all_iff)
  have keep: "filter (\<lambda>c. c \<noteq> CHR 0x0A \<and> c \<noteq> CHR 0x0D) (RawURLEncode s) = RawURLEncode s"
    using b64_char_class small by (force simp: RawURLEncode_def b64_encode_def filter_id_conv)
  have "map (b64_val url_marks) (RawURLEncode s) = map Some ?ns"
    using b64_val_char small by (simp add: RawURLEncode_def b64_encode_def)
  moreover have "octets ?ns = Some (map of_char s)"
    by (rule octets_sextets) (simp add: list_all_iff of_char_def)
  ultimately show ?thesis by (simp add: RawURLDecode_def keep all_vals_Some o_def)
qed

lemma RawURLEncode_no_dot: "CHR ''.'' \<notin> set (RawURLEncode s)"
  using b64_char_class sextets_of_string[of s]
  by (force simp: RawURLEncode_def b64_encode_def list_all_iff)

end
