(* ===== verification/Tag_Policy.thy ===== *)
theory Tag_Policy
  imports Http
begin

text \<open>
  The per-repository tag policy of \<^verbatim>\<open>server.go\<close> and \<^verbatim>\<open>auth.go\<close>: whether a push may create a
  repository, how many images retention keeps, whether tags may be overwritten, whether an
  overwritten manifest is recycled, whether an anonymous client may pull. Every answer is
  resolved through the same tiers: the row of the repository, the legacy settings key
  \<^verbatim>\<open>key:repo\<close>, the global setting, a constant. The lemmas give each tier and what
  \<^verbatim>\<open>PUT .../tag-policy\<close> makes later answers be. Immutable-tag rules come last.
\<close>

section \<open>Resolution\<close>

definition ns_parts :: "string \<Rightarrow> (string \<times> string) option" where
  "ns_parts repo = (case SplitN 2 repo ''/'' of [a, b] \<Rightarrow> Some (a, b) | _ \<Rightarrow> None)"

definition resolveRepo :: "int \<Rightarrow> string \<Rightarrow> store \<Rightarrow> int sres \<times> store" where
  "resolveRepo now fullName s =
     (let (nsName, repoName) = (case ns_parts fullName of Some p \<Rightarrow> p | None \<Rightarrow> ([], fullName))
      in case UpsertNamespace now nsName s of
           (Inl e, s1) \<Rightarrow> (Inl e, s1)
         | (Inr ns, s1) \<Rightarrow>
             (case UpsertRepository now (ns_id ns) repoName s1 of
                (Inl e, s2) \<Rightarrow> (Inl e, s2)
              | (Inr repo, s2) \<Rightarrow> (Inr (rp_id repo), s2)))"

text \<open>The tiers after the table: the settings key of the repository, then the global key.\<close>

definition repo_setting :: "string \<Rightarrow> string \<Rightarrow> store \<Rightarrow> string option \<times> store" where
  "repo_setting key repo s =
     (case GetSetting (key @ '':'' @ repo) s of
        (Inl _, s1) \<Rightarrow> (None, s1)
      | (Inr v, s1) \<Rightarrow> (if v = [] then None else Some v, s1))"

definition pushCreateAllowed :: "string \<Rightarrow> store \<Rightarrow> bool \<times> store" where
  "pushCreateAllowed repo s =
     (case (case ns_parts repo of None \<Rightarrow> Inl NoRows | Some (a, b) \<Rightarrow> GetRepoPushCreate a b s) of
        Inr val \<Rightarrow> if val \<ge> 0 then (val = 1, s) else
          (case repo_setting ''push_create_repo'' repo s of
             (Some v, s1) \<Rightarrow> (v = ''true'', s1)
           | (None, s1) \<Rightarrow> GetSettingBool ''push_create_repo'' True s1)
      | Inl _ \<Rightarrow>
          (case repo_setting ''push_create_repo'' repo s of
             (Some v, s1) \<Rightarrow> (v = ''true'', s1)
           | (None, s1) \<Rightarrow> GetSettingBool ''push_create_repo'' True s1))"

definition repoKeepCount_settings :: "string \<Rightarrow> store \<Rightarrow> int \<times> store" where
  "repoKeepCount_settings repo s =
     (let global = (\<lambda>s1. case GetSettingInt ''retention_keep_count'' 0 s1 of
            (g, s2) \<Rightarrow> (if g < 0 then 0 else g, s2))
      in case repo_setting ''retention_keep_count'' repo s of
           (Some v, s1) \<Rightarrow> (case Atoi v of (n, None) \<Rightarrow> if n \<ge> 0 then (n, s1) else global s1
                            | (n, Some _) \<Rightarrow> global s1)
         | (None, s1) \<Rightarrow> global s1)"

definition repoKeepCount :: "string \<Rightarrow> store \<Rightarrow> int \<times> store" where
  "repoKeepCount repo s =
     (case (case ns_parts repo of None \<Rightarrow> Inl NoRows | Some (a, b) \<Rightarrow> GetRepoRetentionKeepCount a b s) of
        Inr val \<Rightarrow> if val \<ge> 0 then (val, s) else repoKeepCount_settings repo s
      | Inl _ \<Rightarrow> repoKeepCount_settings repo s)"

text \<open>The last three tiers of the string-valued policies.\<close>

definition string_policy :: "string \<Rightarrow> string \<Rightarrow> string \<Rightarrow> store \<Rightarrow> string \<times> store" where
  "string_policy key dflt repo s =
     (case repo_setting key repo s of
        (Some v, s1) \<Rightarrow> (v, s1)
      | (None, s1) \<Rightarrow>
          (case GetSetting key s1 of (r, s2) \<Rightarrow>
             (if value_or_empty r \<noteq> [] then value_or_empty r else dflt, s2)))"

definition resolveProtectionMode :: "string \<Rightarrow> store \<Rightarrow> string \<times> store" where
  "resolveProtectionMode repo s =
     (case (case ns_parts repo of None \<Rightarrow> Inl NoRows | Some (a, b) \<Rightarrow> GetRepoProtectionMode a b s) of
        Inr code \<Rightarrow> if code \<ge> 0 then (ProtectionCodeToString code, s)
          else string_policy ''protection_mode'' ''rules'' repo s
      | Inl _ \<Rightarrow> string_policy ''protection_mode'' ''rules'' repo s)"

definition resolveOverwriteAction :: "string \<Rightarrow> store \<Rightarrow> string \<times> store" where
  "resolveOverwriteAction repo s =
     (case (case ns_parts repo of None \<Rightarrow> Inl NoRows | Some (a, b) \<Rightarrow> GetRepoOverwriteAction a b s) of
        Inr code \<Rightarrow> if code \<ge> 0 then (OverwriteCodeToString code, s)
          else string_policy ''overwrite_action'' ''recycle'' repo s
      | Inl _ \<Rightarrow> string_policy ''overwrite_action'' ''recycle'' repo s)"

definition isAnonymousPullAllowed :: "string \<Rightarrow> store \<Rightarrow> bool \<times> store" where
  "isAnonymousPullAllowed repo s =
     (case (case ns_parts repo of None \<Rightarrow> Inl NoRows
            | Some (a, b) \<Rightarrow> IsRepoAnonymousPullAllowed a b s) of
        Inr allowed \<Rightarrow> (allowed, s)
      | Inl _ \<Rightarrow>
          (case repo_setting ''allow_anonymous_pull'' repo s of
             (Some v, s1) \<Rightarrow> (v = ''true'', s1)
           | (None, s1) \<Rightarrow> GetSettingBool ''allow_anonymous_pull'' False s1))"

section \<open>PUT and GET of the policy\<close>

record policy_req =
  pq_protection :: string
  pq_overwrite :: string
  pq_keep :: int
  pq_anon :: "bool option"
  pq_create :: "bool option"

record policy_view =
  pv_protection :: string
  pv_overwrite :: string
  pv_keep :: int
  pv_anon :: bool
  pv_create :: bool

datatype policy_body = PolicyView policy_view | PolicySaved

definition bool_string :: "bool \<Rightarrow> string" where
  "bool_string b = (if b then ''true'' else ''false'')"

text \<open>
  Write one field: with a row, update it and clear the legacy key; otherwise (no row, or no
  namespace in the name) keep the value under the legacy key. Errors are dropped.
\<close>

definition put_field ::
    "(string \<Rightarrow> string \<Rightarrow> store \<Rightarrow> unit sres \<times> store) \<Rightarrow> string \<Rightarrow> string \<Rightarrow> string \<Rightarrow> store \<Rightarrow> store" where
  "put_field setter key text name s =
     (case ns_parts name of
        Some (a, b) \<Rightarrow>
          (case setter a b s of
             (Inr _, s1) \<Rightarrow> snd (SetSetting (key @ '':'' @ name) [] s1)
           | (Inl _, s1) \<Rightarrow> snd (SetSetting (key @ '':'' @ name) text s1))
      | None \<Rightarrow> snd (SetSetting (key @ '':'' @ name) text s))"

definition put_keep :: "int \<Rightarrow> string \<Rightarrow> store \<Rightarrow> store" where
  "put_keep keep name s =
     (case ns_parts name of
        Some (a, b) \<Rightarrow>
          (case SetRepositoryRetentionKeepCount a b keep s of
             (Inr _, s1) \<Rightarrow> snd (SetSetting (''retention_keep_count:'' @ name) [] s1)
           | (Inl _, s1) \<Rightarrow> s1)
      | None \<Rightarrow> snd (SetSetting (''retention_keep_count:'' @ name)
                  (Itoa (if keep < 0 then 0 else keep)) s))"

definition policy_put :: "policy_req \<Rightarrow> string \<Rightarrow> store \<Rightarrow> store" where
  "policy_put req name s =
     (let pm0 = ProtectionStringToCode (pq_protection req);
          pm = (if pm0 = ProtectionModeUnset then ProtectionModeRules else pm0);
          oa0 = OverwriteStringToCode (pq_overwrite req);
          oa = (if oa0 = OverwriteActionUnset then OverwriteActionRecycle else oa0);
          s1 = put_field (\<lambda>a b. SetRepositoryProtectionMode a b pm) ''protection_mode''
                 (ProtectionCodeToString pm) name s;
          s2 = put_field (\<lambda>a b. SetRepositoryOverwriteAction a b oa) ''overwrite_action''
                 (OverwriteCodeToString oa) name s1;
          s3 = put_keep (pq_keep req) name s2;
          s4 = (case pq_anon req of None \<Rightarrow> s3
                | Some v \<Rightarrow> put_field (\<lambda>a b. SetRepositoryAnonymousPull a b v) ''allow_anonymous_pull''
                     (bool_string v) name s3);
          s5 = (case pq_create req of None \<Rightarrow> s4
                | Some v \<Rightarrow> put_field (\<lambda>a b. SetRepositoryPushCreate a b (if v then 1 else 0))
                     ''push_create_repo'' (bool_string v) name s4)
      in s5)"

definition policy_get :: "string \<Rightarrow> store \<Rightarrow> policy_view \<times> store" where
  "policy_get name s =
     (let (pm, s1) = resolveProtectionMode name s;
          (oa, s2) = resolveOverwriteAction name s1;
          (kc, s3) = repoKeepCount name s2;
          (an, s4) = isAnonymousPullAllowed name s3;
          (pc, s5) = pushCreateAllowed name s4
      in (\<lparr>pv_protection = pm, pv_overwrite = oa, pv_keep = kc, pv_anon = an, pv_create = pc\<rparr>, s5))"

definition handleRepoTagPolicy ::
    "request \<Rightarrow> policy_req option \<Rightarrow> store \<Rightarrow> policy_body reply \<times> store" where
  "handleRepoTagPolicy rq body s =
     (let name = TrimSuffix (TrimPrefix (rq_path rq) ''/api/repositories/'') ''/tag-policy'' in
      if rq_method rq = ''GET'' then
        (case policy_get name s of (v, s1) \<Rightarrow> (Reply 200 (PolicyView v), s1))
      else if rq_method rq = ''PUT'' then
        (case body of
           None \<Rightarrow> (Fail 400, s)
         | Some req \<Rightarrow> (Reply 200 PolicySaved, policy_put req name s))
      else (Fail 405, s))"

section \<open>Immutable tags\<close>

text \<open>
  \<^verbatim>\<open>immutablePatternRegexp\<close> compiles a glob to an anchored regular expression: \<^verbatim>\<open>*\<close> becomes
  \<^verbatim>\<open>.*\<close>, \<^verbatim>\<open>?\<close> becomes \<^verbatim>\<open>.\<close>, every other character stands for itself. The dot does not match a
  newline, and an unflagged \<^verbatim>\<open>$\<close> matches at the end of the text only. This is the language of
  that expression over strings of ASCII characters.
\<close>

fun glob_match :: "string \<Rightarrow> string \<Rightarrow> bool" where
  "glob_match [] t = (t = [])"
| "glob_match (p # ps) [] = (p = CHR ''*'' \<and> glob_match ps [])"
| "glob_match (p # ps) (c # cs) =
     (if p = CHR ''*'' then glob_match ps (c # cs) \<or> (c \<noteq> CHR 0x0A \<and> glob_match (p # ps) cs)
      else if p = CHR ''?'' then c \<noteq> CHR 0x0A \<and> glob_match ps cs
      else p = c \<and> glob_match ps cs)"

definition matchImmutableTagPattern :: "string \<Rightarrow> string \<Rightarrow> bool" where
  "matchImmutableTagPattern pattern tag = glob_match pattern tag"

definition checkImmutableTag :: "string \<Rightarrow> bool \<Rightarrow> store \<Rightarrow> string option" where
  "checkImmutableTag ref forceImmutable s =
     (if ref = [] \<or> Contains ref '':'' then None
      else if forceImmutable then Some ''repo-immutable''
      else case ListImmutableTagRules s of
        Inl _ \<Rightarrow> None
      | Inr rules \<Rightarrow> map_option ru_pattern
          (List.find (\<lambda>r. matchImmutableTagPattern (ru_pattern r) ref) rules))"

section \<open>The tiers\<close>

lemma resolveRepo_reaches [simp, intro]: "reaches s (snd (resolveRepo now name s))"
proof -
  obtain a b where p: "(case ns_parts name of Some p \<Rightarrow> p | None \<Rightarrow> ([], name)) = (a, b)" by fastforce
  obtain r1 s1 where u: "UpsertNamespace now a s = (r1, s1)" by fastforce
  have 1: "reaches s s1" using reaches_ops(4)[of s now a] u by simp
  show ?thesis
  proof (cases r1)
    case (Inl e)
    with 1 show ?thesis by (simp add: resolveRepo_def p u)
  next
    case (Inr ns)
    have "snd (resolveRepo now name s) = snd (UpsertRepository now (ns_id ns) b s1)"
      by (simp add: resolveRepo_def p u Inr split: prod.splits sum.splits)
    with reaches_trans[OF 1 reaches_ops(6)] show ?thesis by simp
  qed
qed

lemmas policy_defs =
  pushCreateAllowed_def repoKeepCount_def resolveProtectionMode_def resolveOverwriteAction_def
  isAnonymousPullAllowed_def repoKeepCount_settings_def string_policy_def repo_setting_def

lemma repo_setting_snd: "snd (repo_setting key repo s) = snd (GetSetting (key @ '':'' @ repo) s)"
  by (simp add: repo_setting_def split: prod.splits sum.splits)

lemma repo_setting_same_data: "same_data s (snd (repo_setting key repo s))"
  unfolding repo_setting_snd by (rule GetSetting_same_data)

lemma repo_setting_value:
  "cache_ok s \<Longrightarrow> settings_up s \<Longrightarrow>
   fst (repo_setting key repo s) =
     (let v = setting_of s (key @ '':'' @ repo) in if v = [] then None else Some v)"
  using GetSetting_value[of s "key @ '':'' @ repo"]
  by (auto simp: repo_setting_def split: prod.splits sum.splits)

lemma repo_setting_ok:
  "cache_ok s \<Longrightarrow> cache_ok (snd (repo_setting key repo s))"
  "settings_up (snd (repo_setting key repo s)) = settings_up s"
  by (simp_all only: repo_setting_snd GetSetting_cache_ok GetSetting_up)

lemma after_repo_setting:
  "cache_ok s \<Longrightarrow> settings_up s \<Longrightarrow>
   fst (GetSettingBool k d (snd (repo_setting key repo s))) = bool_of_setting (setting_of s k) d"
  "cache_ok s \<Longrightarrow> settings_up s \<Longrightarrow>
   fst (GetSetting k (snd (repo_setting key repo s))) = Inr (setting_of s k)"
  by (simp_all add: GetSettingBool_value GetSetting_value repo_setting_ok
      same_data_setting_of[OF repo_setting_same_data])

text \<open>What the string-valued policies are without a row that decides.\<close>

definition string_tiers :: "string \<Rightarrow> string \<Rightarrow> string \<Rightarrow> store \<Rightarrow> string" where
  "string_tiers key dflt repo s =
     (if setting_of s (key @ '':'' @ repo) \<noteq> [] then setting_of s (key @ '':'' @ repo)
      else if setting_of s key \<noteq> [] then setting_of s key else dflt)"

lemma string_policy_value:
  assumes "cache_ok s" "settings_up s"
  shows "fst (string_policy key dflt repo s) = string_tiers key dflt repo s"
proof -
  obtain o1 s1 where r: "repo_setting key repo s = (o1, s1)" by (cases "repo_setting key repo s")
  have o1: "o1 = (let v = setting_of s (key @ '':'' @ repo) in if v = [] then None else Some v)"
    using repo_setting_value[OF assms, of key repo] r by simp
  have g: "fst (GetSetting key s1) = Inr (setting_of s key)"
    using after_repo_setting(2)[OF assms, of key key repo] r by simp
  show ?thesis
    using o1 g by (auto simp: string_policy_def r string_tiers_def value_or_empty_def Let_def split_beta
        split: option.splits)
qed

text \<open>The row that a namespaced name denotes, when the tables can be read.\<close>

definition policy_row :: "string \<Rightarrow> store \<Rightarrow> repo_row option" where
  "policy_row repo s =
     (case ns_parts repo of None \<Rightarrow> None
      | Some (a, b) \<Rightarrow> if repo_join_fault s then None else repo_by_names a b s)"

lemma repo_column_policy_row:
  "(case ns_parts repo of None \<Rightarrow> Inl NoRows | Some (a, b) \<Rightarrow> repo_column f a b s) = Inr v \<longleftrightarrow>
   (\<exists>r. policy_row repo s = Some r \<and> v = f r)"
  by (auto simp: repo_column_def policy_row_def GetRepositoryByNamespacedName_def row_or_norows_def
      split: option.splits sum.splits prod.splits)

lemma policy_column_cases:
  "(case (case ns_parts repo of None \<Rightarrow> Inl NoRows | Some (a, b) \<Rightarrow> repo_column f a b s) of
      Inr v \<Rightarrow> g v | Inl _ \<Rightarrow> d) = (case policy_row repo s of Some r \<Rightarrow> g (f r) | None \<Rightarrow> d)"
  by (auto simp: repo_column_def policy_row_def GetRepositoryByNamespacedName_def row_or_norows_def
      split: option.splits sum.splits prod.splits)

lemmas repo_getter_defs =
  GetRepoPushCreate_def GetRepoRetentionKeepCount_def GetRepoProtectionMode_def
  GetRepoOverwriteAction_def IsRepoAnonymousPullAllowed_def

lemma resolveProtectionMode_value:
  "cache_ok s \<Longrightarrow> settings_up s \<Longrightarrow> fst (resolveProtectionMode repo s) =
     (case policy_row repo s of
        Some r \<Rightarrow> if rp_prot r \<ge> 0 then ProtectionCodeToString (rp_prot r)
                  else string_tiers ''protection_mode'' ''rules'' repo s
      | None \<Rightarrow> string_tiers ''protection_mode'' ''rules'' repo s)"
  unfolding resolveProtectionMode_def repo_getter_defs policy_column_cases
  by (simp add: string_policy_value split: option.splits)

lemma resolveOverwriteAction_value:
  "cache_ok s \<Longrightarrow> settings_up s \<Longrightarrow> fst (resolveOverwriteAction repo s) =
     (case policy_row repo s of
        Some r \<Rightarrow> if rp_ow r \<ge> 0 then OverwriteCodeToString (rp_ow r)
                  else string_tiers ''overwrite_action'' ''recycle'' repo s
      | None \<Rightarrow> string_tiers ''overwrite_action'' ''recycle'' repo s)"
  unfolding resolveOverwriteAction_def repo_getter_defs policy_column_cases
  by (simp add: string_policy_value split: option.splits)

definition bool_tiers :: "string \<Rightarrow> bool \<Rightarrow> string \<Rightarrow> store \<Rightarrow> bool" where
  "bool_tiers key dflt repo s =
     (if setting_of s (key @ '':'' @ repo) \<noteq> [] then setting_of s (key @ '':'' @ repo) = ''true''
      else bool_of_setting (setting_of s key) dflt)"

lemma bool_policy_value:
  assumes "cache_ok s" "settings_up s"
  shows "fst (case repo_setting key repo s of (Some v, s1) \<Rightarrow> (v = ''true'', s1)
     | (None, s1) \<Rightarrow> GetSettingBool key dflt s1) = bool_tiers key dflt repo s"
proof -
  obtain o1 s1 where r: "repo_setting key repo s = (o1, s1)" by (cases "repo_setting key repo s")
  have o1: "o1 = (let v = setting_of s (key @ '':'' @ repo) in if v = [] then None else Some v)"
    using repo_setting_value[OF assms, of key repo] r by simp
  have "fst (GetSettingBool key dflt s1) = bool_of_setting (setting_of s key) dflt"
    using after_repo_setting(1)[OF assms, of key dflt key repo] r by simp
  with o1 show ?thesis by (simp add: r bool_tiers_def Let_def)
qed

lemma pushCreateAllowed_value:
  "cache_ok s \<Longrightarrow> settings_up s \<Longrightarrow> fst (pushCreateAllowed repo s) =
     (case policy_row repo s of
        Some r \<Rightarrow> if rp_push_create r \<ge> 0 then rp_push_create r = 1
                  else bool_tiers ''push_create_repo'' True repo s
      | None \<Rightarrow> bool_tiers ''push_create_repo'' True repo s)"
  unfolding pushCreateAllowed_def repo_getter_defs policy_column_cases
  using bool_policy_value[of s "''push_create_repo''" True repo] by (simp split: option.splits)

lemma isAnonymousPullAllowed_value:
  "cache_ok s \<Longrightarrow> settings_up s \<Longrightarrow> fst (isAnonymousPullAllowed repo s) =
     (case policy_row repo s of
        Some r \<Rightarrow> rp_anon r
      | None \<Rightarrow> bool_tiers ''allow_anonymous_pull'' False repo s)"
  unfolding isAnonymousPullAllowed_def repo_getter_defs policy_column_cases
  using bool_policy_value[of s "''allow_anonymous_pull''" False repo] by (simp split: option.splits)

text \<open>Resolving a policy changes nothing but the settings cache.\<close>

lemma GetSettingBool_same_data: "same_data s (snd (GetSettingBool k d s))"
  by (simp add: GetSetting_same_data)

lemma GetSettingInt_same_data: "same_data s (snd (GetSettingInt k d s))"
  by (simp add: GetSetting_same_data)

lemma string_policy_same_data: "same_data s (snd (string_policy key d repo s))"
proof -
  obtain v s1 where r: "repo_setting key repo s = (v, s1)" by (cases "repo_setting key repo s")
  have 1: "same_data s s1" using repo_setting_same_data[of s key repo] r by simp
  have 2: "same_data s (snd (GetSetting key s1))"
    using same_data_trans[OF 1 GetSetting_same_data] .
  show ?thesis using 1 2
    by (simp add: string_policy_def r split_beta split: option.splits)
qed

lemma bool_policy_same_data:
  "same_data s (snd (case repo_setting key repo s of (Some v, s1) \<Rightarrow> (v = ''true'', s1)
     | (None, s1) \<Rightarrow> GetSettingBool key2 dflt s1))"
  using repo_setting_same_data[of s key repo] GetSettingBool_same_data
  by (auto split: prod.splits option.splits) (metis same_data_trans)

lemma keep_settings_same_data: "same_data s (snd (repoKeepCount_settings repo s))"
proof -
  obtain v s1 where r: "repo_setting ''retention_keep_count'' repo s = (v, s1)"
    by (cases "repo_setting ''retention_keep_count'' repo s")
  have 1: "same_data s s1" using repo_setting_same_data[of s "''retention_keep_count''" repo] r by simp
  have 2: "same_data s (snd (GetSettingInt ''retention_keep_count'' 0 s1))"
    using same_data_trans[OF 1 GetSettingInt_same_data] .
  show ?thesis using 1 2
    by (auto simp: repoKeepCount_settings_def r Let_def split_beta split: option.splits)
qed

lemma policy_same_data:
  "same_data s (snd (pushCreateAllowed repo s))" "same_data s (snd (repoKeepCount repo s))"
  "same_data s (snd (resolveProtectionMode repo s))" "same_data s (snd (resolveOverwriteAction repo s))"
  "same_data s (snd (isAnonymousPullAllowed repo s))"
  using bool_policy_same_data keep_settings_same_data string_policy_same_data
  unfolding pushCreateAllowed_def repoKeepCount_def resolveProtectionMode_def
    resolveOverwriteAction_def isAnonymousPullAllowed_def repo_getter_defs policy_column_cases
  by (auto split: option.splits)

section \<open>Writing a policy\<close>

lemma repo_by_names_SomeD:
  assumes ok: "repos_ok s" and r: "repo_by_names a b s = Some r"
  shows "\<exists>n. ns_by_name a s = Some n \<and> rp_ns r = ns_id n" "rp_name r = b" "r \<in> set (trows (s_repos s))"
proof -
  from r have r': "r \<in> set (trows (s_repos s))" "rp_name r = b"
    "thas (\<lambda>n. ns_id n = rp_ns r \<and> ns_name n = a) (s_namespaces s)"
    by (auto simp: repo_by_names_def dest: tfind_SomeD)
  then show "rp_name r = b" "r \<in> set (trows (s_repos s))" by simp_all
  from r'(3) obtain n where n: "n \<in> set (trows (s_namespaces s))" "ns_id n = rp_ns r" "ns_name n = a"
    by (auto simp: thas_iff)
  from tfind_key[OF repos_okD(4)[OF ok] n(1)] n(2,3)
  show "\<exists>n. ns_by_name a s = Some n \<and> rp_ns r = ns_id n" by (auto simp: ns_by_name_def)
qed

lemma update_repo_row:
  assumes ok: "repos_ok s" and up: "\<not> repo_join_fault s" and r: "repo_by_names a b s = Some r"
    and f: "\<And>x. rp_ns (f x) = rp_ns x" "\<And>x. rp_name (f x) = rp_name x"
  shows "fst (update_repo f a b s) = Inr ()"
    "repo_by_names a b (snd (update_repo f a b s)) = Some (f r)"
    "same_settings s (snd (update_repo f a b s))"
    "s_fault (snd (update_repo f a b s)) = s_fault s"
proof -
  obtain n where n: "ns_by_name a s = Some n" "rp_ns r = ns_id n" "rp_name r = b"
    "r \<in> set (trows (s_repos s))"
    using repo_by_names_SomeD[OF ok r] by blast
  let ?hit = "\<lambda>r. rp_ns r = ns_id n \<and> rp_name r = b"
  have has: "thas ?hit (s_repos s)" using n by (auto simp: thas_iff)
  then have eq: "update_repo f a b s = (Inr (), s\<lparr>s_repos := tupdate ?hit f (s_repos s)\<rparr>)"
    using up n(1) by (simp add: update_repo_def Let_def)
  show "fst (update_repo f a b s) = Inr ()" "same_settings s (snd (update_repo f a b s))"
    "s_fault (snd (update_repo f a b s)) = s_fault s"
    by (simp_all add: eq same_settings_def)
  let ?P = "\<lambda>r. rp_name r = b \<and> thas (\<lambda>n. ns_id n = rp_ns r \<and> ns_name n = a) (s_namespaces s)"
  have "tfind ?P (tupdate ?hit f (s_repos s)) = map_option (\<lambda>r. if ?hit r then f r else r) (tfind ?P (s_repos s))"
    by (rule tfind_update) (simp add: f)
  with r n show "repo_by_names a b (snd (update_repo f a b s)) = Some (f r)"
    by (simp add: eq repo_by_names_def)
qed

text \<open>The state in which a policy is written and read: a coherent store with the row at hand.\<close>

definition policy_state :: "string \<Rightarrow> repo_row \<Rightarrow> store \<Rightarrow> bool" where
  "policy_state name r s \<longleftrightarrow> repos_ok s \<and> cache_ok s \<and> settings_up s \<and> policy_row name s = Some r"

lemma policy_stateD:
  assumes "policy_state name r s"
  obtains a b where "ns_parts name = Some (a, b)" "\<not> repo_join_fault s" "repo_by_names a b s = Some r"
  using assms by (auto simp: policy_state_def policy_row_def split: option.splits if_splits)

lemma SetSetting_clear:
  assumes "settings_up s"
  shows "snd (SetSetting key [] s) = s\<lparr>s_settings := (s_settings s)(key := None),
     s_cache := (s_cache s)(key := None)\<rparr>"
  using assms by (simp add: SetSetting_def settings_up_def)

lemma put_field_row:
  assumes st: "policy_state name r s"
    and f: "\<And>x. rp_ns (f x) = rp_ns x" "\<And>x. rp_name (f x) = rp_name x" "\<And>x. rp_id (f x) = rp_id x"
  shows "policy_state name (f r) (put_field (\<lambda>a b. update_repo f a b) key text name s)"
proof -
  obtain a b where ab: "ns_parts name = Some (a, b)" "\<not> repo_join_fault s" "repo_by_names a b s = Some r"
    using policy_stateD[OF st] .
  have ok: "repos_ok s" "cache_ok s" "settings_up s" using st by (simp_all add: policy_state_def)
  let ?s1 = "snd (update_repo f a b s)"
  note u = update_repo_row[OF ok(1) ab(2,3) f(1,2)]
  have k: "repos_ok ?s1"
    by (rule update_repo_repos_ok[OF ok(1) f(3)]) (simp add: repo_key_def f)
  have c: "cache_ok ?s1" "settings_up ?s1"
    using ok(2,3) u(3,4) by (simp_all add: same_settings_def cache_ok_def setting_of_def settings_up_def)
  have eq: "put_field (\<lambda>a b. update_repo f a b) key text name s = snd (SetSetting (key @ '':'' @ name) [] ?s1)"
    using u(1) by (cases "update_repo f a b s") (simp add: put_field_def ab(1))
  have "policy_row name (snd (SetSetting (key @ '':'' @ name) [] ?s1)) = Some (f r)"
    using u(2,4) ab c(2)
    by (simp add: SetSetting_clear policy_row_def repo_join_fault_def repo_by_names_def)
  moreover have "repos_ok (snd (SetSetting (key @ '':'' @ name) [] ?s1))"
    using k c(2) repos_ok_cong[of "snd (SetSetting (key @ '':'' @ name) [] ?s1)" ?s1]
    by (simp add: SetSetting_clear)
  ultimately show ?thesis
    using c by (simp add: eq policy_state_def SetSetting_cache_ok)
qed

lemma put_keep_row:
  assumes st: "policy_state name r s"
  shows "policy_state name (r\<lparr>rp_keep := keep\<rparr>) (put_keep keep name s)"
proof -
  obtain a b where ab: "ns_parts name = Some (a, b)" "\<not> repo_join_fault s" "repo_by_names a b s = Some r"
    using policy_stateD[OF st] .
  have ok: "repos_ok s" using st by (simp add: policy_state_def)
  have "fst (update_repo (\<lambda>r. r\<lparr>rp_keep := keep\<rparr>) a b s) = Inr ()"
    by (rule update_repo_row(1)[OF ok ab(2,3)]) simp_all
  then have "put_keep keep name s =
      put_field (\<lambda>a b. update_repo (\<lambda>r. r\<lparr>rp_keep := keep\<rparr>) a b) ''retention_keep_count'' [] name s"
    by (auto simp: put_keep_def put_field_def ab(1) SetRepositoryRetentionKeepCount_def split: prod.splits)
  then show ?thesis using put_field_row[OF st, of "\<lambda>r. r\<lparr>rp_keep := keep\<rparr>"] by simp
qed

text \<open>The row after \<^verbatim>\<open>PUT tag-policy\<close>.\<close>

definition policy_after :: "policy_req \<Rightarrow> repo_row \<Rightarrow> repo_row" where
  "policy_after req r = r\<lparr>
     rp_prot := (let c = ProtectionStringToCode (pq_protection req) in
        if c = ProtectionModeUnset then ProtectionModeRules else c),
     rp_ow := (let c = OverwriteStringToCode (pq_overwrite req) in
        if c = OverwriteActionUnset then OverwriteActionRecycle else c),
     rp_keep := pq_keep req,
     rp_anon := (case pq_anon req of None \<Rightarrow> rp_anon r | Some v \<Rightarrow> v),
     rp_push_create := (case pq_create req of None \<Rightarrow> rp_push_create r
        | Some v \<Rightarrow> if v then 1 else 0)\<rparr>"

lemma policy_put_row:
  assumes "policy_state name r s"
  shows "policy_state name (policy_after req r) (policy_put req name s)"
proof -
  let ?pm = "let c = ProtectionStringToCode (pq_protection req) in
        if c = ProtectionModeUnset then ProtectionModeRules else c"
  let ?oa = "let c = OverwriteStringToCode (pq_overwrite req) in
        if c = OverwriteActionUnset then OverwriteActionRecycle else c"
  let ?s1 = "put_field (\<lambda>a b. update_repo (\<lambda>r. r\<lparr>rp_prot := ?pm\<rparr>) a b) ''protection_mode''
     (ProtectionCodeToString ?pm) name s"
  let ?s2 = "put_field (\<lambda>a b. update_repo (\<lambda>r. r\<lparr>rp_ow := ?oa\<rparr>) a b) ''overwrite_action''
     (OverwriteCodeToString ?oa) name ?s1"
  let ?s3 = "put_keep (pq_keep req) name ?s2"
  let ?s4 = "case pq_anon req of None \<Rightarrow> ?s3
     | Some v \<Rightarrow> put_field (\<lambda>a b. update_repo (\<lambda>r. r\<lparr>rp_anon := v\<rparr>) a b) ''allow_anonymous_pull''
         (bool_string v) name ?s3"
  let ?r3 = "r\<lparr>rp_prot := ?pm, rp_ow := ?oa, rp_keep := pq_keep req\<rparr>"
  let ?r4 = "case pq_anon req of None \<Rightarrow> ?r3 | Some v \<Rightarrow> ?r3\<lparr>rp_anon := v\<rparr>"
  have "policy_state name (r\<lparr>rp_prot := ?pm\<rparr>) ?s1" by (rule put_field_row[OF assms]) simp_all
  then have "policy_state name (r\<lparr>rp_prot := ?pm, rp_ow := ?oa\<rparr>) ?s2" by (rule put_field_row) simp_all
  then have "policy_state name ?r3 ?s3" by (rule put_keep_row)
  then have s4: "policy_state name ?r4 ?s4"
    by (cases "pq_anon req") (simp_all add: put_field_row)
  have "policy_state name (policy_after req r)
     (case pq_create req of None \<Rightarrow> ?s4
      | Some v \<Rightarrow> put_field (\<lambda>a b. update_repo (\<lambda>r. r\<lparr>rp_push_create := if v then 1 else 0\<rparr>) a b)
         ''push_create_repo'' (bool_string v) name ?s4)"
  proof (cases "pq_create req")
    case None
    have "policy_after req r = ?r4"
      by (cases "pq_anon req") (simp_all add: policy_after_def None Let_def)
    with s4 None show ?thesis by simp
  next
    case (Some v)
    have "policy_after req r = ?r4\<lparr>rp_push_create := if v then 1 else 0\<rparr>"
      by (cases "pq_anon req") (simp_all add: policy_after_def Some Let_def)
    with Some put_field_row[OF s4, of "\<lambda>r. r\<lparr>rp_push_create := if v then 1 else 0\<rparr>"]
    show ?thesis by simp
  qed
  then show ?thesis unfolding policy_put_def repo_setter_defs Let_def by assumption
qed

lemma policy_state_same_data:
  "same_data s s' \<Longrightarrow> cache_ok s' \<Longrightarrow> policy_state name r s \<Longrightarrow> policy_state name r s'"
  using same_data_fields[of s s'] repos_ok_cong[of s' s]
  by (auto simp: policy_state_def policy_row_def repo_join_fault_def repo_by_names_def settings_up_def
      split: option.splits if_splits)

lemma resolve_cache_ok:
  "cache_ok s \<Longrightarrow> cache_ok (snd (resolveProtectionMode repo s))"
  "cache_ok s \<Longrightarrow> cache_ok (snd (resolveOverwriteAction repo s))"
  by (auto simp: resolveProtectionMode_def resolveOverwriteAction_def string_policy_def
      GetSetting_cache_ok[THEN GetSetting_cache_ok] repo_setting_ok split_beta
      split: sum.splits option.splits intro: GetSetting_cache_ok)

section \<open>Properties\<close>

lemma policy_get_row:
  assumes "policy_row name s = Some r" "0 \<le> rp_prot r" "0 \<le> rp_ow r" "0 \<le> rp_keep r" "0 \<le> rp_push_create r"
  shows "policy_get name s = (\<lparr>pv_protection = ProtectionCodeToString (rp_prot r),
     pv_overwrite = OverwriteCodeToString (rp_ow r), pv_keep = rp_keep r, pv_anon = rp_anon r,
     pv_create = (rp_push_create r = 1)\<rparr>, s)"
  unfolding policy_get_def resolveProtectionMode_def resolveOverwriteAction_def repoKeepCount_def
    isAnonymousPullAllowed_def pushCreateAllowed_def repo_getter_defs policy_column_cases
  using assms by simp

text \<open>A repository row that a policy can be written to, in a store the methods built.\<close>

definition nginx_store :: store where
  "nginx_store = snd (resolveRepo 7 ''library/nginx'' empty_store)"

lemma nginx_state: "\<exists>r. policy_state ''library/nginx'' r nginx_store"
proof -
  have p: "ns_parts ''library/nginx'' = Some (''library'', ''nginx'')" by code_simp
  have ok: "store_ok nginx_store"
    unfolding nginx_store_def by (rule reaches_store_ok[OF resolveRepo_reaches store_ok_empty])
  have "\<not> s_fault nginx_store TSettings" "\<not> repo_join_fault nginx_store"
    "\<exists>r. repo_by_names ''library'' ''nginx'' nginx_store = Some r"
    by (simp_all add: nginx_store_def resolveRepo_def p UpsertNamespace_def GetNamespace_def empty_store_def
        ns_by_name_def tupsert_def thas_def tinsert_def tempty_def tfind_def UpsertRepository_def
        GetRepositoryByNamespaceAndName_def new_repo_def repo_join_fault_def repo_by_names_def
        row_or_norows_def)
  with ok show ?thesis by (auto simp: policy_state_def policy_row_def p store_ok_def settings_up_def)
qed



end
