(* ===== verification/Auth.thy ===== *)
theory Auth
  imports Encoding Tag_Policy Repo_Path
begin

text \<open>
  Authentication (\<^verbatim>\<open>auth.go\<close>, \<^verbatim>\<open>v2_token.go\<close>, the password functions of \<^verbatim>\<open>store.go\<close>): password
  hashes, sessions, API tokens, registry tokens, the middlewares \<^verbatim>\<open>withAuth\<close> and \<^verbatim>\<open>requireCSRF\<close>.
  SHA-256, HMAC and bcrypt are the fields of \<open>crypto\<close>; random bytes are arguments; times are whole
  seconds. Writing the user into the request context is \<open>rq_user\<close> of the request passed on.
\<close>

section \<open>Passwords\<close>

record crypto =
  cr_sha256 :: "string \<Rightarrow> string"
  cr_hmac :: "string \<Rightarrow> string \<Rightarrow> string"
  cr_bcrypt_ok :: "string \<Rightarrow> string \<Rightarrow> bool"
  cr_bcrypt :: "string \<Rightarrow> string option"

definition hex_nibble :: "char \<Rightarrow> nat option" where
  "hex_nibble c = (let n = of_char c :: nat in
     if 48 \<le> n \<and> n \<le> 57 then Some (n - 48)
     else if 97 \<le> n \<and> n \<le> 102 then Some (n - 87)
     else if 65 \<le> n \<and> n \<le> 70 then Some (n - 55) else None)"

fun HexDecode :: "string \<Rightarrow> string option" where
  "HexDecode [] = Some []"
| "HexDecode [c] = None"
| "HexDecode (a # b # s) =
     (case (hex_nibble a, hex_nibble b, HexDecode s) of
        (Some x, Some y, Some t) \<Rightarrow> Some (char_of (16 * x + y) # t) | _ \<Rightarrow> None)"

definition sha256Hex :: "crypto \<Rightarrow> string \<Rightarrow> string" where
  "sha256Hex cr s = HexEncode (cr_sha256 cr s)"

definition constantTimeEqual :: "string \<Rightarrow> string \<Rightarrow> bool" where
  "constantTimeEqual a b \<longleftrightarrow> (if length a \<noteq> length b then False else a = b)"

definition HashPassword :: "crypto \<Rightarrow> string \<Rightarrow> string option" where
  "HashPassword cr password = cr_bcrypt cr password"

definition VerifyPasswordHash :: "crypto \<Rightarrow> string \<Rightarrow> string \<Rightarrow> bool" where
  "VerifyPasswordHash cr encoded password =
     (if cr_bcrypt_ok cr encoded password then True
      else case Split encoded ''$'' of
        [alg, saltHex, sumHex] \<Rightarrow>
          if alg \<noteq> ''sha256'' then False
          else (case HexDecode saltHex of None \<Rightarrow> False
                | Some salt \<Rightarrow> (case HexDecode sumHex of None \<Rightarrow> False
                    | Some expected \<Rightarrow> cr_sha256 cr (salt @ password) = expected))
      | _ \<Rightarrow> False)"

definition NeedsPasswordUpgrade :: "string \<Rightarrow> bool" where
  "NeedsPasswordUpgrade encoded = HasPrefix encoded ''sha256$''"

definition UpgradePassword :: "crypto \<Rightarrow> string \<Rightarrow> string \<Rightarrow> string option" where
  "UpgradePassword cr encoded password =
     (if \<not> VerifyPasswordHash cr encoded password then None else HashPassword cr password)"

definition maybeUpgradePassword :: "crypto \<Rightarrow> int \<Rightarrow> user_row \<Rightarrow> string \<Rightarrow> store \<Rightarrow> store" where
  "maybeUpgradePassword cr now u plaintext s =
     (if \<not> NeedsPasswordUpgrade (us_hash u) then s
      else case UpgradePassword cr (us_hash u) plaintext of
        None \<Rightarrow> s
      | Some h \<Rightarrow> snd (SetUserPasswordHash now (us_id u) h s))"

section \<open>Sessions\<close>

record auth_cfg =
  ac_mode :: string
  ac_v2mode :: string
  ac_external :: string
  ac_secret :: string

record cookie =
  ck_name :: string
  ck_value :: string
  ck_httponly :: bool
  ck_secure :: bool
  ck_maxage :: int

record auth_state =
  at_store :: store
  at_sessions :: "string \<rightharpoonup> string \<times> int"
  at_drops :: "string \<rightharpoonup> int"
  at_cookies :: "cookie list"

definition sessionTTL :: int where "sessionTTL = 604800"

definition sessionCookieName :: string where "sessionCookieName = ''registry_ui_session''"
definition csrfCookieName :: string where "csrfCookieName = ''csrf_token''"

definition authEnabled :: "auth_cfg \<Rightarrow> bool" where
  "authEnabled cfg \<longleftrightarrow> ac_mode cfg = ''basic''"

definition shortID :: "string \<Rightarrow> string" where
  "shortID i = (if length i > 12 then take 12 i else i)"

definition set_cookie :: "request \<Rightarrow> string \<Rightarrow> string \<Rightarrow> bool \<Rightarrow> int \<Rightarrow> auth_state \<Rightarrow> auth_state" where
  "set_cookie rq name v httponly maxage st =
     st\<lparr>at_cookies := at_cookies st @ [\<lparr>ck_name = name, ck_value = v, ck_httponly = httponly,
          ck_secure = secureCookie rq, ck_maxage = maxage\<rparr>]\<rparr>"

definition setCSRFCookie :: "request \<Rightarrow> string \<Rightarrow> auth_state \<Rightarrow> auth_state" where
  "setCSRFCookie rq rnd = set_cookie rq csrfCookieName (HexEncode rnd) False sessionTTL"

text \<open>\<open>rnd\<close> holds the two draws of 32 random bytes.\<close>

definition createSession ::
    "int \<Rightarrow> request \<Rightarrow> string \<times> string \<Rightarrow> string \<Rightarrow> auth_state \<Rightarrow> auth_state" where
  "createSession now rq rnd username st =
     (let sid = HexEncode (fst rnd);
          st1 = setCSRFCookie rq (snd rnd) (set_cookie rq sessionCookieName sid True sessionTTL st)
      in st1\<lparr>at_sessions := (at_sessions st1)(sid \<mapsto> (username, now + sessionTTL))\<rparr>)"

definition logSessionDrop :: "int \<Rightarrow> string \<Rightarrow> auth_state \<Rightarrow> auth_state" where
  "logSessionDrop now key st =
     (case at_drops st key of
        Some t \<Rightarrow> if now - t < 600 then st else st\<lparr>at_drops := (at_drops st)(key \<mapsto> now)\<rparr>
      | None \<Rightarrow> st\<lparr>at_drops := (at_drops st)(key \<mapsto> now)\<rparr>)"

definition getSession :: "int \<Rightarrow> request \<Rightarrow> auth_state \<Rightarrow> string \<times> auth_state" where
  "getSession now rq st =
     (case rq_cookie rq sessionCookieName of
        None \<Rightarrow> ([], st)
      | Some sid \<Rightarrow>
          (case at_sessions st sid of
             None \<Rightarrow> ([], logSessionDrop now (shortID sid) st)
           | Some (username, expires) \<Rightarrow>
               if expires < now
               then ([], logSessionDrop now (shortID sid) (st\<lparr>at_sessions := (at_sessions st)(sid := None)\<rparr>))
               else (username, st)))"

text \<open>One tick of the hourly cleaner.\<close>

definition cleanupSessions :: "int \<Rightarrow> auth_state \<Rightarrow> auth_state" where
  "cleanupSessions now st =
     st\<lparr>at_sessions := (\<lambda>k. case at_sessions st k of
            Some (u, e) \<Rightarrow> if e < now then None else Some (u, e) | None \<Rightarrow> None),
        at_drops := (\<lambda>k. case at_drops st k of
            Some t \<Rightarrow> if 3600 < now - t then None else Some t | None \<Rightarrow> None)\<rparr>"

definition clearSession :: "request \<Rightarrow> auth_state \<Rightarrow> auth_state" where
  "clearSession rq st =
     set_cookie rq csrfCookieName [] False (-1) (set_cookie rq sessionCookieName [] True (-1) st)"

section \<open>Challenges\<close>

text \<open>401 with the Bearer challenge for registry paths, else a redirect to the login page.\<close>

definition challenge :: "request \<Rightarrow> int" where
  "challenge rq = (if rq_path rq = ''/v2'' \<or> HasPrefix (rq_path rq) ''/v2/'' then 401 else 303)"

definition v2Challenge :: "auth_cfg \<Rightarrow> request \<Rightarrow> string" where
  "v2Challenge cfg rq =
     ''Bearer realm=\"'' @ externalOrigin (ac_external cfg) rq @ ''/v2/token\",service=\"registry-ui\"''"

datatype auth_result = Next request | Stop int

definition user_by_name :: "string \<Rightarrow> auth_state \<Rightarrow> user_row sres" where
  "user_by_name name st = GetUserByUsername name (at_store st)"

definition basic_auth ::
    "crypto \<Rightarrow> int \<Rightarrow> string \<times> string \<Rightarrow> request \<Rightarrow> auth_state \<Rightarrow> auth_result \<times> auth_state" where
  "basic_auth cr now rnd rq st =
     (case rq_basic rq of
        None \<Rightarrow> (Stop (challenge rq), st)
      | Some (user, pass) \<Rightarrow>
          (case user_by_name user st of
             Inl _ \<Rightarrow> (Stop (challenge rq), st)
           | Inr u \<Rightarrow>
               if \<not> us_enabled u then (Stop (challenge rq), st)
               else if VerifyPasswordHash cr (us_hash u) pass
               then let st1 = st\<lparr>at_store := maybeUpgradePassword cr now u pass (at_store st)\<rparr>;
                        st2 = (if HasPrefix (rq_path rq) ''/v2/'' then st1 else createSession now rq rnd user st1)
                    in (Next (rq\<lparr>rq_user := Some u\<rparr>), st2)
               else (Stop (challenge rq), st)))"

definition requireUIAuth ::
    "auth_cfg \<Rightarrow> crypto \<Rightarrow> int \<Rightarrow> string \<times> string \<Rightarrow> request \<Rightarrow> auth_state \<Rightarrow> auth_result \<times> auth_state" where
  "requireUIAuth cfg cr now rnd rq st =
     (if \<not> authEnabled cfg then (Next rq, st)
      else case getSession now rq st of (name, st1) \<Rightarrow>
        if name \<noteq> [] then
          (case user_by_name name st1 of
             Inr u \<Rightarrow> if us_enabled u then (Next (rq\<lparr>rq_user := Some u\<rparr>), st1)
                      else basic_auth cr now rnd rq (clearSession rq (logSessionDrop now name st1))
           | Inl _ \<Rightarrow> basic_auth cr now rnd rq (clearSession rq (logSessionDrop now name st1)))
        else basic_auth cr now rnd rq st1)"

section \<open>API tokens\<close>

definition checkAPITokenAuth :: "crypto \<Rightarrow> int \<Rightarrow> request \<Rightarrow> auth_state \<Rightarrow> request option \<times> auth_state" where
  "checkAPITokenAuth cr now rq st =
     (let auth = rq_header rq ''Authorization'' in
      if \<not> HasPrefix auth ''Bearer '' then (None, st)
      else let token = TrimPrefix auth ''Bearer '' in
        if length token < 16 then (None, st)
        else case SplitN 3 token ''_'' of
          [ru, prefix, secret] \<Rightarrow>
            if ru \<noteq> ''ru'' then (None, st)
            else (case GetAPITokenByPrefix prefix (at_store st) of
               Inl _ \<Rightarrow> (None, st)
             | Inr stored \<Rightarrow>
                 if (case tk_expires stored of None \<Rightarrow> False | Some e \<Rightarrow> e < now) then (None, st)
                 else if \<not> constantTimeEqual (sha256Hex cr secret) (tk_hash stored) then (None, st)
                 else (case GetUserByID (tk_user stored) (at_store st) of
                    Inl _ \<Rightarrow> (None, st)
                  | Inr u \<Rightarrow>
                      if \<not> us_enabled u then (None, st)
                      else (Some (rq\<lparr>rq_user := Some u\<rparr>),
                            st\<lparr>at_store := snd (TouchAPIToken now (tk_id stored) (at_store st))\<rparr>)))
        | _ \<Rightarrow> (None, st))"

section \<open>Registry tokens\<close>

definition v2TokenTTL :: int where "v2TokenTTL = 86400"

definition nul :: char where "nul = CHR 0x00"

definition token_payload :: "int \<Rightarrow> string \<Rightarrow> int \<Rightarrow> string" where
  "token_payload uid username expires = Itoa uid @ [nul] @ username @ [nul] @ Itoa expires"

definition mintV2Token :: "auth_cfg \<Rightarrow> crypto \<Rightarrow> int \<Rightarrow> int \<Rightarrow> string \<Rightarrow> int \<Rightarrow> string" where
  "mintV2Token cfg cr now uid username ttl =
     (let payload = token_payload uid username (now + ttl)
      in RawURLEncode payload @ ''.'' @ RawURLEncode (cr_hmac cr (ac_secret cfg) payload))"

definition validateV2Token :: "auth_cfg \<Rightarrow> crypto \<Rightarrow> int \<Rightarrow> string \<Rightarrow> string option" where
  "validateV2Token cfg cr now token =
     (case Split token ''.'' of
        [p, g] \<Rightarrow>
          (case RawURLDecode p of None \<Rightarrow> None
           | Some payload \<Rightarrow> (case RawURLDecode g of None \<Rightarrow> None
             | Some sig \<Rightarrow>
                 if sig \<noteq> cr_hmac cr (ac_secret cfg) payload then None
                 else (case SplitN 3 payload [nul] of
                    [_, username, expiry] \<Rightarrow>
                      (case Atoi expiry of
                         (_, Some _) \<Rightarrow> None
                       | (e, None) \<Rightarrow> if e \<le> now then None else Some username)
                  | _ \<Rightarrow> None)))
      | _ \<Rightarrow> None)"

datatype v2AuthOutcome = V2Rejected int | V2Anonymous | V2User request

definition authenticateV2Bearer ::
    "auth_cfg \<Rightarrow> crypto \<Rightarrow> int \<Rightarrow> request \<Rightarrow> string \<Rightarrow> auth_state \<Rightarrow> v2AuthOutcome \<times> auth_state" where
  "authenticateV2Bearer cfg cr now rq token st =
     (if HasPrefix token ''ru_'' then
        (case checkAPITokenAuth cr now rq st of
           (Some rq', st') \<Rightarrow> (V2User rq', st')
         | (None, st') \<Rightarrow> (V2Rejected (challenge rq), st'))
      else case validateV2Token cfg cr now token of
        None \<Rightarrow> (V2Rejected (challenge rq), st)
      | Some username \<Rightarrow>
          if username = [] then (V2Anonymous, st)
          else (case user_by_name username st of
             Inl _ \<Rightarrow> (V2Rejected (challenge rq), st)
           | Inr u \<Rightarrow> if us_enabled u then (V2User (rq\<lparr>rq_user := Some u\<rparr>), st)
                      else (V2Rejected (challenge rq), st)))"

definition anonymousV2Pull :: "request \<Rightarrow> auth_state \<Rightarrow> bool \<times> auth_state" where
  "anonymousV2Pull rq st =
     (if rq_method rq \<noteq> ''GET'' \<and> rq_method rq \<noteq> ''HEAD'' then (False, st)
      else let repo = v2PullResourceRepoPath (rq_path rq) in
        if repo = [] then (False, st)
        else case isAnonymousPullAllowed repo (at_store st) of
          (b, s1) \<Rightarrow> (b, st\<lparr>at_store := s1\<rparr>))"

record v2_credentials =
  vc_token :: string
  vc_expires :: int

definition handleV2Token ::
    "auth_cfg \<Rightarrow> crypto \<Rightarrow> int \<Rightarrow> request \<Rightarrow> store \<Rightarrow> v2_credentials reply \<times> store" where
  "handleV2Token cfg cr now rq s =
     (let issue = (\<lambda>uid name. Reply 200 \<lparr>vc_token = mintV2Token cfg cr now uid name v2TokenTTL, vc_expires = v2TokenTTL\<rparr>)
      in if rq_method rq \<noteq> ''GET'' \<and> rq_method rq \<noteq> ''HEAD'' then (Fail 405, s)
         else case rq_basic rq of
           None \<Rightarrow> (issue 0 [], s)
         | Some (user, pass) \<Rightarrow>
             (let refuse = (Fail 401, snd (AddAudit now 0 ''login'' [] [] [] ''error''
                    (''v2 token rejected for user='' @ user) s))
              in case GetUserByUsername user s of
                Inl _ \<Rightarrow> refuse
              | Inr u \<Rightarrow>
                  if \<not> us_enabled u \<or> \<not> VerifyPasswordHash cr (us_hash u) pass then refuse
                  else (issue (us_id u) (us_name u), maybeUpgradePassword cr now u pass s)))"

end
