(* ===== verification/Auth_Flow.thy ===== *)
theory Auth_Flow
  imports Auth
begin

text \<open>
  The middlewares every request runs through (\<^verbatim>\<open>withAuth\<close>, \<^verbatim>\<open>enforcePasswordChange\<close>,
  \<^verbatim>\<open>requireCSRF\<close>, \<^verbatim>\<open>securityHeaders\<close>) and the handlers that open and close a session or change a
  password (\<^verbatim>\<open>handleLogin\<close>, \<^verbatim>\<open>handleLogout\<close>, \<^verbatim>\<open>handleUserPassword\<close>). The lemmas say who gets past
  them, how long a session lives and what a registry token is worth. A JSON body is an argument,
  None when it does not decode.
\<close>

section \<open>Middlewares\<close>

definition mustChangePasswordExempt :: "string \<Rightarrow> bool" where
  "mustChangePasswordExempt path \<longleftrightarrow>
     path \<in> set [''/api/login'', ''/api/logout'', ''/api/user'', ''/api/me'', ''/api/user/password'']"

definition isEndpointPath :: "string \<Rightarrow> bool" where
  "isEndpointPath path \<longleftrightarrow> HasPrefix path ''/api/'' \<or> HasPrefix path ''/v2/''"

definition enforcePasswordChange :: "request \<Rightarrow> auth_result" where
  "enforcePasswordChange rq =
     (case rq_user rq of
        None \<Rightarrow> Next rq
      | Some u \<Rightarrow>
          if \<not> us_mustchange u then Next rq
          else if mustChangePasswordExempt (rq_path rq) \<or> \<not> isEndpointPath (rq_path rq) then Next rq
          else Stop 403)"

definition v2AuthMode :: "auth_cfg \<Rightarrow> string" where
  "v2AuthMode cfg = (let mode = ToLower (TrimSpace (ac_v2mode cfg))
                     in if mode = [] then ''registry'' else mode)"

definition auth_exempt :: "string \<Rightarrow> bool" where
  "auth_exempt path \<longleftrightarrow>
     path = ''/login'' \<or> path = ''/login.html'' \<or> path = ''/api/login'' \<or> path = ''/v2/token'' \<or>
     HasPrefix path ''/uploads/'' \<or> HasSuffix path ''.css'' \<or> HasSuffix path ''.js'' \<or>
     HasSuffix path ''.html'' \<or> HasSuffix path ''.svg'' \<or> HasSuffix path ''.png''"

text \<open>
  The middle of the \<^verbatim>\<open>ui/basic/same\<close> branch: which identity the credential gives. \<open>Served\<close> hands
  the request on at once, past the permission checks.
\<close>

datatype v2_identity = Served | Identified request | Refused int

definition v2_identify ::
    "auth_cfg \<Rightarrow> crypto \<Rightarrow> int \<Rightarrow> string \<times> string \<Rightarrow> request \<Rightarrow> auth_state \<Rightarrow> v2_identity \<times> auth_state" where
  "v2_identify cfg cr now rnd rq st =
     (let authz = rq_header rq ''Authorization'';
          ui = (\<lambda>s1. case requireUIAuth cfg cr now rnd rq s1 of
                  (Next rq', s2) \<Rightarrow> (Identified rq', s2) | (Stop c, s2) \<Rightarrow> (Refused c, s2))
      in if authz = [] then
           (case anonymousV2Pull rq st of
              (True, s1) \<Rightarrow> (Served, s1) | (False, s1) \<Rightarrow> ui s1)
         else if HasPrefix authz ''Bearer '' then
           (case authenticateV2Bearer cfg cr now rq (TrimSpace (TrimPrefix authz ''Bearer '')) st of
              (V2Rejected c, s1) \<Rightarrow> (Refused c, s1)
            | (V2Anonymous, s1) \<Rightarrow>
                (case anonymousV2Pull rq s1 of
                   (True, s2) \<Rightarrow> (Served, s2)
                 | (False, s2) \<Rightarrow>
                     if rq_path rq = ''/v2/'' \<or> rq_path rq = ''/v2'' then (Served, s2)
                     else (Refused (challenge rq), s2))
            | (V2User rq', s1) \<Rightarrow> (Identified rq', s1))
         else ui st)"

definition v2_authorize :: "request \<Rightarrow> store \<Rightarrow> auth_result" where
  "v2_authorize rq s =
     (let repoPath = extractV2RepoPath (rq_path rq) in
      if repoPath = [] then Next rq
      else if \<not> userCanAccessRepo rq repoPath s then Stop 403
      else if rq_method rq \<in> set [''PUT'', ''POST'', ''PATCH'', ''DELETE''] \<and>
              \<not> userCanWriteRepo rq repoPath s then Stop 403
      else Next rq)"

definition and_then :: "auth_result \<Rightarrow> (request \<Rightarrow> auth_result) \<Rightarrow> auth_result" where
  "and_then r f = (case r of Next rq \<Rightarrow> f rq | Stop c \<Rightarrow> Stop c)"

definition withAuth ::
    "auth_cfg \<Rightarrow> crypto \<Rightarrow> int \<Rightarrow> string \<times> string \<Rightarrow> request \<Rightarrow> auth_state \<Rightarrow> auth_result \<times> auth_state" where
  "withAuth cfg cr now rnd rq st =
     (if \<not> authEnabled cfg then (Next rq, st)
      else if auth_exempt (rq_path rq) then (Next rq, st)
      else if HasPrefix (rq_path rq) ''/v2/'' then
        (let mode = v2AuthMode cfg in
         if mode \<in> set [''ui'', ''basic'', ''same''] then
           (case v2_identify cfg cr now rnd rq st of
              (Served, s1) \<Rightarrow> (Next rq, s1)
            | (Refused c, s1) \<Rightarrow> (Stop c, s1)
            | (Identified rq', s1) \<Rightarrow>
                (and_then (v2_authorize rq' (at_store s1)) enforcePasswordChange, s1))
         else if mode \<in> set [''registry'', ''proxy'', ''off''] then (enforcePasswordChange rq, st)
         else (case requireUIAuth cfg cr now rnd rq st of
                 (r, s1) \<Rightarrow> (and_then r enforcePasswordChange, s1)))
      else case checkAPITokenAuth cr now rq st of
        (Some rq', s1) \<Rightarrow> (enforcePasswordChange rq', s1)
      | (None, s1) \<Rightarrow>
          (case requireUIAuth cfg cr now rnd rq s1 of
             (r, s2) \<Rightarrow> (and_then r enforcePasswordChange, s2)))"

definition validateCSRF :: "request \<Rightarrow> bool" where
  "validateCSRF rq =
     (case rq_cookie rq csrfCookieName of
        None \<Rightarrow> False
      | Some c \<Rightarrow> (let h = rq_header rq ''X-CSRF-Token''
                  in if h = [] then False else constantTimeEqual c h))"

definition requireCSRF :: "auth_cfg \<Rightarrow> request \<Rightarrow> auth_result" where
  "requireCSRF cfg rq =
     (if rq_method rq \<in> set [''GET'', ''HEAD'', ''OPTIONS''] then Next rq
      else if rq_path rq = ''/api/login'' \<or> HasPrefix (rq_path rq) ''/v2/'' then Next rq
      else if HasPrefix (rq_header rq ''Authorization'') ''Bearer '' then Next rq
      else if \<not> authEnabled cfg then Next rq
      else if \<not> validateCSRF rq then Stop 403
      else Next rq)"

text \<open>The response headers \<^verbatim>\<open>securityHeaders\<close> adds, by name.\<close>

definition securityHeaders :: "request \<Rightarrow> string list" where
  "securityHeaders rq =
     (if HasPrefix (rq_path rq) ''/v2/'' then []
      else [''X-Content-Type-Options'', ''X-Frame-Options'', ''Referrer-Policy'',
            ''Content-Security-Policy''] @
           (if secureCookie rq then [''Strict-Transport-Security''] else []))"

text \<open>\<^verbatim>\<open>Handler\<close>: the CSRF check first, then authentication.\<close>

definition Handler ::
    "auth_cfg \<Rightarrow> crypto \<Rightarrow> int \<Rightarrow> string \<times> string \<Rightarrow> request \<Rightarrow> auth_state \<Rightarrow> auth_result \<times> auth_state" where
  "Handler cfg cr now rnd rq st =
     (case requireCSRF cfg rq of
        Stop c \<Rightarrow> (Stop c, st) | Next rq' \<Rightarrow> withAuth cfg cr now rnd rq' st)"

section \<open>Login, logout, password\<close>

record login_view =
  lv_name :: string
  lv_admin :: bool
  lv_mustchange :: bool

definition audit_on :: "int \<Rightarrow> int \<Rightarrow> string \<Rightarrow> string \<Rightarrow> string \<Rightarrow> auth_state \<Rightarrow> auth_state" where
  "audit_on now uid action status detail st =
     st\<lparr>at_store := snd (AddAudit now uid action [] [] [] status detail (at_store st))\<rparr>"

definition handleLogin ::
    "crypto \<Rightarrow> int \<Rightarrow> string \<times> string \<Rightarrow> request \<Rightarrow> (string \<times> string) option \<Rightarrow> auth_state \<Rightarrow>
     login_view reply \<times> auth_state" where
  "handleLogin cr now rnd rq body st =
     (if rq_method rq \<noteq> ''POST'' then (Fail 405, st)
      else case body of
        None \<Rightarrow> (Fail 400, st)
      | Some (username, password) \<Rightarrow>
          (let refuse = (Fail 401, audit_on now 0 ''login'' ''error''
                 (''invalid credentials for user='' @ username) st)
           in case user_by_name username st of
                Inl _ \<Rightarrow> refuse
              | Inr u \<Rightarrow>
                  if us_enabled u \<and> VerifyPasswordHash cr (us_hash u) password
                  then let st1 = st\<lparr>at_store := maybeUpgradePassword cr now u password (at_store st)\<rparr>;
                           st2 = createSession now rq rnd username st1;
                           st3 = audit_on now (us_id u) ''login'' ''ok'' (''user='' @ username) st2
                       in (Reply 200 \<lparr>lv_name = username, lv_admin = us_admin u, lv_mustchange = us_mustchange u\<rparr>, st3)
                  else refuse))"

definition handleLogout :: "request \<Rightarrow> auth_state \<Rightarrow> unit reply \<times> auth_state" where
  "handleLogout rq st =
     (if rq_method rq \<noteq> ''POST'' then (Fail 405, st)
      else let st1 = (case rq_cookie rq sessionCookieName of
                  None \<Rightarrow> st | Some sid \<Rightarrow> st\<lparr>at_sessions := (at_sessions st)(sid := None)\<rparr>)
           in (Reply 200 (), clearSession rq st1))"

definition handleUserPassword ::
    "crypto \<Rightarrow> int \<Rightarrow> request \<Rightarrow> (string \<times> string) option \<Rightarrow> store \<Rightarrow> unit reply \<times> store" where
  "handleUserPassword cr now rq body s =
     (if rq_method rq \<noteq> ''POST'' then (Fail 405, s)
      else case body of
        None \<Rightarrow> (Fail 400, s)
      | Some (old, new) \<Rightarrow>
          if length new < 6 then (Fail 400, s)
          else (case rq_user rq of
             None \<Rightarrow> (Fail 401, s)
           | Some cur \<Rightarrow>
               (let audit = AddAudit now (currentUserID rq) ''user.password.change'' [] [] [];
                    refuse = (Fail 403, snd (audit ''error'' (''old password incorrect user='' @ currentUsername rq) s))
                in case GetUserByID (us_id cur) s of
                     Inl _ \<Rightarrow> refuse
                   | Inr full \<Rightarrow>
                       if \<not> VerifyPasswordHash cr (us_hash full) old then refuse
                       else (case UpdateUserPassword now (cr_bcrypt cr) (us_id cur) new s of
                          (Inl _, s1) \<Rightarrow> (Fail 500, s1)
                        | (Inr _, s1) \<Rightarrow> (Reply 200 (), snd (audit ''ok'' (''user='' @ currentUsername rq) s1))))))"

section \<open>Who gets past\<close>

definition enabled_user :: "user_row \<Rightarrow> store \<Rightarrow> bool" where
  "enabled_user u s \<longleftrightarrow> u \<in> set (trows (s_users s)) \<and> us_enabled u"

text \<open>Authentication leaves the permissions alone.\<close>

definition same_perms :: "store \<Rightarrow> store \<Rightarrow> bool" where
  "same_perms s s' \<longleftrightarrow> s_perms s' = s_perms s \<and> s_fault s' = s_fault s"

lemma same_perms_refl [simp]: "same_perms s s"
  by (simp add: same_perms_def)

lemma same_perms_access:
  assumes "same_perms s s'"
  shows "userCanAccessRepo rq repo s' = userCanAccessRepo rq repo s"
    "userCanWriteRepo rq repo s' = userCanWriteRepo rq repo s"
  using assms by (simp_all add: same_perms_def userCanAccessRepo_iff userCanWriteRepo_iff granted_def)

lemma maybeUpgrade_same [simp]: "same_perms s (maybeUpgradePassword cr now u p s)"
  by (auto simp: same_perms_def maybeUpgradePassword_def SetUserPasswordHash_def update_user_def
      split: option.splits)

lemma touch_same [simp]: "same_perms s (snd (TouchAPIToken now i s))"
  by (simp add: same_perms_def TouchAPIToken_def)

lemma session_store [simp]:
  "at_store (set_cookie rq n v h m st) = at_store st" "at_store (setCSRFCookie rq r st) = at_store st"
  "at_store (createSession now rq rnd u st) = at_store st"
  "at_store (logSessionDrop now k st) = at_store st" "at_store (clearSession rq st) = at_store st"
  "at_store (cleanupSessions now st) = at_store st"
  by (simp_all add: set_cookie_def setCSRFCookie_def createSession_def logSessionDrop_def
      clearSession_def cleanupSessions_def Let_def split: option.split)

lemma getSession_store [simp]: "at_store (snd (getSession now rq st)) = at_store st"
  by (simp add: getSession_def split: option.split)

lemma found_user:
  "GetUserByUsername n s = Inr u \<Longrightarrow> u \<in> set (trows (s_users s)) \<and> us_name u = n"
  "GetUserByID i s = Inr u \<Longrightarrow> u \<in> set (trows (s_users s)) \<and> us_id u = i"
  by (auto simp: GetUserByUsername_def GetUserByID_def dest: tfind_SomeD split: if_splits)

text \<open>
  The credential that backs a user, stated without the code that checks it: a session that has
  not expired, the password, an API token, or a registry token of the process.
\<close>

definition has_session :: "int \<Rightarrow> request \<Rightarrow> user_row \<Rightarrow> (string \<rightharpoonup> string \<times> int) \<Rightarrow> bool" where
  "has_session now rq u sessions \<longleftrightarrow>
     (\<exists>sid e. rq_cookie rq sessionCookieName = Some sid \<and> sessions sid = Some (us_name u, e) \<and> now \<le> e)"

definition has_password :: "crypto \<Rightarrow> request \<Rightarrow> user_row \<Rightarrow> bool" where
  "has_password cr rq u \<longleftrightarrow>
     (\<exists>pw. rq_basic rq = Some (us_name u, pw) \<and> VerifyPasswordHash cr (us_hash u) pw)"

definition has_api_token :: "crypto \<Rightarrow> int \<Rightarrow> request \<Rightarrow> user_row \<Rightarrow> store \<Rightarrow> bool" where
  "has_api_token cr now rq u s \<longleftrightarrow>
     (\<exists>prefix secret tk.
        HasPrefix (rq_header rq ''Authorization'') ''Bearer '' \<and>
        SplitN 3 (TrimPrefix (rq_header rq ''Authorization'') ''Bearer '') ''_'' = [''ru'', prefix, secret] \<and>
        GetAPITokenByPrefix prefix s = Inr tk \<and> tk_hash tk = sha256Hex cr secret \<and>
        tk_user tk = us_id u \<and> (case tk_expires tk of None \<Rightarrow> True | Some e \<Rightarrow> now \<le> e))"

definition has_v2_token :: "auth_cfg \<Rightarrow> crypto \<Rightarrow> int \<Rightarrow> request \<Rightarrow> user_row \<Rightarrow> bool" where
  "has_v2_token cfg cr now rq u \<longleftrightarrow>
     validateV2Token cfg cr now (TrimSpace (TrimPrefix (rq_header rq ''Authorization'') ''Bearer '')) =
       Some (us_name u)"

definition backed_by ::
    "auth_cfg \<Rightarrow> crypto \<Rightarrow> int \<Rightarrow> request \<Rightarrow> user_row \<Rightarrow> auth_state \<Rightarrow> bool" where
  "backed_by cfg cr now rq u st \<longleftrightarrow>
     has_session now rq u (at_sessions st) \<or> has_password cr rq u \<or>
     has_api_token cr now rq u (at_store st) \<or> has_v2_token cfg cr now rq u"

lemma getSession_has_session:
  assumes "getSession now rq st = (name, st1)" "name \<noteq> []" "us_name u = name"
  shows "has_session now rq u (at_sessions st)"
  using assms by (auto simp: getSession_def has_session_def split: option.splits if_splits)

lemma basic_auth_user:
  assumes "basic_auth cr now rnd rq st = (Next rq', st')"
  shows "\<exists>u. rq' = rq\<lparr>rq_user := Some u\<rparr> \<and> has_password cr rq u \<and> enabled_user u (at_store st) \<and>
    same_perms (at_store st) (at_store st')"
  using assms found_user(1)
  by (fastforce simp: basic_auth_def user_by_name_def enabled_user_def has_password_def Let_def
      split: option.splits sum.splits if_splits)

lemma requireUIAuth_user:
  assumes "requireUIAuth cfg cr now rnd rq st = (Next rq', st')" "authEnabled cfg"
  shows "\<exists>u. rq' = rq\<lparr>rq_user := Some u\<rparr> \<and>
    (has_session now rq u (at_sessions st) \<or> has_password cr rq u) \<and> enabled_user u (at_store st) \<and>
    same_perms (at_store st) (at_store st')"
proof -
  obtain name st1 where g: "getSession now rq st = (name, st1)" by fastforce
  have [simp]: "at_store st1 = at_store st" using getSession_store[of now rq st] g by simp
  show ?thesis
  proof (cases "name \<noteq> [] \<and> (\<exists>u. user_by_name name st1 = Inr u \<and> us_enabled u)")
    case True
    then obtain u where u: "name \<noteq> []" "GetUserByUsername name (at_store st) = Inr u" "us_enabled u"
      by (auto simp: user_by_name_def)
    then have "rq' = rq\<lparr>rq_user := Some u\<rparr>" "st' = st1"
      using assms g by (auto simp: requireUIAuth_def user_by_name_def)
    moreover have "has_session now rq u (at_sessions st)"
      using getSession_has_session[OF g u(1)] found_user(1)[OF u(2)] by simp
    ultimately show ?thesis using u found_user(1)[OF u(2)]
      by (intro exI[of _ u]) (simp add: enabled_user_def)
  next
    case False
    then have "basic_auth cr now rnd rq st1 = (Next rq', st') \<or>
        basic_auth cr now rnd rq (clearSession rq (logSessionDrop now name st1)) = (Next rq', st')"
      using assms g by (auto simp: requireUIAuth_def split: sum.splits if_splits)
    then show ?thesis
      using basic_auth_user[of cr now rnd rq st1 rq' st']
        basic_auth_user[of cr now rnd rq "clearSession rq (logSessionDrop now name st1)" rq' st'] by auto
  qed
qed

lemma checkAPITokenAuth_user:
  assumes "checkAPITokenAuth cr now rq st = (Some rq', st')"
  shows "\<exists>u. rq' = rq\<lparr>rq_user := Some u\<rparr> \<and> has_api_token cr now rq u (at_store st) \<and>
    enabled_user u (at_store st) \<and> same_perms (at_store st) (at_store st')"
proof -
  let ?token = "TrimPrefix (rq_header rq ''Authorization'') ''Bearer ''"
  obtain prefix secret where p: "HasPrefix (rq_header rq ''Authorization'') ''Bearer ''"
      "SplitN 3 ?token ''_'' = [''ru'', prefix, secret]"
    using assms by (auto simp: checkAPITokenAuth_def Let_def split: if_splits list.splits)
  then obtain tk u where t: "GetAPITokenByPrefix prefix (at_store st) = Inr tk"
      "\<not> (case tk_expires tk of None \<Rightarrow> False | Some e \<Rightarrow> e < now)"
      "constantTimeEqual (sha256Hex cr secret) (tk_hash tk)"
      "GetUserByID (tk_user tk) (at_store st) = Inr u" "us_enabled u"
      "rq' = rq\<lparr>rq_user := Some u\<rparr>"
      "st' = st\<lparr>at_store := snd (TouchAPIToken now (tk_id tk) (at_store st))\<rparr>"
    using assms by (auto simp: checkAPITokenAuth_def Let_def split: sum.splits if_splits)
  have "has_api_token cr now rq u (at_store st)"
    using p t found_user(2)[OF t(4)] unfolding has_api_token_def
    by (intro exI[of _ prefix] exI[of _ secret] exI[of _ tk])
      (auto simp: constantTimeEqual_def split: if_splits option.splits)
  with t found_user(2)[OF t(4)] show ?thesis
    by (intro exI[of _ u]) (simp add: enabled_user_def)
qed

lemma checkAPITokenAuth_None:
  "checkAPITokenAuth cr now rq st = (None, st') \<Longrightarrow> st' = st"
  by (auto simp: checkAPITokenAuth_def Let_def split: option.splits sum.splits if_splits list.splits)

lemma bearer_user:
  assumes "authenticateV2Bearer cfg cr now rq token st = (V2User rq', st')"
  shows "\<exists>u. rq' = rq\<lparr>rq_user := Some u\<rparr> \<and>
    (has_api_token cr now rq u (at_store st) \<or> validateV2Token cfg cr now token = Some (us_name u)) \<and>
    enabled_user u (at_store st) \<and> same_perms (at_store st) (at_store st')"
  using assms found_user(1) checkAPITokenAuth_user[of cr now rq st]
  by (fastforce simp: authenticateV2Bearer_def user_by_name_def enabled_user_def
      split: option.splits sum.splits if_splits prod.splits)

lemma bearer_anonymous:
  assumes "authenticateV2Bearer cfg cr now rq token st = (V2Anonymous, st')"
  shows "st' = st \<and> validateV2Token cfg cr now token = Some []"
  using assms
  by (auto simp: authenticateV2Bearer_def split: option.splits sum.splits if_splits prod.splits)

lemma anonymousV2Pull_same: "same_data (at_store st) (at_store (snd (anonymousV2Pull rq st)))"
proof -
  have "same_data s s'" if "isAnonymousPullAllowed repo s = (b, s')" for repo s b s'
    using policy_same_data(5)[of s repo] that by simp
  then show ?thesis by (auto simp: anonymousV2Pull_def Let_def split: prod.split)
qed

lemma anonymousV2Pull_sessions: "at_sessions (snd (anonymousV2Pull rq st)) = at_sessions st"
  by (simp add: anonymousV2Pull_def Let_def split: prod.split)

lemma anonymousV2Pull_True:
  assumes "anonymousV2Pull rq st = (True, st')"
  shows "rq_method rq \<in> set [''GET'', ''HEAD''] \<and> v2PullResourceRepoPath (rq_path rq) \<noteq> [] \<and>
    fst (isAnonymousPullAllowed (v2PullResourceRepoPath (rq_path rq)) (at_store st))"
  using assms by (auto simp: anonymousV2Pull_def Let_def split: if_splits prod.splits)

lemma enforce_Next: "enforcePasswordChange rq = Next rq' \<Longrightarrow> rq' = rq"
  by (auto simp: enforcePasswordChange_def split: option.splits if_splits)

lemma authorize_Next:
  assumes "and_then (v2_authorize rq s) enforcePasswordChange = Next rq'"
  shows "rq' = rq \<and> (extractV2RepoPath (rq_path rq) \<noteq> [] \<longrightarrow>
    userCanAccessRepo rq (extractV2RepoPath (rq_path rq)) s \<and>
    (isMutatingMethod (rq_method rq) \<longrightarrow> userCanWriteRepo rq (extractV2RepoPath (rq_path rq)) s))"
  using assms
  by (auto simp: and_then_def v2_authorize_def Let_def isMutatingMethod_def dest: enforce_Next
      split: if_splits auth_result.splits)

text \<open>What may reach a handler without any user.\<close>

definition served_to_anyone :: "auth_cfg \<Rightarrow> request \<Rightarrow> auth_state \<Rightarrow> bool" where
  "served_to_anyone cfg rq st \<longleftrightarrow>
     auth_exempt (rq_path rq) \<or>
     HasPrefix (rq_path rq) ''/v2/'' \<and>
       (v2AuthMode cfg \<in> set [''registry'', ''proxy'', ''off''] \<or>
        rq_path rq = ''/v2/'' \<or>
        rq_method rq \<in> set [''GET'', ''HEAD''] \<and> v2PullResourceRepoPath (rq_path rq) \<noteq> [] \<and>
        fst (isAnonymousPullAllowed (v2PullResourceRepoPath (rq_path rq)) (at_store st)))"

text \<open>What reaches it as user \<open>u\<close>: the mode that checks permissions checks them.\<close>

definition served_to_user :: "auth_cfg \<Rightarrow> request \<Rightarrow> user_row \<Rightarrow> store \<Rightarrow> bool" where
  "served_to_user cfg rq u s \<longleftrightarrow>
     (let as_u = rq\<lparr>rq_user := Some u\<rparr>; repo = extractV2RepoPath (rq_path rq) in
      enabled_user u s \<and>
      (HasPrefix (rq_path rq) ''/v2/'' \<and> v2AuthMode cfg \<in> set [''ui'', ''basic'', ''same''] \<and> repo \<noteq> [] \<longrightarrow>
         userCanAccessRepo as_u repo s \<and>
         (isMutatingMethod (rq_method rq) \<longrightarrow> userCanWriteRepo as_u repo s)))"

lemma v2_identify_cases:
  assumes "v2_identify cfg cr now rnd rq st = (r, st')" "authEnabled cfg"
  shows "case r of
      Served \<Rightarrow> rq_path rq \<in> set [''/v2/'', ''/v2''] \<or>
        (rq_method rq \<in> set [''GET'', ''HEAD''] \<and> v2PullResourceRepoPath (rq_path rq) \<noteq> [] \<and>
         fst (isAnonymousPullAllowed (v2PullResourceRepoPath (rq_path rq)) (at_store st)))
    | Identified rq' \<Rightarrow>
        (\<exists>u. rq' = rq\<lparr>rq_user := Some u\<rparr> \<and> backed_by cfg cr now rq u st \<and> enabled_user u (at_store st)) \<and>
        same_perms (at_store st) (at_store st')
    | Refused c \<Rightarrow> True"
proof -
  define authz where "authz = rq_header rq ''Authorization''"
  define token where "token = TrimSpace (TrimPrefix authz ''Bearer '')"
  have ui: "(\<exists>u. rq' = rq\<lparr>rq_user := Some u\<rparr> \<and> backed_by cfg cr now rq u st \<and> enabled_user u (at_store st)) \<and>
      same_perms (at_store st) (at_store s2)"
    if "requireUIAuth cfg cr now rnd rq s1 = (Next rq', s2)" "same_data (at_store st) (at_store s1)"
      "at_sessions s1 = at_sessions st" for rq' s1 s2
    using requireUIAuth_user[OF that(1) assms(2)] same_data_fields[OF that(2)] that(3)
    by (auto simp: same_perms_def enabled_user_def backed_by_def)
  consider (none) "authz = []" | (bearer) "authz \<noteq> []" "HasPrefix authz ''Bearer ''"
    | (other) "authz \<noteq> []" "\<not> HasPrefix authz ''Bearer ''" by blast
  then show ?thesis
  proof cases
    case none
    obtain b s1 where a: "anonymousV2Pull rq st = (b, s1)" by fastforce
    show ?thesis
    proof (cases b)
      case True
      then show ?thesis using anonymousV2Pull_True[of rq st s1] a assms none
        by (auto simp: v2_identify_def authz_def[symmetric])
    next
      case False
      have "same_data (at_store st) (at_store s1)" using anonymousV2Pull_same[of st rq] a by simp
      moreover have "at_sessions s1 = at_sessions st" using anonymousV2Pull_sessions[of rq st] a by simp
      ultimately show ?thesis using ui[of s1] a assms none False
        by (auto simp: v2_identify_def authz_def[symmetric] split: prod.splits auth_result.splits)
    qed
  next
    case bearer
    obtain r1 s1 where a: "authenticateV2Bearer cfg cr now rq token st = (r1, s1)" by fastforce
    have e: "v2_identify cfg cr now rnd rq st = (case (r1, s1) of
        (V2Rejected c, s1) \<Rightarrow> (Refused c, s1)
      | (V2Anonymous, s1) \<Rightarrow>
          (case anonymousV2Pull rq s1 of
             (True, s2) \<Rightarrow> (Served, s2)
           | (False, s2) \<Rightarrow>
               if rq_path rq = ''/v2/'' \<or> rq_path rq = ''/v2'' then (Served, s2)
               else (Refused (challenge rq), s2))
      | (V2User rq', s1) \<Rightarrow> (Identified rq', s1))"
      using bearer by (simp add: v2_identify_def authz_def[symmetric] token_def[symmetric] a)
    show ?thesis
    proof (cases r1)
      case (V2Rejected c)
      then show ?thesis using e assms(1) by auto
    next
      case V2Anonymous
      then have [simp]: "s1 = st" using a bearer_anonymous by blast
      obtain b s2 where n: "anonymousV2Pull rq st = (b, s2)" by fastforce
      then show ?thesis using e V2Anonymous assms(1) anonymousV2Pull_True[of rq st s2]
        by (cases b) (auto split: if_splits)
    next
      case (V2User rq')
      then show ?thesis using e assms(1) bearer_user[of cfg cr now rq token st rq' s1] a
        by (auto simp: backed_by_def has_v2_token_def token_def authz_def)
    qed
  next
    case other
    from ui[OF _ same_data_refl refl] show ?thesis using assms other
      by (auto simp: v2_identify_def authz_def[symmetric] split: prod.splits auth_result.splits)
  qed
qed

text \<open>
  Past authentication: served to anyone, or to an enabled user with a credential and nothing to
  change.
\<close>

definition let_through ::
    "auth_cfg \<Rightarrow> crypto \<Rightarrow> int \<Rightarrow> request \<Rightarrow> auth_state \<Rightarrow> request \<Rightarrow> bool" where
  "let_through cfg cr now rq st rq' \<longleftrightarrow> rq' = rq \<and> served_to_anyone cfg rq st \<or>
    (\<exists>u. rq' = rq\<lparr>rq_user := Some u\<rparr> \<and> backed_by cfg cr now rq u st \<and> served_to_user cfg rq u (at_store st) \<and>
      (us_mustchange u \<longrightarrow> mustChangePasswordExempt (rq_path rq) \<or> \<not> isEndpointPath (rq_path rq)))"

lemma enforce_user:
  "enforcePasswordChange (rq\<lparr>rq_user := Some u\<rparr>) = Next r2 \<Longrightarrow>
   us_mustchange u \<longrightarrow> mustChangePasswordExempt (rq_path rq) \<or> \<not> isEndpointPath (rq_path rq)"
  by (auto simp: enforcePasswordChange_def split: if_splits)

lemma through_ui:
  assumes "requireUIAuth cfg cr now rnd rq st = (r1, s1)" "and_then r1 enforcePasswordChange = Next rq'"
    and "\<not> HasPrefix (rq_path rq) ''/v2/'' \<or> v2AuthMode cfg \<notin> set [''ui'', ''basic'', ''same'']"
    and "authEnabled cfg"
  shows "let_through cfg cr now rq st rq'"
  using requireUIAuth_user[of cfg cr now rnd rq st] assms enforce_user unfolding let_through_def
  by (cases r1) (fastforce simp: and_then_def served_to_user_def backed_by_def Let_def dest: enforce_Next)+

lemma through_v2:
  assumes "v2_identify cfg cr now rnd rq st = (Identified r2, s1)" "authEnabled cfg"
    and "and_then (v2_authorize r2 (at_store s1)) enforcePasswordChange = Next rq'"
  shows "let_through cfg cr now rq st rq'"
proof -
  obtain u where u: "r2 = rq\<lparr>rq_user := Some u\<rparr>" "enabled_user u (at_store st)"
      "backed_by cfg cr now rq u st"
    and sp: "same_perms (at_store st) (at_store s1)"
    using v2_identify_cases[OF assms(1,2)] by auto
  have "rq' = r2" "served_to_user cfg rq u (at_store st)"
    using authorize_Next[OF assms(3)] u same_perms_access[OF sp]
    by (auto simp: served_to_user_def Let_def)
  moreover have "enforcePasswordChange r2 = Next rq'"
    using assms(3) by (auto simp: and_then_def v2_authorize_def Let_def split: if_splits)
  ultimately show ?thesis using u enforce_user[of u rq rq'] by (auto simp: let_through_def)
qed

lemma through_checked:
  assumes "HasPrefix (rq_path rq) ''/v2/''" "v2AuthMode cfg \<in> set [''ui'', ''basic'', ''same'']"
    and "\<not> auth_exempt (rq_path rq)" "authEnabled cfg" "withAuth cfg cr now rnd rq st = (Next rq', st')"
  shows "let_through cfg cr now rq st rq'"
proof -
  obtain r s1 where r: "v2_identify cfg cr now rnd rq st = (r, s1)" by fastforce
  note w = assms(5)[unfolded withAuth_def]
  show ?thesis
  proof (cases r)
    case Served
    then have "rq' = rq" using w assms(1-4) r by simp
    moreover have "rq_path rq \<noteq> ''/v2''" using assms(1) by (auto simp: HasPrefix_def)
    then have "served_to_anyone cfg rq st"
      using v2_identify_cases[OF r assms(4)] assms(1) Served unfolding served_to_anyone_def by simp
    ultimately show ?thesis by (simp add: let_through_def)
  next
    case (Identified r2)
    have "and_then (v2_authorize r2 (at_store s1)) enforcePasswordChange = Next rq'"
      using w assms(1-4) r Identified by auto
    then show ?thesis using through_v2[of cfg cr now rnd rq st r2 s1] r Identified assms(4) by blast
  next
    case (Refused c)
    then show ?thesis using w assms(1-4) r by simp
  qed
qed

lemma through_token:
  assumes "checkAPITokenAuth cr now rq st = (Some r2, s1)" "enforcePasswordChange r2 = Next rq'"
    and "\<not> HasPrefix (rq_path rq) ''/v2/''"
  shows "let_through cfg cr now rq st rq'"
proof -
  obtain u where u: "r2 = rq\<lparr>rq_user := Some u\<rparr>" "enabled_user u (at_store st)"
      "backed_by cfg cr now rq u st"
    using checkAPITokenAuth_user[OF assms(1)] by (auto simp: backed_by_def)
  then show ?thesis using assms(2,3) enforce_user[of u rq rq'] enforce_Next[OF assms(2)]
    by (auto simp: served_to_user_def let_through_def Let_def)
qed

lemma withAuth_through:
  assumes "authEnabled cfg" and "withAuth cfg cr now rnd rq st = (Next rq', st')"
  shows "let_through cfg cr now rq st rq'"
proof -
  let ?v2 = "HasPrefix (rq_path rq) ''/v2/''" and ?mode = "v2AuthMode cfg"
  consider (exempt) "auth_exempt (rq_path rq)"
    | (checked) "\<not> auth_exempt (rq_path rq)" "?v2" "?mode \<in> set [''ui'', ''basic'', ''same'']"
    | (open_mode) "\<not> auth_exempt (rq_path rq)" "?v2" "?mode \<in> set [''registry'', ''proxy'', ''off'']"
    | (strict) "\<not> auth_exempt (rq_path rq)" "?v2"
        "?mode \<notin> set [''ui'', ''basic'', ''same'']" "?mode \<notin> set [''registry'', ''proxy'', ''off'']"
    | (ui) "\<not> auth_exempt (rq_path rq)" "\<not> ?v2" by blast
  then show ?thesis
  proof cases
    case exempt
    then show ?thesis using assms by (simp add: withAuth_def served_to_anyone_def let_through_def)
  next
    case checked
    then show ?thesis using through_checked assms by blast
  next
    case open_mode
    then have "enforcePasswordChange rq = Next rq'" using assms by (auto simp: withAuth_def)
    then show ?thesis using open_mode enforce_Next[of rq rq']
      by (auto simp: served_to_anyone_def let_through_def)
  next
    case strict
    obtain r1 s1 where r: "requireUIAuth cfg cr now rnd rq st = (r1, s1)" by fastforce
    then show ?thesis using through_ui[OF r] strict assms by (simp add: withAuth_def)
  next
    case ui
    obtain ro s1 where r: "checkAPITokenAuth cr now rq st = (ro, s1)" by fastforce
    show ?thesis
    proof (cases ro)
      case None
      then have [simp]: "s1 = st" using r checkAPITokenAuth_None by blast
      obtain r1 s2 where r1: "requireUIAuth cfg cr now rnd rq st = (r1, s2)" by fastforce
      then show ?thesis using through_ui[OF r1] ui assms r None by (simp add: withAuth_def)
    next
      case (Some r2)
      then show ?thesis using through_token[of cr now rq st r2 s1] r ui assms by (simp add: withAuth_def)
    qed
  qed
qed

text \<open>
  C8. Who gets past authentication. In \<^verbatim>\<open>AUTH_MODE=basic\<close> a request that reaches a handler is of
  one of two kinds. Either it is one anybody may make: an exempt path, on /v2/ the ping, an
  anonymous pull of a repository that allows it, or anything in a mode that leaves /v2/ to the
  registry; then it carries no user it did not have. Or it carries an enabled user of the users
  table, and the request holds a credential of that very user: the cookie of a session that has
  not expired, the password, an API token whose hash is stored for the user and has not expired,
  or a registry token signed for the user's name. On a /v2/ repository path in the modes
  ui, basic and same that user may read the repository and, for a mutating method, write it (on
  other paths and in other modes no permission is asked here), and a user with a pending password
  change gets through only on the paths exempt from it and outside /api/ and /v2/.
\<close>

theorem withAuth_sound:
  assumes "authEnabled cfg" and "withAuth cfg cr now rnd rq st = (Next rq', st')"
  shows "rq' = rq \<and> served_to_anyone cfg rq st \<or>
    (\<exists>u. rq' = rq\<lparr>rq_user := Some u\<rparr> \<and> backed_by cfg cr now rq u st \<and>
      served_to_user cfg rq u (at_store st) \<and>
      (us_mustchange u \<longrightarrow> mustChangePasswordExempt (rq_path rq) \<or> \<not> isEndpointPath (rq_path rq)))"
  using withAuth_through[OF assms] unfolding let_through_def .

section \<open>Witnesses\<close>

definition demo_crypto :: crypto where
  "demo_crypto = \<lparr>cr_sha256 = id, cr_hmac = (\<lambda>k m. k), cr_bcrypt_ok = (\<lambda>h p. h = ''b:'' @ p),
     cr_bcrypt = (\<lambda>p. Some (''b:'' @ p))\<rparr>"

definition demo_cfg :: auth_cfg where
  "demo_cfg = \<lparr>ac_mode = ''basic'', ac_v2mode = ''ui'', ac_external = [], ac_secret = ''k''\<rparr>"

definition bob :: user_row where
  "bob = \<lparr>us_id = 1, us_name = ''bob'', us_hash = ''b:secret'', us_admin = False, us_enabled = True,
     us_mustchange = False, us_created = 0, us_updated = 0\<rparr>"

definition bob_store :: store where
  "bob_store = empty_store\<lparr>s_users := \<lparr>trows = [bob], tseq = 1\<rparr>,
     s_perms := \<lparr>trows = [\<lparr>pm_id = 1, pm_user = 1, pm_pattern = ''app'', pm_read = True,
        pm_write = False, pm_created = 0\<rparr>], tseq = 1\<rparr>\<rparr>"

definition bob_state :: auth_state where
  "bob_state = \<lparr>at_store = bob_store, at_sessions = Map.empty, at_drops = Map.empty, at_cookies = []\<rparr>"

definition bob_pull :: request where
  "bob_pull = blank_request\<lparr>rq_path := ''/v2/app/web/manifests/v1'',
     rq_header := (\<lambda>h. if h = ''Authorization'' then ''Basic Ym9iOnNlY3JldA=='' else []),
     rq_basic := Some (''bob'', ''secret'')\<rparr>"

lemmas demo_auth_defs = demo_crypto_def demo_cfg_def bob_def bob_store_def bob_state_def

lemma bob_user: "GetUserByUsername ''bob'' bob_store = Inr bob"
  by (simp add: GetUserByUsername_def bob_store_def tfind_def bob_def empty_store_def)

lemma demo_enabled: "authEnabled demo_cfg"
  by (simp add: authEnabled_def demo_cfg_def)

lemma bob_verifies: "VerifyPasswordHash demo_crypto (us_hash bob) ''secret''"
  by (simp add: VerifyPasswordHash_def demo_crypto_def bob_def)

lemma bob_path:
  "\<not> auth_exempt ''/v2/app/web/manifests/v1''" "HasPrefix ''/v2/app/web/manifests/v1'' ''/v2/''"
  "extractV2RepoPath ''/v2/app/web/manifests/v1'' = ''app/web''" "v2AuthMode demo_cfg = ''ui''"
  by code_simp+

lemma bob_basic:
  assumes "HasPrefix (rq_path rq) ''/v2/''" "rq_basic rq = Some (''bob'', ''secret'')"
    and "rq_cookie rq = Map.empty" "at_store st = bob_store"
  shows "requireUIAuth demo_cfg demo_crypto now rnd rq st = (Next (rq\<lparr>rq_user := Some bob\<rparr>), st)"
proof -
  have "us_enabled bob" "\<not> NeedsPasswordUpgrade (us_hash bob)"
    by (simp add: bob_def, simp add: bob_def NeedsPasswordUpgrade_def HasPrefix_def)
  then show ?thesis using assms demo_enabled bob_user bob_verifies
    by (simp add: requireUIAuth_def getSession_def basic_auth_def user_by_name_def maybeUpgradePassword_def)
qed

lemma bob_reads: "userCanAccessRepo (rq\<lparr>rq_user := Some bob\<rparr>) ''app/web'' bob_store"
  by (simp add: userCanAccessRepo_def bob_def bob_store_def ListUserPermissions_def tselect_def
      empty_store_def perm_covers_def HasPrefix_def)

lemma bob_pull_passes:
  "withAuth demo_cfg demo_crypto 0 ([], []) bob_pull bob_state = (Next (bob_pull\<lparr>rq_user := Some bob\<rparr>), bob_state)"
proof -
  have st: "at_store bob_state = bob_store" by (simp add: bob_state_def)
  have rq: "rq_path bob_pull = ''/v2/app/web/manifests/v1''" "rq_basic bob_pull = Some (''bob'', ''secret'')"
    "rq_cookie bob_pull = Map.empty" "rq_method bob_pull = ''GET''"
    "rq_header bob_pull ''Authorization'' = ''Basic Ym9iOnNlY3JldA==''"
    by (simp_all add: bob_pull_def blank_request_def)
  have "v2_identify demo_cfg demo_crypto 0 ([], []) bob_pull bob_state =
      (Identified (bob_pull\<lparr>rq_user := Some bob\<rparr>), bob_state)"
    using bob_basic[of bob_pull bob_state] st rq bob_path(2) by (simp add: v2_identify_def HasPrefix_def)
  moreover have "enforcePasswordChange (bob_pull\<lparr>rq_user := Some bob\<rparr>) = Next (bob_pull\<lparr>rq_user := Some bob\<rparr>)"
    by (simp add: enforcePasswordChange_def bob_def)
  ultimately show ?thesis
    using demo_enabled bob_path rq st bob_reads
    by (simp add: withAuth_def and_then_def v2_authorize_def)
qed

theorem withAuth_sound_witness:
  "backed_by demo_cfg demo_crypto 0 bob_pull bob bob_state \<and> served_to_user demo_cfg bob_pull bob bob_store"
proof -
  have "rq_user bob_pull = None" by (simp add: bob_pull_def blank_request_def)
  then have "bob_pull\<lparr>rq_user := Some bob\<rparr> \<noteq> bob_pull" by (metis option.distinct(1) request.select_convs(9) request.surjective request.update_convs(9))
  moreover have "u = bob" if "bob_pull\<lparr>rq_user := Some bob\<rparr> = bob_pull\<lparr>rq_user := Some u\<rparr>" for u
    using arg_cong[OF that, of rq_user] by simp
  ultimately show ?thesis
    using withAuth_sound[OF demo_enabled bob_pull_passes] by (auto simp: bob_state_def)
qed

section \<open>The asset suffixes\<close>

text \<open>
  The exemption for assets looks at the end of the path only: a request whose path ends in
  \<^verbatim>\<open>.png\<close>, \<^verbatim>\<open>.svg\<close>, \<^verbatim>\<open>.js\<close>, \<^verbatim>\<open>.css\<close> or \<^verbatim>\<open>.html\<close> reaches its handler without credentials,
  whatever the prefix and the method, and as a request without a user it passes every permission
  check: read, write and administrator.
\<close>

theorem asset_suffix_bypasses:
  assumes "suffix \<in> {''.png'', ''.svg'', ''.js'', ''.css'', ''.html''}"
    and "HasSuffix (rq_path rq) suffix" and "rq_user rq = None"
  shows "withAuth cfg cr now rnd rq st = (Next rq, st) \<and>
    userCanAccessRepo rq repo (at_store st) \<and> userCanWriteRepo rq repo (at_store st) \<and> requireAdmin rq"
proof -
  have "auth_exempt (rq_path rq)" using assms(1,2) by (auto simp: auth_exempt_def)
  then show ?thesis using assms(3)
    by (simp add: withAuth_def userCanAccessRepo_def userCanWriteRepo_def requireAdmin_def)
qed

definition tag_delete :: request where
  "tag_delete = blank_request\<lparr>rq_method := ''DELETE'', rq_path := ''/v2/app/web/manifests/logo.png''\<rparr>"

theorem asset_suffix_bypasses_witness:
  "withAuth demo_cfg demo_crypto 0 ([], []) tag_delete bob_state = (Next tag_delete, bob_state) \<and>
   extractV2RepoPath (rq_path tag_delete) = ''app/web'' \<and> userCanWriteRepo tag_delete ''app/web'' bob_store"
proof -
  have "HasSuffix (rq_path tag_delete) ''.png''" "extractV2RepoPath (rq_path tag_delete) = ''app/web''"
    "rq_user tag_delete = None"
    by code_simp+
  then show ?thesis
    using asset_suffix_bypasses[of "''.png''" tag_delete demo_cfg demo_crypto 0 "([], [])" bob_state "''app/web''"]
    by (simp add: bob_state_def)
qed

section \<open>Registry tokens\<close>

lemma Itoa_no_nul: "nul \<notin> set (Itoa i)"
proof
  assume "nul \<in> set (Itoa i)"
  from Itoa_chars[OF this] show False by (auto simp: nul_def is_digit_def)
qed

lemma Split_two: "c \<notin> set a \<Longrightarrow> c \<notin> set b \<Longrightarrow> Split (a @ [c] @ b) [c] = [a, b]"
  by (simp add: Split_single_char Split_no_char)

lemma SplitN3_two:
  assumes "c \<notin> set a" "c \<notin> set b"
  shows "SplitN 3 (a @ [c] @ b @ [c] @ d) [c] = [a, b, d]"
  using assms by (simp add: numeral_3_eq_3 Index_char_first)

lemma SplitN3_join:
  assumes "SplitN 3 s [c] = [a, b, d]"
  shows "s = a @ [c] @ b @ [c] @ d"
proof -
  obtain i j where i: "Index s [c] = Some i" and j: "Index (drop (Suc i) s) [c] = Some j"
    and abd: "a = take i s" "b = take j (drop (Suc i) s)" "d = drop (Suc j) (drop (Suc i) s)"
    using assms by (auto simp: numeral_3_eq_3 split: option.splits)
  have "s = a @ [c] @ drop (Suc i) s" using Index_Some_append[OF i] abd by simp
  moreover have "drop (Suc i) s = b @ [c] @ d"
    using Index_Some_append[OF j] unfolding abd by simp
  ultimately show ?thesis by metis
qed

lemma mint_validate:
  assumes "nul \<notin> set name" and "in_int64 (now + ttl)"
  shows "validateV2Token cfg cr later (mintV2Token cfg cr now uid name ttl) =
    (if later < now + ttl then Some name else None)"
proof -
  define payload where "payload = token_payload uid name (now + ttl)"
  have "Split (mintV2Token cfg cr now uid name ttl) ''.'' =
      [RawURLEncode payload, RawURLEncode (cr_hmac cr (ac_secret cfg) payload)]"
    unfolding mintV2Token_def payload_def Let_def
    by (rule Split_two) (rule RawURLEncode_no_dot)+
  moreover have "SplitN 3 payload [nul] = [Itoa uid, name, Itoa (now + ttl)]"
    unfolding payload_def token_payload_def using SplitN3_two[OF Itoa_no_nul assms(1)] by simp
  ultimately show ?thesis
    by (simp add: validateV2Token_def Atoi_Itoa[OF assms(2)])
qed

text \<open>
  C13. A token minted by \<^verbatim>\<open>/v2/token\<close> is worth its user until it expires: validating it gives back
  the name it was minted for at every second before \<open>now + ttl\<close>, the empty name for an anonymous
  token, and nothing from that second on. The name must hold no NUL byte and the expiry must fit
  in an int64.
\<close>

theorem minted_token_validates:
  assumes "nul \<notin> set name" and "in_int64 (now + ttl)"
  shows "validateV2Token cfg cr later (mintV2Token cfg cr now uid name ttl) =
    (if later < now + ttl then Some name else None)"
  using mint_validate[OF assms] .

theorem minted_token_validates_witness:
  "validateV2Token demo_cfg demo_crypto 86399 (mintV2Token demo_cfg demo_crypto 0 1 ''bob'' v2TokenTTL) = Some ''bob'' \<and>
   validateV2Token demo_cfg demo_crypto 86400 (mintV2Token demo_cfg demo_crypto 0 1 ''bob'' v2TokenTTL) = None"
proof -
  have 1: "nul \<notin> set ''bob''" by (simp add: nul_def)
  have 2: "in_int64 (0 + v2TokenTTL)" by (simp add: in_int64_def min_int64_def max_int64_def v2TokenTTL_def)
  show ?thesis using minted_token_validates[OF 1 2] by (simp add: v2TokenTTL_def)
qed

text \<open>
  No token is accepted without the signature of the process: whatever string validates carries,
  after its dot, the HMAC under the secret of exactly the payload before the dot, and the name is
  the second of the three NUL-separated fields of that payload, whose last field is an expiry still
  in the future.
\<close>

theorem accepted_token_is_signed:
  assumes "validateV2Token cfg cr now token = Some name"
  shows "\<exists>p g payload uid expiry e. token = p @ ''.'' @ g \<and> RawURLDecode p = Some payload \<and>
    RawURLDecode g = Some (cr_hmac cr (ac_secret cfg) payload) \<and>
    payload = uid @ [nul] @ name @ [nul] @ expiry \<and> Atoi expiry = (e, None) \<and> now < e"
proof -
  obtain p g payload where pg: "Split token ''.'' = [p, g]" "RawURLDecode p = Some payload"
    "RawURLDecode g = Some (cr_hmac cr (ac_secret cfg) payload)"
    and n: "(case SplitN 3 payload [nul] of
        [_, username, expiry] \<Rightarrow> (case Atoi expiry of (_, Some _) \<Rightarrow> None
           | (e, None) \<Rightarrow> if e \<le> now then None else Some username) | _ \<Rightarrow> None) = Some name"
    using assms by (auto simp: validateV2Token_def split: list.splits option.splits if_splits)
  obtain uid expiry e where f: "SplitN 3 payload [nul] = [uid, name, expiry]" "Atoi expiry = (e, None)" "now < e"
    using n by (auto split: list.splits option.splits prod.splits if_splits)
  have "token = p @ ''.'' @ g" using Join_Split[of "''.''" token] pg(1) by simp
  moreover have "payload = uid @ [nul] @ name @ [nul] @ expiry"
    by (rule SplitN3_join[OF f(1)])
  ultimately show ?thesis using pg f by blast
qed

text \<open>The witness: the anonymous token of second 0.\<close>

theorem accepted_token_is_signed_witness:
  "\<exists>p g payload uid expiry e. mintV2Token demo_cfg demo_crypto 0 0 [] v2TokenTTL = p @ ''.'' @ g \<and>
    RawURLDecode p = Some payload \<and> RawURLDecode g = Some (cr_hmac demo_crypto (ac_secret demo_cfg) payload) \<and>
    payload = uid @ [nul] @ [] @ [nul] @ expiry \<and> Atoi expiry = (e, None) \<and> 5 < e"
proof -
  have "validateV2Token demo_cfg demo_crypto 5 (mintV2Token demo_cfg demo_crypto 0 0 [] v2TokenTTL) = Some []"
    by (subst mint_validate) (simp_all add: in_int64_def min_int64_def max_int64_def v2TokenTTL_def)
  from accepted_token_is_signed[OF this] show ?thesis .
qed

section \<open>CSRF\<close>

lemma getSession_name:
  assumes "getSession now rq st = (name, st')" "name \<noteq> []"
  shows "\<exists>sid e. rq_cookie rq sessionCookieName = Some sid \<and> at_sessions st sid = Some (name, e) \<and>
    now \<le> e \<and> st' = st"
  using assms by (auto simp: getSession_def split: option.splits if_splits)

lemma ui_without_credentials:
  assumes "requireUIAuth cfg cr now rnd rq st = (Next rq', st')" "authEnabled cfg" "rq_basic rq = None"
  shows "\<exists>sid name e u. rq_cookie rq sessionCookieName = Some sid \<and> at_sessions st sid = Some (name, e) \<and>
    now \<le> e \<and> GetUserByUsername name (at_store st) = Inr u \<and> us_enabled u \<and> rq' = rq\<lparr>rq_user := Some u\<rparr>"
proof -
  obtain name st1 where g: "getSession now rq st = (name, st1)" by fastforce
  have "name \<noteq> [] \<and> (\<exists>u. user_by_name name st1 = Inr u \<and> us_enabled u \<and> rq' = rq\<lparr>rq_user := Some u\<rparr>)"
    using assms g by (auto simp: requireUIAuth_def basic_auth_def split: sum.splits if_splits)
  then show ?thesis using getSession_name[OF g] by (auto simp: user_by_name_def)
qed

text \<open>
  C12. With \<^verbatim>\<open>AUTH_MODE=basic\<close> a state-changing request outside
  \<^verbatim>\<open>/v2/\<close> that carries no Authorization header and whose path is not exempt
  from authentication passes the middlewares only with both halves of a double-submit token and a
  live session: the X-CSRF-Token header equals the csrf cookie and is not empty, the session cookie
  names a session that has not expired, and the request goes on as the enabled user of that session.
\<close>

theorem cookie_mutation_needs_csrf:
  assumes "authEnabled cfg" and "isMutatingMethod (rq_method rq)" and "\<not> auth_exempt (rq_path rq)"
    and "\<not> HasPrefix (rq_path rq) ''/v2/''" and "rq_header rq ''Authorization'' = []" and "rq_basic rq = None"
    and "Handler cfg cr now rnd rq st = (Next rq', st')"
  shows "\<exists>tok sid name e u. tok \<noteq> [] \<and> rq_cookie rq csrfCookieName = Some tok \<and>
    rq_header rq ''X-CSRF-Token'' = tok \<and> rq_cookie rq sessionCookieName = Some sid \<and>
    at_sessions st sid = Some (name, e) \<and> now \<le> e \<and>
    GetUserByUsername name (at_store st) = Inr u \<and> us_enabled u \<and> rq' = rq\<lparr>rq_user := Some u\<rparr>"
proof -
  have "rq_method rq \<notin> set [''GET'', ''HEAD'', ''OPTIONS'']"
    using assms(2) by (auto simp: isMutatingMethod_def)
  moreover have "rq_path rq \<noteq> ''/api/login''" using assms(3) by (auto simp: auth_exempt_def)
  moreover have nb: "\<not> HasPrefix [] ''Bearer ''" by (simp add: HasPrefix_def)
  ultimately have "requireCSRF cfg rq = (if validateCSRF rq then Next rq else Stop 403)"
    using assms(1,4,5) by (simp add: requireCSRF_def)
  then have v: "validateCSRF rq" and w: "withAuth cfg cr now rnd rq st = (Next rq', st')"
    using assms(7) by (auto simp: Handler_def split: if_splits)
  have "checkAPITokenAuth cr now rq st = (None, st)"
    using assms(5) nb by (simp add: checkAPITokenAuth_def)
  then obtain r1 where r: "requireUIAuth cfg cr now rnd rq st = (r1, st')" "and_then r1 enforcePasswordChange = Next rq'"
    using w assms(1,3,4) by (auto simp: withAuth_def split: prod.splits)
  then obtain r2 where r2: "r1 = Next r2" by (cases r1) (auto simp: and_then_def)
  then have "rq' = r2" using r enforce_Next by (auto simp: and_then_def)
  then have ui: "requireUIAuth cfg cr now rnd rq st = (Next rq', st')" using r r2 by simp
  obtain tok where "tok \<noteq> []" "rq_cookie rq csrfCookieName = Some tok" "rq_header rq ''X-CSRF-Token'' = tok"
    using v by (auto simp: validateCSRF_def constantTimeEqual_def Let_def split: option.splits if_splits)
  then show ?thesis using ui_without_credentials[OF ui assms(1,6)] by blast
qed

definition bob_session :: auth_state where
  "bob_session = bob_state\<lparr>at_sessions := [''sid'' \<mapsto> (''bob'', 100)]\<rparr>"

definition bob_post :: request where
  "bob_post = blank_request\<lparr>rq_method := ''POST'', rq_path := ''/api/favorites'',
     rq_header := (\<lambda>h. if h = ''X-CSRF-Token'' then ''t0'' else []),
     rq_cookie := [sessionCookieName \<mapsto> ''sid'', csrfCookieName \<mapsto> ''t0'']\<rparr>"

lemma bob_post_fields:
  "rq_method bob_post = ''POST''" "rq_path bob_post = ''/api/favorites''" "rq_basic bob_post = None"
  "rq_header bob_post ''Authorization'' = []" "rq_header bob_post ''X-CSRF-Token'' = ''t0''"
  "rq_cookie bob_post csrfCookieName = Some ''t0''" "rq_cookie bob_post sessionCookieName = Some ''sid''"
  by (simp_all add: bob_post_def blank_request_def csrfCookieName_def sessionCookieName_def)

lemma bob_post_path:
  "\<not> auth_exempt ''/api/favorites''" "\<not> HasPrefix ''/api/favorites'' ''/v2/''" "isMutatingMethod ''POST''"
  "\<not> HasPrefix [] ''Bearer ''"
  by code_simp+

theorem cookie_mutation_needs_csrf_witness:
  "\<exists>tok sid name e u. tok \<noteq> [] \<and> rq_cookie bob_post csrfCookieName = Some tok \<and>
    rq_header bob_post ''X-CSRF-Token'' = tok \<and> rq_cookie bob_post sessionCookieName = Some sid \<and>
    at_sessions bob_session sid = Some (name, e) \<and> 50 \<le> e \<and>
    GetUserByUsername name (at_store bob_session) = Inr u \<and> us_enabled u \<and>
    bob_post\<lparr>rq_user := Some bob\<rparr> = bob_post\<lparr>rq_user := Some u\<rparr>"
proof -
  note f = bob_post_fields bob_post_path demo_enabled
  have st: "at_store bob_session = bob_store" "at_sessions bob_session ''sid'' = Some (''bob'', 100)"
    by (simp_all add: bob_session_def bob_state_def)
  have "requireCSRF demo_cfg bob_post = Next bob_post"
    using f by (simp add: requireCSRF_def validateCSRF_def constantTimeEqual_def)
  moreover have "checkAPITokenAuth demo_crypto 50 bob_post bob_session = (None, bob_session)"
    using f by (simp add: checkAPITokenAuth_def)
  moreover have "requireUIAuth demo_cfg demo_crypto 50 ([], []) bob_post bob_session =
      (Next (bob_post\<lparr>rq_user := Some bob\<rparr>), bob_session)"
    using f st bob_user by (simp add: requireUIAuth_def getSession_def user_by_name_def) (simp add: bob_def)
  moreover have "enforcePasswordChange (bob_post\<lparr>rq_user := Some bob\<rparr>) = Next (bob_post\<lparr>rq_user := Some bob\<rparr>)"
    by (simp add: enforcePasswordChange_def bob_def)
  ultimately have "Handler demo_cfg demo_crypto 50 ([], []) bob_post bob_session =
      (Next (bob_post\<lparr>rq_user := Some bob\<rparr>), bob_session)"
    using f by (simp add: Handler_def withAuth_def and_then_def)
  then show ?thesis
    by (rule cookie_mutation_needs_csrf[rotated -1]) (use f in simp_all)
qed

section \<open>The life of a session\<close>

text \<open>
  C14. What a login is worth: the session it opens carries every later request with its cookie as
  the user who logged in, as long as the account is enabled, up to and including the last second of
  its seven days; after that the request is challenged. Runs of the hourly cleaner in between
  change neither, nor does anything that happens to the store apart from that user's row.
\<close>

theorem login_session_life:
  assumes "handleLogin cr now rnd rq (Some (name, password)) st = (Reply 200 view, st1)"
    and "authEnabled cfg" and "name \<noteq> []" and "clean \<le> t"
    and "at_sessions st2 = at_sessions (cleanupSessions clean st1)"
    and "rq_cookie rq2 sessionCookieName = Some (HexEncode (fst rnd))" and "rq_basic rq2 = None"
    and "GetUserByUsername name (at_store st2) = Inr u" and "us_enabled u"
  shows "fst (requireUIAuth cfg cr t rnd2 rq2 st2) =
    (if t \<le> now + sessionTTL then Next (rq2\<lparr>rq_user := Some u\<rparr>) else Stop (challenge rq2))"
proof -
  have s1: "at_sessions st1 (HexEncode (fst rnd)) = Some (name, now + sessionTTL)"
    using assms(1)
    by (auto simp: handleLogin_def createSession_def audit_on_def Let_def split: if_splits sum.splits)
  show ?thesis
  proof (cases "t \<le> now + sessionTTL")
    case True
    then have "getSession t rq2 st2 = (name, st2)"
      using assms(4-6) s1 by (simp add: getSession_def cleanupSessions_def)
    then show ?thesis using True assms by (simp add: requireUIAuth_def user_by_name_def)
  next
    case False
    then have "fst (getSession t rq2 st2) = []"
      using assms(4-6) s1 by (simp add: getSession_def cleanupSessions_def split: option.split)
    then show ?thesis using False assms
      by (auto simp: requireUIAuth_def basic_auth_def split: prod.split)
  qed
qed

definition bob_login :: request where "bob_login = blank_request\<lparr>rq_method := ''POST''\<rparr>"

definition bob_later :: request where
  "bob_later = blank_request\<lparr>rq_cookie := [sessionCookieName \<mapsto> HexEncode [CHR ''x'']]\<rparr>"

lemma audit_users [simp]:
  "GetUserByUsername n (snd (AddAudit now uid a r f d x y s)) = GetUserByUsername n s"
  "GetUserByID i (snd (AddAudit now uid a r f d x y s)) = GetUserByID i s"
  by (simp_all add: GetUserByUsername_def GetUserByID_def AddAudit_def AddAuditWithImage_def)

lemma login_ok:
  assumes "rq_method rq = ''POST''" "GetUserByUsername name (at_store st) = Inr u" "us_enabled u"
    and "VerifyPasswordHash cr (us_hash u) password"
  shows "handleLogin cr now rnd rq (Some (name, password)) st =
    (Reply 200 \<lparr>lv_name = name, lv_admin = us_admin u, lv_mustchange = us_mustchange u\<rparr>,
     audit_on now (us_id u) ''login'' ''ok'' (''user='' @ name) (createSession now rq rnd name
       (st\<lparr>at_store := maybeUpgradePassword cr now u password (at_store st)\<rparr>)))"
  using assms by (simp add: handleLogin_def user_by_name_def)

lemma bob_logs_in:
  "\<exists>view st1. handleLogin demo_crypto 0 (''x'', ''y'') bob_login (Some (''bob'', ''secret'')) bob_state = (Reply 200 view, st1) \<and>
     GetUserByUsername ''bob'' (at_store st1) = Inr bob"
proof -
  have "rq_method bob_login = ''POST''" "at_store bob_state = bob_store" "us_enabled bob"
    "maybeUpgradePassword demo_crypto 0 bob ''secret'' bob_store = bob_store"
    by (simp_all add: bob_login_def blank_request_def bob_state_def bob_def maybeUpgradePassword_def
        NeedsPasswordUpgrade_def HasPrefix_def)
  then show ?thesis using bob_user bob_verifies
    by (simp add: login_ok audit_on_def)
qed

theorem login_session_life_witness:
  "\<exists>st1 view. handleLogin demo_crypto 0 (''x'', ''y'') bob_login (Some (''bob'', ''secret'')) bob_state = (Reply 200 view, st1) \<and>
     fst (requireUIAuth demo_cfg demo_crypto 604800 ([], []) bob_later (cleanupSessions 3600 st1)) = Next (bob_later\<lparr>rq_user := Some bob\<rparr>) \<and>
     fst (requireUIAuth demo_cfg demo_crypto 604801 ([], []) bob_later (cleanupSessions 3600 st1)) = Stop 303"
proof -
  obtain view st1 where l: "handleLogin demo_crypto 0 (''x'', ''y'') bob_login (Some (''bob'', ''secret'')) bob_state = (Reply 200 view, st1)"
    and u: "GetUserByUsername ''bob'' (at_store st1) = Inr bob"
    using bob_logs_in by blast
  have c: "rq_cookie bob_later sessionCookieName = Some (HexEncode (fst (''x'', ''y'')))" "rq_basic bob_later = None"
    "GetUserByUsername ''bob'' (at_store (cleanupSessions 3600 st1)) = Inr bob" "us_enabled bob"
    using u by (simp_all add: bob_later_def blank_request_def) (simp add: bob_def)
  have "challenge bob_later = 303" by (simp add: bob_later_def blank_request_def challenge_def HasPrefix_def)
  then show ?thesis
    using login_session_life[OF l demo_enabled _ _ refl c, of 604800 "([], [])"]
      login_session_life[OF l demo_enabled _ _ refl c, of 604801 "([], [])"] l
    by (simp add: sessionTTL_def)
qed

text \<open>
  After a logout the session is gone: any request with the same session cookie and no Basic
  credentials is challenged, whatever the time, and the browser is told to drop both cookies.
\<close>

theorem logout_ends_session:
  assumes "handleLogout rq st = (Reply 200 v, st1)" and "authEnabled cfg" and "rq_basic rq2 = None"
    and "rq_cookie rq2 sessionCookieName = rq_cookie rq sessionCookieName"
  shows "fst (requireUIAuth cfg cr t rnd rq2 st1) = Stop (challenge rq2) \<and>
    map ck_name (filter (\<lambda>c. ck_maxage c < 0) (at_cookies st1)) =
      map ck_name (filter (\<lambda>c. ck_maxage c < 0) (at_cookies st)) @ [sessionCookieName, csrfCookieName]"
proof -
  have "fst (getSession t rq2 st1) = []"
    using assms(1,4)
    by (auto simp: handleLogout_def getSession_def clearSession_def set_cookie_def Let_def split: if_splits option.splits)
  then have "fst (requireUIAuth cfg cr t rnd rq2 st1) = Stop (challenge rq2)"
    using assms(2,3) by (auto simp: requireUIAuth_def basic_auth_def split: prod.split)
  moreover have "map ck_name (filter (\<lambda>c. ck_maxage c < 0) (at_cookies st1)) =
      map ck_name (filter (\<lambda>c. ck_maxage c < 0) (at_cookies st)) @ [sessionCookieName, csrfCookieName]"
    using assms(1) by (auto simp: handleLogout_def clearSession_def set_cookie_def Let_def split: if_splits option.splits)
  ultimately show ?thesis by blast
qed

theorem logout_ends_session_witness:
  "fst (requireUIAuth demo_cfg demo_crypto 50 ([], []) bob_post (snd (handleLogout bob_post bob_session))) = Stop 303"
proof -
  have "handleLogout bob_post bob_session = (Reply 200 (), snd (handleLogout bob_post bob_session))"
    using bob_post_fields by (simp add: handleLogout_def Let_def)
  from logout_ends_session[OF this demo_enabled bob_post_fields(3) refl, of demo_crypto 50 "([], [])"]
  show ?thesis by (simp add: challenge_def bob_post_fields HasPrefix_def)
qed

section \<open>Passwords\<close>

text \<open>bcrypt accepts a password against the hash it made of it.\<close>

definition bcrypt_law :: "crypto \<Rightarrow> bool" where
  "bcrypt_law cr \<longleftrightarrow> (\<forall>p h. cr_bcrypt cr p = Some h \<longrightarrow> cr_bcrypt_ok cr h p)"

lemma bcrypt_verifies: "bcrypt_law cr \<Longrightarrow> cr_bcrypt cr p = Some h \<Longrightarrow> VerifyPasswordHash cr h p"
  by (simp add: bcrypt_law_def VerifyPasswordHash_def)

lemma updated_user:
  assumes "GetUserByID i s = Inr u" "us_id (f u) = i"
  shows "GetUserByID i (s\<lparr>s_users := tupdate (\<lambda>u. us_id u = i) f (s_users s)\<rparr>) = Inr (f u)"
proof -
  have "List.find (\<lambda>u. us_id u = i) (map (\<lambda>r. if us_id r = i then f r else r) xs) = Some (f u)"
    if "List.find (\<lambda>u. us_id u = i) xs = Some u" for xs
    using that assms(2) by (induction xs) (auto split: if_splits)
  then show ?thesis using assms(1)
    by (auto simp: GetUserByID_def tfind_def tupdate_def split: if_splits)
qed

lemma updated_others:
  assumes "j \<noteq> i" "\<And>u. us_id (f u) = us_id u"
  shows "GetUserByID j (s\<lparr>s_users := tupdate (\<lambda>u. us_id u = i) f (s_users s)\<rparr>) = GetUserByID j s"
proof -
  have "List.find (\<lambda>u. us_id u = j) (map (\<lambda>r. if us_id r = i then f r else r) xs) =
      List.find (\<lambda>u. us_id u = j) xs" for xs
    using assms by (induction xs) auto
  then show ?thesis by (simp add: GetUserByID_def tfind_def tupdate_def)
qed

text \<open>
  C15. Changing a password: when the handler answers 200 the old password had been verified against
  the stored hash; afterwards the stored hash accepts the new password and the forced-change flag
  is down, and no other account has changed.
\<close>

theorem password_change_takes_effect:
  assumes "bcrypt_law cr" and "rq_user rq = Some cur"
    and "handleUserPassword cr now rq (Some (old, new)) s = (Reply 200 (), s')"
  shows "(\<exists>u. GetUserByID (us_id cur) s = Inr u \<and> VerifyPasswordHash cr (us_hash u) old) \<and>
    (\<exists>u'. GetUserByID (us_id cur) s' = Inr u' \<and> VerifyPasswordHash cr (us_hash u') new \<and> \<not> us_mustchange u') \<and>
    (\<forall>j. j \<noteq> us_id cur \<longrightarrow> GetUserByID j s' = GetUserByID j s)"
proof -
  let ?i = "us_id cur"
  obtain u s1 where u: "GetUserByID ?i s = Inr u" "VerifyPasswordHash cr (us_hash u) old"
    and up: "UpdateUserPassword now (cr_bcrypt cr) ?i new s = (Inr (), s1)"
    and s': "s' = snd (AddAudit now (currentUserID rq) ''user.password.change'' [] [] [] ''ok''
        (''user='' @ currentUsername rq) s1)"
    using assms(2,3)
    by (auto simp: handleUserPassword_def Let_def split: if_splits sum.splits prod.splits)
  obtain h where h: "cr_bcrypt cr new = Some h" and upd: "update_user ?i
      (\<lambda>u. u\<lparr>us_hash := h, us_mustchange := False, us_updated := now\<rparr>) s = (Inr (), s1)"
    using up by (auto simp: UpdateUserPassword_def split: option.splits)
  define f where "f = (\<lambda>u :: user_row. u\<lparr>us_hash := h, us_mustchange := False, us_updated := now\<rparr>)"
  have s1: "s1 = s\<lparr>s_users := tupdate (\<lambda>u. us_id u = ?i) f (s_users s)\<rparr>"
    using upd by (simp add: update_user_def f_def split: if_splits)
  have "us_id u = ?i" using found_user(2)[OF u(1)] by simp
  then have "GetUserByID ?i s' = Inr (f u)" using updated_user[OF u(1), of f] s' s1 by (simp add: f_def)
  moreover have "VerifyPasswordHash cr (us_hash (f u)) new" using bcrypt_verifies[OF assms(1) h] by (simp add: f_def)
  moreover have "GetUserByID j s' = GetUserByID j s" if "j \<noteq> ?i" for j
    using updated_others[OF that, of f] s' s1 by (simp add: f_def)
  ultimately show ?thesis using u by (auto simp: f_def)
qed

definition bob_change :: request where
  "bob_change = blank_request\<lparr>rq_method := ''POST'', rq_user := Some bob\<rparr>"

theorem password_change_takes_effect_witness:
  "\<exists>u'. GetUserByID 1 (snd (handleUserPassword demo_crypto 9 bob_change (Some (''secret'', ''longer'')) bob_store)) = Inr u' \<and>
     VerifyPasswordHash demo_crypto (us_hash u') ''longer''"
proof -
  have law: "bcrypt_law demo_crypto" by (simp add: bcrypt_law_def demo_crypto_def)
  have rq: "rq_user bob_change = Some bob" "rq_method bob_change = ''POST''"
    by (simp_all add: bob_change_def blank_request_def)
  have id: "us_id bob = 1" by (simp add: bob_def)
  have "GetUserByID 1 bob_store = Inr bob"
    by (simp add: GetUserByID_def bob_store_def tfind_def bob_def empty_store_def)
  then have "fst (handleUserPassword demo_crypto 9 bob_change (Some (''secret'', ''longer'')) bob_store) = Reply 200 ()"
    using rq id bob_verifies
    by (simp add: handleUserPassword_def UpdateUserPassword_def update_user_def demo_crypto_def bob_store_def
        empty_store_def Let_def)
  then show ?thesis
    using password_change_takes_effect[OF law rq(1) prod_eqI] id by fastforce
qed

lemma updated_by_name:
  assumes "GetUserByUsername name s = Inr u" "\<And>u. us_name (f u) = us_name u"
  shows "GetUserByUsername name (s\<lparr>s_users := tupdate (\<lambda>r. us_id r = us_id u) f (s_users s)\<rparr>) = Inr (f u)"
proof -
  have "List.find (\<lambda>r. us_name r = name) (map (\<lambda>r. if us_id r = us_id u then f r else r) xs) = Some (f u)"
    if "List.find (\<lambda>r. us_name r = name) xs = Some u" for xs
    using that assms(2) by (induction xs) (auto split: if_splits)
  then show ?thesis using assms(1)
    by (auto simp: GetUserByUsername_def tfind_def tupdate_def split: if_splits)
qed

text \<open>
  Retiring a legacy hash never locks anybody out: a login that succeeds, with a bcrypt or a
  SHA-256 hash, leaves the store such that the same credentials log in again, with the same answer.
\<close>

theorem login_survives_upgrade:
  assumes "bcrypt_law cr" and "handleLogin cr now rnd rq (Some (name, password)) st = (Reply 200 view, st1)"
  shows "fst (handleLogin cr now2 rnd2 rq (Some (name, password)) st1) = Reply 200 view"
proof -
  obtain u where u: "GetUserByUsername name (at_store st) = Inr u" "us_enabled u"
    "VerifyPasswordHash cr (us_hash u) password" and m: "rq_method rq = ''POST''"
    using assms(2) by (auto simp: handleLogin_def user_by_name_def Let_def split: if_splits sum.splits)
  note l = login_ok[OF m u]
  define s1 where "s1 = maybeUpgradePassword cr now u password (at_store st)"
  have "\<exists>u'. GetUserByUsername name s1 = Inr u' \<and> us_enabled u' \<and> us_admin u' = us_admin u \<and>
      us_mustchange u' = us_mustchange u \<and> VerifyPasswordHash cr (us_hash u') password"
  proof (cases "NeedsPasswordUpgrade (us_hash u)")
    case False
    then show ?thesis using u by (simp add: s1_def maybeUpgradePassword_def)
  next
    case True
    show ?thesis
    proof (cases "cr_bcrypt cr password")
      case None
      then show ?thesis using u by (simp add: s1_def maybeUpgradePassword_def UpgradePassword_def HashPassword_def)
    next
      case (Some h)
      define f where "f = (\<lambda>r :: user_row. r\<lparr>us_hash := h, us_updated := now\<rparr>)"
      have "\<not> s_fault (at_store st) TUsers" using u(1) by (auto simp: GetUserByUsername_def split: if_splits)
      then have "s1 = (at_store st)\<lparr>s_users := tupdate (\<lambda>r. us_id r = us_id u) f (s_users (at_store st))\<rparr>"
        using True Some u by (simp add: s1_def maybeUpgradePassword_def UpgradePassword_def HashPassword_def
            SetUserPasswordHash_def update_user_def f_def)
      then have "GetUserByUsername name s1 = Inr (f u)" using updated_by_name[OF u(1), of f] by (simp add: f_def)
      then show ?thesis using u bcrypt_verifies[OF assms(1) Some] by (simp add: f_def)
    qed
  qed
  then obtain u' where u': "GetUserByUsername name s1 = Inr u'" "us_enabled u'"
    "VerifyPasswordHash cr (us_hash u') password" "us_admin u' = us_admin u" "us_mustchange u' = us_mustchange u"
    by blast
  have "GetUserByUsername name (at_store st1) = Inr u'"
    using assms(2) l u'(1) by (auto simp: s1_def audit_on_def)
  from login_ok[OF m this u'(2,3), of now2 rnd2] show ?thesis using assms(2) l u' by auto
qed

theorem login_survives_upgrade_witness:
  "\<exists>view. fst (handleLogin demo_crypto 7 ([], []) bob_login (Some (''bob'', ''secret''))
     (snd (handleLogin demo_crypto 0 (''x'', ''y'') bob_login (Some (''bob'', ''secret'')) bob_state))) = Reply 200 view"
proof -
  have law: "bcrypt_law demo_crypto" by (simp add: bcrypt_law_def demo_crypto_def)
  obtain view st1 where "handleLogin demo_crypto 0 (''x'', ''y'') bob_login (Some (''bob'', ''secret'')) bob_state = (Reply 200 view, st1)"
    using bob_logs_in by blast
  with login_survives_upgrade[OF law this] show ?thesis by auto
qed

end
