(* ===== verification/Registry_Client.thy ===== *)
theory Registry_Client
  imports Complex_Main Go_Strings
begin

text \<open>
  \<^verbatim>\<open>backend/internal/registry\<close>: the client of the upstream registry. The registry itself is
  not part of the program; it is the argument \<open>up\<close>, a state \<open>'r\<close> with an answer to every
  request. GET and HEAD leave the state alone, PUT and DELETE may change it. An answer is the
  text of a transport error or a response. JSON text is decoded by the argument \<open>cl_json\<close>
  (numbers kept as literals, as \<^verbatim>\<open>UseNumber\<close> does), floating point literals by \<open>cl_float\<close>, and
  the query of a Link header by \<open>cl_query\<close>; object keys are matched exactly.
\<close>

section \<open>Errors\<close>

datatype rerr =
  StatusError string int string
| TransportError string
| ClientError string

definition IsStatus :: "rerr \<Rightarrow> int \<Rightarrow> bool" where
  "IsStatus e status = (case e of StatusError _ st _ \<Rightarrow> st = status | _ \<Rightarrow> False)"

definition StatusCode :: "rerr \<Rightarrow> int option" where
  "StatusCode e = (case e of StatusError _ st _ \<Rightarrow> Some st | _ \<Rightarrow> None)"

definition truncate :: "string \<Rightarrow> string" where
  "truncate s = (if length s > 300 then take 300 s @ ''...'' else s)"

definition error_text :: "rerr \<Rightarrow> string" where
  "error_text e = (case e of
     StatusError op st body \<Rightarrow> op @ '': status='' @ Itoa st @ '' body='' @ truncate body
   | TransportError t \<Rightarrow> t
   | ClientError t \<Rightarrow> t)"

type_synonym 'a rres = "rerr + 'a"

section \<open>JSON values\<close>

datatype go_float = FNaN | FInf bool | FNum rat

datatype json =
  JNull | JBool bool | JStr string | JNum string | JFloat go_float
| JArr "json list" | JObj "(string \<times> json) list"

definition jget :: "json \<Rightarrow> string \<Rightarrow> json option" where
  "jget j k = (case j of JObj kvs \<Rightarrow> map_of kvs k | _ \<Rightarrow> None)"

definition is_obj :: "json \<Rightarrow> bool" where
  "is_obj j = (case j of JObj _ \<Rightarrow> True | _ \<Rightarrow> False)"

text \<open>\<^verbatim>\<open>s, _ := m[k].(string)\<close>: the empty string when the key is absent or not a string.\<close>

definition jstr :: "json \<Rightarrow> string \<Rightarrow> string" where
  "jstr j k = (case jget j k of Some (JStr s) \<Rightarrow> s | _ \<Rightarrow> [])"

definition jarr :: "json \<Rightarrow> string \<Rightarrow> json list option" where
  "jarr j k = (case jget j k of Some (JArr xs) \<Rightarrow> Some xs | _ \<Rightarrow> None)"

definition jobj :: "json \<Rightarrow> string \<Rightarrow> json option" where
  "jobj j k = (case jget j k of Some (JObj kvs) \<Rightarrow> Some (JObj kvs) | _ \<Rightarrow> None)"

text \<open>Unmarshalling a list of strings: absent and null give the empty list.\<close>

fun strings_of :: "json list \<Rightarrow> string list option" where
  "strings_of [] = Some []"
| "strings_of (JStr s # js) = map_option (\<lambda>r. s # r) (strings_of js)"
| "strings_of (JNull # js) = map_option (\<lambda>r. [] # r) (strings_of js)"
| "strings_of (_ # js) = None"

definition string_list :: "json \<Rightarrow> string \<Rightarrow> string list option" where
  "string_list j k =
     (case j of
        JNull \<Rightarrow> Some []
      | JObj _ \<Rightarrow> (case jget j k of None \<Rightarrow> Some [] | Some JNull \<Rightarrow> Some []
                  | Some (JArr xs) \<Rightarrow> strings_of xs | Some _ \<Rightarrow> None)
      | _ \<Rightarrow> None)"

section \<open>Requests\<close>

record client_cfg =
  cc_url :: string
  cc_user :: string
  cc_pass :: string
  cc_bearer :: string
  cc_delete :: bool

datatype auth = NoAuth | BearerAuth string | BasicAuth string string

record wire_req =
  wq_method :: string
  wq_url :: string
  wq_accept :: string
  wq_ctype :: string
  wq_auth :: auth
  wq_body :: string

record wire_resp =
  ws_status :: int
  ws_header :: "string \<Rightarrow> string"
  ws_body :: string

record 'r upstream =
  up_get :: "wire_req \<Rightarrow> 'r \<Rightarrow> string + wire_resp"
  up_mut :: "wire_req \<Rightarrow> 'r \<Rightarrow> (string + wire_resp) \<times> 'r"

record 'r client =
  cl_cfg :: client_cfg
  cl_up :: "'r upstream"
  cl_json :: "string \<Rightarrow> json option"
  cl_float :: "string \<Rightarrow> rat option"
  cl_query :: "string \<Rightarrow> (string \<Rightarrow> string) option"

definition applyAuth :: "client_cfg \<Rightarrow> auth" where
  "applyAuth cfg =
     (if cc_bearer cfg \<noteq> [] then BearerAuth (cc_bearer cfg)
      else if cc_user cfg \<noteq> [] \<or> cc_pass cfg \<noteq> [] then BasicAuth (cc_user cfg) (cc_pass cfg)
      else NoAuth)"

definition maxResponseBytes :: nat where "maxResponseBytes = 67108864"

definition mk_req :: "client_cfg \<Rightarrow> string \<Rightarrow> string \<Rightarrow> string \<Rightarrow> string \<Rightarrow> wire_req" where
  "mk_req cfg method path accept body =
     \<lparr>wq_method = method, wq_url = cc_url cfg @ path,
      wq_accept = (if method = ''PUT'' then [] else accept),
      wq_ctype = (if method = ''PUT'' then accept else []),
      wq_auth = applyAuth cfg, wq_body = body\<rparr>"

text \<open>The response as \<^verbatim>\<open>do\<close> returns it: bodies above 64 MiB are refused.\<close>

definition read_resp :: "string \<Rightarrow> string \<Rightarrow> string + wire_resp \<Rightarrow> wire_resp rres" where
  "read_resp method path a =
     (case a of
        Inl t \<Rightarrow> Inl (TransportError t)
      | Inr resp \<Rightarrow>
          if length (ws_body resp) > maxResponseBytes
          then Inl (ClientError (method @ '' '' @ path @ '': response exceeds 67108864 bytes''))
          else Inr resp)"

definition do_get :: "'r client \<Rightarrow> string \<Rightarrow> string \<Rightarrow> string \<Rightarrow> 'r \<Rightarrow> wire_resp rres" where
  "do_get c method path accept r =
     (if cc_url (cl_cfg c) = [] then Inl (ClientError ''REGISTRY_URL is required'')
      else read_resp method path (up_get (cl_up c) (mk_req (cl_cfg c) method path accept []) r))"

definition do_mut ::
    "'r client \<Rightarrow> string \<Rightarrow> string \<Rightarrow> string \<Rightarrow> string \<Rightarrow> 'r \<Rightarrow> wire_resp rres \<times> 'r" where
  "do_mut c method path accept body r =
     (if cc_url (cl_cfg c) = [] then (Inl (ClientError ''REGISTRY_URL is required''), r)
      else case up_mut (cl_up c) (mk_req (cl_cfg c) method path accept body) r of
        (a, r') \<Rightarrow> (read_resp method path a, r'))"

definition ok_status :: "int \<Rightarrow> bool" where
  "ok_status st \<longleftrightarrow> 200 \<le> st \<and> st < 300"

section \<open>Paths\<close>

definition hex_digit :: "nat \<Rightarrow> char" where
  "hex_digit n = (if n < 10 then char_of (48 + n) else char_of (55 + n))"

text \<open>The bytes \<^verbatim>\<open>url.PathEscape\<close> leaves alone.\<close>

definition path_safe :: "char \<Rightarrow> bool" where
  "path_safe c \<longleftrightarrow> (let n = of_char c :: nat in
     (48 \<le> n \<and> n \<le> 57) \<or> (65 \<le> n \<and> n \<le> 90) \<or> (97 \<le> n \<and> n \<le> 122) \<or>
     c \<in> set ''-_.~$&+:=@'')"

definition PathEscape :: "string \<Rightarrow> string" where
  "PathEscape s = concat (map (\<lambda>c. if path_safe c then [c]
     else let n = of_char c :: nat in [CHR ''%'', hex_digit (n div 16), hex_digit (n mod 16)]) s)"

definition escapeRepo :: "string \<Rightarrow> string" where
  "escapeRepo name = Join (map PathEscape (Split name ''/'')) ''/''"

definition manifest_path :: "string \<Rightarrow> string \<Rightarrow> string" where
  "manifest_path name ref = ''/v2/'' @ escapeRepo name @ ''/manifests/'' @ PathEscape ref"

definition tags_path :: "string \<Rightarrow> string" where
  "tags_path name = ''/v2/'' @ escapeRepo name @ ''/tags/list''"

definition ManifestAccept :: string where
  "ManifestAccept = ''application/vnd.oci.image.index.v1+json, application/vnd.oci.image.manifest.v1+json, application/vnd.docker.distribution.manifest.list.v2+json, application/vnd.docker.distribution.manifest.v2+json, application/vnd.docker.distribution.manifest.v1+json''"

section \<open>Operations\<close>

definition Tags :: "'r client \<Rightarrow> string \<Rightarrow> 'r \<Rightarrow> string list rres" where
  "Tags c name r =
     (case do_get c ''GET'' (tags_path name) [] r of
        Inl e \<Rightarrow> Inl e
      | Inr resp \<Rightarrow>
          if \<not> ok_status (ws_status resp)
          then Inl (StatusError ''registry tags failed'' (ws_status resp) (ws_body resp))
          else (case Option.bind (cl_json c (ws_body resp)) (\<lambda>j. string_list j ''tags'') of
             None \<Rightarrow> Inl (ClientError ''invalid tags response'')
           | Some tags \<Rightarrow> Inr tags))"

record raw_manifest =
  rm_digest :: string
  rm_ctype :: string
  rm_body :: string
  rm_payload :: "json option"

text \<open>\<open>rm_payload\<close> is None when the body is not JSON (the code then keeps the raw bytes).\<close>

definition ManifestRaw :: "'r client \<Rightarrow> string \<Rightarrow> string \<Rightarrow> 'r \<Rightarrow> raw_manifest rres" where
  "ManifestRaw c name ref r =
     (case do_get c ''GET'' (manifest_path name ref) ManifestAccept r of
        Inl e \<Rightarrow> Inl e
      | Inr resp \<Rightarrow>
          if \<not> ok_status (ws_status resp)
          then Inl (StatusError ''registry manifest failed'' (ws_status resp) (ws_body resp))
          else Inr \<lparr>rm_digest = ws_header resp ''Docker-Content-Digest'',
                    rm_ctype = ws_header resp ''Content-Type'', rm_body = ws_body resp,
                    rm_payload = cl_json c (ws_body resp)\<rparr>)"

definition Manifest :: "'r client \<Rightarrow> string \<Rightarrow> string \<Rightarrow> 'r \<Rightarrow> raw_manifest rres" where
  "Manifest c name ref r = ManifestRaw c name ref r"

definition Digest :: "'r client \<Rightarrow> string \<Rightarrow> string \<Rightarrow> 'r \<Rightarrow> (string \<times> string) rres" where
  "Digest c name ref r =
     (case do_get c ''HEAD'' (manifest_path name ref) ManifestAccept r of
        Inl e \<Rightarrow> Inl e
      | Inr resp \<Rightarrow>
          if \<not> ok_status (ws_status resp)
          then Inl (StatusError ''registry digest lookup failed'' (ws_status resp) (ws_body resp))
          else Inr (ws_header resp ''Docker-Content-Digest'', ws_header resp ''Content-Type''))"

definition DeleteManifest :: "'r client \<Rightarrow> string \<Rightarrow> string \<Rightarrow> 'r \<Rightarrow> rerr option \<times> 'r" where
  "DeleteManifest c name digest r =
     (if \<not> cc_delete (cl_cfg c) then (Some (ClientError ''delete disabled by ENABLE_DELETE=false''), r)
      else case do_mut c ''DELETE'' (manifest_path name digest) ManifestAccept [] r of
        (Inl e, r') \<Rightarrow> (Some e, r')
      | (Inr resp, r') \<Rightarrow>
          if \<not> ok_status (ws_status resp)
          then (Some (StatusError ''registry delete failed'' (ws_status resp) (ws_body resp)), r')
          else (None, r'))"

definition PutManifest ::
    "'r client \<Rightarrow> string \<Rightarrow> string \<Rightarrow> string \<Rightarrow> string \<Rightarrow> 'r \<Rightarrow> rerr option \<times> 'r" where
  "PutManifest c name ref ctype body r =
     (let ct = (if ctype = [] then ''application/vnd.docker.distribution.manifest.v2+json'' else ctype)
      in case do_mut c ''PUT'' (manifest_path name ref) ct body r of
        (Inl e, r') \<Rightarrow> (Some e, r')
      | (Inr resp, r') \<Rightarrow>
          if \<not> ok_status (ws_status resp)
          then (Some (StatusError ''registry manifest restore failed'' (ws_status resp) (ws_body resp)), r')
          else (None, r'))"

definition Blob :: "'r client \<Rightarrow> string \<Rightarrow> string \<Rightarrow> 'r \<Rightarrow> (string \<times> string) rres" where
  "Blob c name digest r =
     (case do_get c ''GET'' (''/v2/'' @ escapeRepo name @ ''/blobs/'' @ PathEscape digest) [] r of
        Inl e \<Rightarrow> Inl e
      | Inr resp \<Rightarrow>
          if \<not> ok_status (ws_status resp)
          then Inl (StatusError ''registry blob fetch failed'' (ws_status resp) (ws_body resp))
          else Inr (ws_body resp, ws_header resp ''Content-Type''))"

definition Health :: "'r client \<Rightarrow> 'r \<Rightarrow> wire_resp rres" where
  "Health c r = do_get c ''GET'' ''/v2/'' [] r"

definition parseNextLast :: "'r client \<Rightarrow> string \<Rightarrow> string" where
  "parseNextLast c link =
     (if link = [] \<or> \<not> Contains link ''rel=\"next\"'' then []
      else case (Index link ''<'', Index link ''>'') of
        (Some i, Some j) \<Rightarrow>
          if j \<le> i then []
          else (case cl_query c (drop (i + 1) (take j link)) of
             None \<Rightarrow> [] | Some q \<Rightarrow> q ''last'')
      | _ \<Rightarrow> [])"

text \<open>\<^verbatim>\<open>url.QueryEscape\<close>: as \<open>PathEscape\<close>, but a space is \<^verbatim>\<open>+\<close> and the reserved marks are escaped.\<close>

definition QueryEscape :: "string \<Rightarrow> string" where
  "QueryEscape s = concat (map (\<lambda>c. if c = CHR '' '' then [CHR ''+'']
     else if path_safe c \<and> c \<notin> set ''$&+:=@'' then [c]
     else let n = of_char c :: nat in [CHR ''%'', hex_digit (n div 16), hex_digit (n mod 16)]) s)"

definition Catalog :: "'r client \<Rightarrow> string \<Rightarrow> string \<Rightarrow> 'r \<Rightarrow> (string list \<times> string) rres" where
  "Catalog c n lst r =
     (let q = Join ((if lst \<noteq> [] then [''last='' @ QueryEscape lst] else []) @
                    (if n \<noteq> [] then [''n='' @ QueryEscape n] else [])) ''&'';
          path = ''/v2/_catalog'' @ (if q \<noteq> [] then ''?'' @ q else [])
      in case do_get c ''GET'' path [] r of
        Inl e \<Rightarrow> Inl e
      | Inr resp \<Rightarrow>
          if \<not> ok_status (ws_status resp)
          then Inl (StatusError ''registry catalog failed'' (ws_status resp) (ws_body resp))
          else (case Option.bind (cl_json c (ws_body resp)) (\<lambda>j. string_list j ''repositories'') of
             None \<Rightarrow> Inl (ClientError ''invalid catalog response'')
           | Some repos \<Rightarrow> Inr (repos, parseNextLast c (ws_header resp ''Link''))))"

section \<open>Escaping\<close>

lemma hex_digit_no_slash: "n < 16 \<Longrightarrow> hex_digit n \<noteq> CHR ''/''"
proof -
  assume "n < 16"
  then have "n \<in> set [0..<16]" by simp
  then show ?thesis by (auto simp: hex_digit_def upt_rec char_of_def)
qed

lemma path_safe_no_slash: "path_safe c \<Longrightarrow> c \<noteq> CHR ''/''"
  by (auto simp: path_safe_def Let_def)

lemma PathEscape_no_slash: "CHR ''/'' \<notin> set (PathEscape s)"
proof -
  have "(of_char c :: nat) div 16 < 16" "(of_char c :: nat) mod 16 < 16" for c :: char
    using of_char_of[of "of_char c :: nat"] by (simp_all add: less_mult_imp_div_less of_char_def)
  then show ?thesis
    by (auto simp: PathEscape_def Let_def hex_digit_no_slash[symmetric] dest: path_safe_no_slash
        split: if_splits)
qed

section \<open>Unescaping\<close>

definition hex_val :: "char \<Rightarrow> nat" where
  "hex_val c = (let n = of_char c :: nat in if n < 58 then n - 48 else n - 55)"

fun PathUnescape :: "string \<Rightarrow> string" where
  "PathUnescape (p # a # b # s) =
     (if p = CHR ''%'' then char_of (16 * hex_val a + hex_val b) # PathUnescape s
      else p # PathUnescape (a # b # s))"
| "PathUnescape (p # s) = p # PathUnescape s"
| "PathUnescape [] = []"

lemma hex_val_digit: "n < 16 \<Longrightarrow> hex_val (hex_digit n) = n"
proof -
  assume "n < 16"
  moreover have "(of_char (char_of (48 + n) :: char) :: nat) = 48 + n" if "n < 10"
    using that by simp
  moreover have "(of_char (char_of (55 + n) :: char) :: nat) = 55 + n" if "n < 16"
    using that by simp
  ultimately show ?thesis by (auto simp: hex_val_def hex_digit_def Let_def)
qed

lemma PathUnescape_plain: "p \<noteq> CHR ''%'' \<Longrightarrow> PathUnescape (p # s) = p # PathUnescape s"
  by (cases s rule: PathUnescape.cases) auto

text \<open>Different references never share a path: unescaping gives the reference back.\<close>

lemma PathUnescape_PathEscape [simp]: "PathUnescape (PathEscape s) = s"
proof (induction s)
  case Nil
  then show ?case by (simp add: PathEscape_def)
next
  case (Cons c s)
  let ?n = "of_char c :: nat"
  have "?n div 16 < 16" "?n mod 16 < 16" by (simp_all add: less_mult_imp_div_less of_char_def)
  moreover have "16 * (?n div 16) + ?n mod 16 = ?n" by simp
  moreover have "path_safe c \<Longrightarrow> c \<noteq> CHR ''%''" by (auto simp: path_safe_def Let_def)
  ultimately show ?case using Cons
    by (cases "path_safe c") (simp_all add: PathEscape_def Let_def PathUnescape_plain hex_val_digit)
qed

end
