(* ===== verification/Image_Size.thy ===== *)
theory Image_Size
  imports Registry_Client
begin

text \<open>
  The size of the image a manifest points at (\<^verbatim>\<open>parseSizeValue\<close>, \<^verbatim>\<open>imageSize\<close>,
  \<^verbatim>\<open>imageSizeInto\<close>, \<^verbatim>\<open>uniqueBlobSize\<close> of \<^verbatim>\<open>server.go\<close>) and \<^verbatim>\<open>detectArtifactType\<close>. The depth
  bound of the code is the first argument counted down: 3 levels are entered
  (\<^verbatim>\<open>maxIndexSizeDepth = 2\<close>), so the recursion ends without further fuel. Lemmas: sizes are
  64-bit and non-negative before summing, each blob digest is counted once, and the number of
  child manifests requested is bounded whatever the documents say.
\<close>

section \<open>Sizes\<close>

text \<open>
  Go's conversion of a float64 to int64 is defined only inside the range; the code guards
  everything above \<^verbatim>\<open>float64(math.MaxInt64)\<close>, which is 2^63, but not 2^63 itself. There the
  result is implementation defined; on amd64 it is the smallest 64-bit integer.
\<close>

definition float_size :: "go_float \<Rightarrow> int" where
  "float_size f = (case f of
     FNaN \<Rightarrow> 0 | FInf _ \<Rightarrow> 0
   | FNum q \<Rightarrow> if q > 2 ^ 63 then max_int64
               else if q < 0 then 0
               else if q = 2 ^ 63 then min_int64
               else \<lfloor>q\<rfloor>)"

definition parseSizeValue :: "(string \<Rightarrow> rat option) \<Rightarrow> json option \<Rightarrow> int" where
  "parseSizeValue fl v = (case v of
     Some (JFloat f) \<Rightarrow> float_size f
   | Some (JNum s) \<Rightarrow>
       (case Atoi s of
          (n, None) \<Rightarrow> if n < 0 then 0 else n
        | (_, Some _) \<Rightarrow> (case fl s of Some q \<Rightarrow> float_size (FNum q) | None \<Rightarrow> 0))
   | _ \<Rightarrow> 0)"

definition maxIndexSizeChildren :: nat where "maxIndexSizeChildren = 16"
definition maxIndexSizeDepth :: nat where "maxIndexSizeDepth = 2"

definition uniqueBlobSize ::
    "(string \<Rightarrow> rat option) \<Rightarrow> json \<Rightarrow> string set \<Rightarrow> int \<times> string set" where
  "uniqueBlobSize fl d seen =
     (let size = parseSizeValue fl (jget d ''size''); digest = jstr d ''digest''
      in if size \<le> 0 then (0, seen)
         else if digest \<noteq> [] then
           (if digest \<in> seen then (0, seen) else (size, insert digest seen))
         else (size, seen))"

text \<open>The loop over the layers: entries that are not objects are skipped.\<close>

fun layers_size ::
    "(string \<Rightarrow> rat option) \<Rightarrow> json list \<Rightarrow> int \<Rightarrow> string set \<Rightarrow> int \<times> string set" where
  "layers_size fl [] tot seen = (tot, seen)"
| "layers_size fl (l # ls) tot seen =
     (if is_obj l then
        (case uniqueBlobSize fl l seen of (sz, seen') \<Rightarrow> layers_size fl ls (wrap64 (tot + sz)) seen')
      else layers_size fl ls tot seen)"

definition blobs_size ::
    "(string \<Rightarrow> rat option) \<Rightarrow> json \<Rightarrow> string set \<Rightarrow> int \<times> string set" where
  "blobs_size fl m seen =
     (let (tot, seen1) = (case jobj m ''config'' of None \<Rightarrow> (0, seen) | Some cfg \<Rightarrow> uniqueBlobSize fl cfg seen)
      in case jarr m ''layers'' of None \<Rightarrow> (tot, seen1)
         | Some ls \<Rightarrow> layers_size fl ls tot seen1)"

text \<open>
  \<open>fetch digest\<close> is \<^verbatim>\<open>client.Manifest(ctx, name, digest)\<close>: None for an error, the decoded
  document (None inside when it is not JSON) otherwise. The two seen sets are threaded as the
  code shares its maps. The list beside them is not state of the code: it records the calls of
  \<open>fetch\<close>, newest first, one entry where the code calls the client and nowhere else, so that
  what is said of the requests does not rest on what is said of the sets.
\<close>

fun imageSizeInto :: "(string \<Rightarrow> rat option) \<Rightarrow> (string \<Rightarrow> json option option) \<Rightarrow> nat \<Rightarrow> json option
      \<Rightarrow> string set \<times> string set \<times> string list \<Rightarrow> int \<times> string set \<times> string set \<times> string list"
  and childrenSize :: "(string \<Rightarrow> rat option) \<Rightarrow> (string \<Rightarrow> json option option) \<Rightarrow> nat \<Rightarrow> json list
      \<Rightarrow> nat \<Rightarrow> int \<Rightarrow> string set \<times> string set \<times> string list
      \<Rightarrow> int \<times> string set \<times> string set \<times> string list" where
  "imageSizeInto fl fetch 0 m seen = (0, seen)"
| "imageSizeInto fl fetch (Suc d) m (blobs, mans, reqs) =
     (case m of
        Some (JObj kvs) \<Rightarrow>
          (case jarr (JObj kvs) ''manifests'' of
             Some (x # xs) \<Rightarrow> childrenSize fl fetch d (x # xs) 0 0 (blobs, mans, reqs)
           | _ \<Rightarrow> (case blobs_size fl (JObj kvs) blobs of (t, blobs') \<Rightarrow> (t, blobs', mans, reqs)))
      | _ \<Rightarrow> (0, blobs, mans, reqs))"
| "childrenSize fl fetch d [] resolved tot seen = (tot, seen)"
| "childrenSize fl fetch d (x # xs) resolved tot (blobs, mans, reqs) =
     (if resolved \<ge> maxIndexSizeChildren then (tot, blobs, mans, reqs)
      else if \<not> is_obj x \<or> jstr x ''digest'' = [] \<or> jstr x ''digest'' \<in> mans
      then childrenSize fl fetch d xs resolved tot (blobs, mans, reqs)
      else let digest = jstr x ''digest''; mans1 = insert digest mans; reqs1 = digest # reqs in
        (case fetch digest of
           None \<Rightarrow> childrenSize fl fetch d xs (Suc resolved) tot (blobs, mans1, reqs1)
         | Some child \<Rightarrow>
             (case imageSizeInto fl fetch d child (blobs, mans1, reqs1) of
                (sz, seen2) \<Rightarrow> childrenSize fl fetch d xs (Suc resolved) (wrap64 (tot + sz)) seen2)))"

definition fetch_manifest :: "'r client \<Rightarrow> string \<Rightarrow> 'r \<Rightarrow> string \<Rightarrow> json option option" where
  "fetch_manifest c name r digest =
     (case Manifest c name digest r of Inl _ \<Rightarrow> None | Inr raw \<Rightarrow> Some (rm_payload raw))"

definition imageSize :: "'r client \<Rightarrow> string \<Rightarrow> json option \<Rightarrow> 'r \<Rightarrow> int" where
  "imageSize c name m r =
     fst (imageSizeInto (cl_float c) (fetch_manifest c name r) (Suc maxIndexSizeDepth) m ({}, {}, []))"

text \<open>How many requests that takes.\<close>

definition imageSize_requests :: "'r client \<Rightarrow> string \<Rightarrow> json option \<Rightarrow> 'r \<Rightarrow> nat" where
  "imageSize_requests c name m r =
     length (snd (snd (snd (imageSizeInto (cl_float c) (fetch_manifest c name r) (Suc maxIndexSizeDepth) m
       ({}, {}, [])))))"

section \<open>Artifact types\<close>

definition detectArtifactType :: "string \<Rightarrow> json option \<Rightarrow> string" where
  "detectArtifactType contentType manifest =
     (case manifest of
        Some (JObj kvs) \<Rightarrow>
          (let m = JObj kvs;
               schema_pos = (case jget m ''schemaVersion'' of
                   Some (JFloat (FNum q)) \<Rightarrow> q > 0 | Some (JFloat (FInf pos)) \<Rightarrow> pos | _ \<Rightarrow> False);
               mt0 = jstr m ''mediaType'';
               mt = (if mt0 = [] then contentType else mt0)
           in if mt \<in> set [''application/vnd.docker.distribution.manifest.list.v2+json'',
                        ''application/vnd.oci.image.index.v1+json''] then ''manifest-list''
              else if mt \<in> set [''application/vnd.docker.distribution.manifest.v2+json'',
                        ''application/vnd.oci.image.manifest.v1+json''] then
                (let cfg = (case jobj m ''config'' of None \<Rightarrow> [] | Some cf \<Rightarrow> jstr cf ''mediaType'')
                 in if cfg \<in> set [''application/vnd.docker.container.image.v1+json'',
                          ''application/vnd.oci.image.config.v1+json''] then ''image''
                    else if cfg = ''application/vnd.cncf.helm.config.v1+json'' then ''helm-chart''
                    else if cfg \<in> set [''application/vnd.syft+json'', ''application/spdx+json'',
                          ''application/vnd.spdx+json'', ''application/vnd.cyclonedx+json''] then ''sbom''
                    else if cfg = ''application/vnd.dsse+json'' then ''attestation''
                    else ''image'')
              else if mt \<in> set [''application/vnd.docker.distribution.manifest.v1+json'',
                        ''application/vnd.docker.distribution.manifest.v1+prettyjws''] then ''image-legacy''
              else if schema_pos then ''unknown'' else [])
      | _ \<Rightarrow> [])"

section \<open>Bounds on sizes\<close>

lemma float_size_range: "in_int64 (float_size f)"
proof (cases f)
  case (FNum q)
  show ?thesis
  proof (cases "q < 0 \<or> 2 ^ 63 \<le> q")
    case True
    then show ?thesis
      by (auto simp: FNum float_size_def in_int64_def min_int64_def max_int64_def)
  next
    case False
    then have "\<lfloor>q\<rfloor> < 2 ^ 63" "0 \<le> \<lfloor>q\<rfloor>" by (simp_all add: floor_less_iff)
    then have "in_int64 \<lfloor>q\<rfloor>"
      unfolding in_int64_def min_int64_def max_int64_def by linarith
    with False show ?thesis by (simp add: FNum float_size_def)
  qed
qed (simp_all add: float_size_def in_int64_def min_int64_def max_int64_def)

lemma parseSizeValue_range: "in_int64 (parseSizeValue fl v)"
proof -
  have z: "in_int64 0" by (simp add: in_int64_def min_int64_def max_int64_def)
  have "in_int64 (case Atoi t of (n, None) \<Rightarrow> if n < 0 then 0 else n
      | (_, Some _) \<Rightarrow> (case fl t of Some q \<Rightarrow> float_size (FNum q) | None \<Rightarrow> 0))" for t
    using Atoi_range[of t] z float_size_range by (auto split: prod.splits option.splits)
  then show ?thesis
    using z float_size_range by (auto simp: parseSizeValue_def split: option.splits json.splits)
qed

section \<open>Each blob once\<close>

text \<open>
  The descriptors a traversal meets, in order and with repetitions, and what counting each
  digest once makes of them.
\<close>

definition descr :: "(string \<Rightarrow> rat option) \<Rightarrow> json \<Rightarrow> string \<times> int" where
  "descr fl d = (jstr d ''digest'', parseSizeValue fl (jget d ''size''))"

definition blob_descrs :: "(string \<Rightarrow> rat option) \<Rightarrow> json \<Rightarrow> (string \<times> int) list" where
  "blob_descrs fl m =
     (case jobj m ''config'' of None \<Rightarrow> [] | Some cfg \<Rightarrow> [descr fl cfg]) @
     (case jarr m ''layers'' of None \<Rightarrow> [] | Some ls \<Rightarrow> map (descr fl) (filter is_obj ls))"

fun reached :: "(string \<Rightarrow> rat option) \<Rightarrow> (string \<Rightarrow> json option option) \<Rightarrow> nat \<Rightarrow> json option
      \<Rightarrow> string list \<Rightarrow> (string \<times> int) list \<times> string list"
  and reachedChildren :: "(string \<Rightarrow> rat option) \<Rightarrow> (string \<Rightarrow> json option option) \<Rightarrow> nat \<Rightarrow> json list
      \<Rightarrow> nat \<Rightarrow> string list \<Rightarrow> (string \<times> int) list \<times> string list" where
  "reached fl fetch 0 m mans = ([], mans)"
| "reached fl fetch (Suc d) m mans =
     (case m of
        Some (JObj kvs) \<Rightarrow>
          (case jarr (JObj kvs) ''manifests'' of
             Some (x # xs) \<Rightarrow> reachedChildren fl fetch d (x # xs) 0 mans
           | _ \<Rightarrow> (blob_descrs fl (JObj kvs), mans))
      | _ \<Rightarrow> ([], mans))"
| "reachedChildren fl fetch d [] resolved mans = ([], mans)"
| "reachedChildren fl fetch d (x # xs) resolved mans =
     (if resolved \<ge> maxIndexSizeChildren then ([], mans)
      else if \<not> is_obj x \<or> jstr x ''digest'' = [] \<or> jstr x ''digest'' \<in> set mans
      then reachedChildren fl fetch d xs resolved mans
      else let digest = jstr x ''digest''; mans1 = digest # mans in
        (case fetch digest of
           None \<Rightarrow> reachedChildren fl fetch d xs (Suc resolved) mans1
         | Some child \<Rightarrow>
             (case reached fl fetch d child mans1 of (ds, mans2) \<Rightarrow>
               (case reachedChildren fl fetch d xs (Suc resolved) mans2 of (es, mans3) \<Rightarrow> (ds @ es, mans3)))))"

fun count_once :: "(string \<times> int) list \<Rightarrow> string set \<Rightarrow> int \<times> string set" where
  "count_once [] seen = (0, seen)"
| "count_once ((dg, sz) # xs) seen =
     (if sz \<le> 0 \<or> (dg \<noteq> [] \<and> dg \<in> seen) then count_once xs seen
      else case count_once xs (if dg \<noteq> [] then insert dg seen else seen) of
        (t, seen') \<Rightarrow> (sz + t, seen'))"

lemma count_once_append:
  "count_once (xs @ ys) seen =
     (case count_once xs seen of (a, s1) \<Rightarrow> (case count_once ys s1 of (b, s2) \<Rightarrow> (a + b, s2)))"
  by (induction xs seen rule: count_once.induct) (auto split: prod.splits)

lemma uniqueBlobSize_once:
  "uniqueBlobSize fl d seen = count_once [descr fl d] seen"
  by (auto simp: uniqueBlobSize_def descr_def Let_def)

lemma layers_size_once:
  "layers_size fl ls tot seen =
     (case count_once (map (descr fl) (filter is_obj ls)) seen of
        (t, s') \<Rightarrow> (if filter is_obj ls = [] then tot else wrap64 (tot + t), s'))"
proof (induction fl ls tot seen rule: layers_size.induct)
  case (1 fl tot seen)
  then show ?case by simp
next
  case (2 fl l ls tot seen)
  show ?case
  proof (cases "is_obj l")
    case False
    with 2(2) show ?thesis by simp
  next
    case True
    obtain sz s1 where u: "uniqueBlobSize fl l seen = (sz, s1)" by fastforce
    obtain t s2 where t: "count_once (map (descr fl) (filter is_obj ls)) s1 = (t, s2)" by fastforce
    have c: "count_once (map (descr fl) (filter is_obj (l # ls))) seen = (sz + t, s2)"
      using count_once_append[of "[descr fl l]" "map (descr fl) (filter is_obj ls)" seen] True t u
      by (simp add: uniqueBlobSize_once)
    have "layers_size fl (l # ls) tot seen = layers_size fl ls (wrap64 (tot + sz)) s1"
      using True u by simp
    also have "\<dots> = (if filter is_obj ls = [] then wrap64 (tot + sz) else wrap64 (wrap64 (tot + sz) + t), s2)"
      using 2(1)[OF True u[symmetric]] t by simp
    also have "\<dots> = (wrap64 (tot + (sz + t)), s2)"
      using t by (auto simp: wrap64_add add.assoc)
    finally show ?thesis using True c by simp
  qed
qed

lemma count_once_single_range:
  "in_int64 (fst (count_once [descr fl d] seen))"
  using parseSizeValue_range[of fl "jget d ''size''"]
  by (auto simp: descr_def in_int64_def min_int64_def max_int64_def)

lemma blobs_size_once:
  "blobs_size fl m seen = (case count_once (blob_descrs fl m) seen of (t, s') \<Rightarrow> (wrap64 t, s'))"
proof -
  obtain t s1 where c: "(case jobj m ''config'' of None \<Rightarrow> (0, seen) | Some cfg \<Rightarrow> uniqueBlobSize fl cfg seen) = (t, s1)"
    by fastforce
  have c1: "count_once (case jobj m ''config'' of None \<Rightarrow> [] | Some cfg \<Rightarrow> [descr fl cfg]) seen = (t, s1)"
    using c by (auto simp: uniqueBlobSize_once split: option.splits)
  have r: "in_int64 t"
    using c count_once_single_range[of fl _ seen]
    by (auto simp: uniqueBlobSize_once in_int64_def min_int64_def max_int64_def split: option.splits)
      (metis fst_conv)+
  have w: "wrap64 t = t" by (rule wrap64_id[OF r])
  show ?thesis
  proof (cases "jarr m ''layers''")
    case None
    then show ?thesis using c c1 w by (simp add: blobs_size_def blob_descrs_def)
  next
    case (Some ls)
    obtain u s2 where u: "count_once (map (descr fl) (filter is_obj ls)) s1 = (u, s2)" by fastforce
    have "layers_size fl ls t s1 = (wrap64 (t + u), s2)"
      using u w by (auto simp: layers_size_once)
    moreover have "count_once (blob_descrs fl m) seen = (t + u, s2)"
      using c1 u Some by (simp add: blob_descrs_def count_once_append)
    ultimately show ?thesis using c Some by (simp add: blobs_size_def)
  qed
qed

text \<open>
  The traversal of the code, with its shared sets, computes the sum over what is reached, and
  requests the manifests reached, in that order: the set of seen manifests is at every point the
  set of the requests made.
\<close>

lemma size_reached:
  "imageSizeInto fl fetch d m (blobs, set mans, mans) =
     (case reached fl fetch d m mans of (ds, mans') \<Rightarrow>
       (case count_once ds blobs of (t, b') \<Rightarrow> (wrap64 t, b', set mans', mans')))"
  "in_int64 tot \<Longrightarrow> childrenSize fl fetch d2 xs resolved tot (blobs, set mans, mans) =
     (case reachedChildren fl fetch d2 xs resolved mans of (ds, mans') \<Rightarrow>
       (case count_once ds blobs of (t, b') \<Rightarrow> (wrap64 (tot + t), b', set mans', mans')))"
proof (induction fl fetch d m mans and fl fetch d2 xs resolved mans
    arbitrary: blobs and blobs tot rule: reached_reachedChildren.induct)
  case (1 fl fetch m mans)
  then show ?case by (simp add: wrap64_def)
next
  case (2 fl fetch d m mans)
  show ?case
  proof (cases "\<exists>kvs. m = Some (JObj kvs)")
    case False
    then show ?thesis by (auto simp: wrap64_def split: option.splits json.splits)
  next
    case True
    then obtain kvs where m: "m = Some (JObj kvs)" by blast
    show ?thesis
    proof (cases "\<exists>x xs. jarr (JObj kvs) ''manifests'' = Some (x # xs)")
      case True
      then obtain x xs where j: "jarr (JObj kvs) ''manifests'' = Some (x # xs)" by blast
      have "in_int64 0" by (simp add: in_int64_def min_int64_def max_int64_def)
      from 2[OF m refl j refl this, of blobs] show ?thesis by (simp add: m j)
    next
      case False
      then show ?thesis
        by (auto simp: m blobs_size_once split: option.splits list.splits prod.splits)
    qed
  qed
next
  case (3 fl fetch d resolved mans)
  then show ?case by (simp add: wrap64_id)
next
  case (4 fl fetch d x xs resolved mans)
  let ?dg = "jstr x ''digest''"
  show ?case
  proof (cases "resolved \<ge> maxIndexSizeChildren")
    case True
    with 4 show ?thesis by (simp add: wrap64_id)
  next
    case go: False
    show ?thesis
    proof (cases "\<not> is_obj x \<or> ?dg = [] \<or> ?dg \<in> set mans")
      case True
      with 4(1)[OF go True 4(5), of blobs] go show ?thesis by simp
    next
      case new: False
      have ins: "insert ?dg (set mans) = set (?dg # mans)" by simp
      show ?thesis
      proof (cases "fetch ?dg")
        case None
        with 4(2)[OF go new refl refl None 4(5), of blobs] go new show ?thesis
          by (simp add: Let_def)
      next
        case (Some child)
        obtain ds mans2 where r: "reached fl fetch d child (?dg # mans) = (ds, mans2)" by fastforce
        obtain t b2 where t: "count_once ds blobs = (t, b2)" by fastforce
        have i: "imageSizeInto fl fetch d child (blobs, set (?dg # mans), ?dg # mans) =
            (wrap64 t, b2, set mans2, mans2)"
          using 4(3)[OF go new refl refl Some, of blobs] r t by simp
        obtain es mans3 where e: "reachedChildren fl fetch d xs (Suc resolved) mans2 = (es, mans3)" by fastforce
        obtain u b3 where u: "count_once es b2 = (u, b3)" by fastforce
        have c: "childrenSize fl fetch d xs (Suc resolved) (wrap64 (tot + wrap64 t)) (b2, set mans2, mans2) =
            (wrap64 (wrap64 (tot + wrap64 t) + u), b3, set mans3, mans3)"
          using 4(4)[OF go new refl refl Some r[symmetric], of "wrap64 (tot + wrap64 t)" b2] e u wrap64_range
          by simp
        have w: "wrap64 (wrap64 (tot + wrap64 t) + u) = wrap64 (tot + (t + u))"
          using wrap64_add[of "tot + wrap64 t" u] wrap64_add[of t "tot + u"]
          by (simp add: algebra_simps)
        have "count_once (ds @ es) blobs = (t + u, b3)" using t u by (simp add: count_once_append)
        with go new Some r i e c w show ?thesis by (simp add: Let_def)
      qed
    qed
  qed
qed

text \<open>How many child manifests a traversal may request.\<close>

fun request_bound :: "nat \<Rightarrow> nat" where
  "request_bound 0 = 0"
| "request_bound (Suc d) = maxIndexSizeChildren * (1 + request_bound d)"

lemma reached_bound:
  "length (snd (reached fl fetch d m mans)) \<le> length mans + request_bound d"
  "length (snd (reachedChildren fl fetch d2 xs resolved mans)) \<le>
     length mans + (maxIndexSizeChildren - resolved) * (1 + request_bound d2)"
proof (induction fl fetch d m mans and fl fetch d2 xs resolved mans
    rule: reached_reachedChildren.induct)
  case (2 fl fetch d m mans)
  then show ?case by (auto split: option.splits json.splits list.splits)
next
  case (4 fl fetch d x xs resolved mans)
  let ?dg = "jstr x ''digest''"
  show ?case
  proof (cases "resolved \<ge> maxIndexSizeChildren")
    case True
    then show ?thesis by simp
  next
    case go: False
    then have step: "(maxIndexSizeChildren - resolved) * (1 + request_bound d) =
        1 + request_bound d + (maxIndexSizeChildren - Suc resolved) * (1 + request_bound d)"
      by (metis Suc_diff_Suc mult_Suc not_le_imp_less)
    show ?thesis
    proof (cases "\<not> is_obj x \<or> ?dg = [] \<or> ?dg \<in> set mans")
      case True
      with 4(1)[OF go True] go show ?thesis by simp
    next
      case new: False
      show ?thesis
      proof (cases "fetch ?dg")
        case None
        have "reachedChildren fl fetch d (x # xs) resolved mans =
            reachedChildren fl fetch d xs (Suc resolved) (?dg # mans)"
          using go new None by (simp add: Let_def)
        with 4(2)[OF go new refl refl None] step show ?thesis by simp
      next
        case (Some child)
        obtain ds mans2 where r: "reached fl fetch d child (?dg # mans) = (ds, mans2)" by fastforce
        obtain es mans3 where e: "reachedChildren fl fetch d xs (Suc resolved) mans2 = (es, mans3)" by fastforce
        have "length mans2 \<le> Suc (length mans) + request_bound d"
          using 4(3)[OF go new refl refl Some] r by simp
        moreover have "length mans3 \<le> length mans2 + (maxIndexSizeChildren - Suc resolved) * (1 + request_bound d)"
          using 4(4)[OF go new refl refl Some r[symmetric]] e by simp
        ultimately show ?thesis using go new Some r e step by (simp add: Let_def)
      qed
    qed
  qed
qed auto

lemma reached_distinct:
  "distinct mans \<Longrightarrow> distinct (snd (reached fl fetch d m mans))"
  "distinct mans \<Longrightarrow> distinct (snd (reachedChildren fl fetch d2 xs resolved mans))"
proof (induction fl fetch d m mans and fl fetch d2 xs resolved mans
    rule: reached_reachedChildren.induct)
  case (2 fl fetch d m mans)
  then show ?case by (auto split: option.splits json.splits list.splits)
next
  case (4 fl fetch d x xs resolved mans)
  let ?dg = "jstr x ''digest''"
  show ?case
  proof (cases "resolved \<ge> maxIndexSizeChildren \<or> \<not> is_obj x \<or> ?dg = [] \<or> ?dg \<in> set mans")
    case True
    with 4(1) 4(5) show ?thesis by auto
  next
    case False
    then have go: "\<not> resolved \<ge> maxIndexSizeChildren" and new: "\<not> (\<not> is_obj x \<or> ?dg = [] \<or> ?dg \<in> set mans)"
      by auto
    then have d: "distinct (?dg # mans)" using 4(5) by simp
    show ?thesis
    proof (cases "fetch ?dg")
      case None
      with 4(2)[OF go new refl refl None d] go new show ?thesis by (simp add: Let_def)
    next
      case (Some child)
      obtain ds mans2 where r: "reached fl fetch d child (?dg # mans) = (ds, mans2)" by fastforce
      have "distinct mans2" using 4(3)[OF go new refl refl Some d] r by simp
      from 4(4)[OF go new refl refl Some r[symmetric] this] go new Some r
      show ?thesis by (auto simp: Let_def split: prod.splits)
    qed
  qed
qed auto

lemma count_once_sum:
  assumes "\<And>dg sz. (dg, sz) \<in> set ds \<Longrightarrow> dg \<noteq> [] \<and> 0 < sz \<and> sz = size_of dg"
  shows "fst (count_once ds seen) = (\<Sum>dg \<in> fst ` set ds - seen. size_of dg)"
  using assms
proof (induction ds arbitrary: seen)
  case Nil
  then show ?case by simp
next
  case (Cons p ds)
  obtain dg sz where p: "p = (dg, sz)" by fastforce
  have dg: "dg \<noteq> []" "0 < sz" "sz = size_of dg" using Cons.prems[of dg sz] p by auto
  have IH: "fst (count_once ds seen') = (\<Sum>dg \<in> fst ` set ds - seen'. size_of dg)" for seen'
    using Cons.IH[of seen'] Cons.prems by auto
  show ?case
  proof (cases "dg \<in> seen")
    case True
    then have "fst ` set (p # ds) - seen = fst ` set ds - seen" by (auto simp: p)
    with True dg IH show ?thesis by (simp add: p)
  next
    case False
    have "fst ` set (p # ds) - seen = insert dg (fst ` set ds - insert dg seen)"
      using False by (auto simp: p)
    moreover have "dg \<notin> fst ` set ds - insert dg seen" by simp
    ultimately have "(\<Sum>dg \<in> fst ` set (p # ds) - seen. size_of dg) =
        size_of dg + (\<Sum>dg \<in> fst ` set ds - insert dg seen. size_of dg)" by simp
    moreover have "fst (count_once (p # ds) seen) = sz + fst (count_once ds (insert dg seen))"
      using False dg by (simp add: p split: prod.splits)
    ultimately show ?thesis using IH dg by simp
  qed
qed

text \<open>The requests of one traversal from the top.\<close>

lemma requests_once:
  "distinct (snd (snd (snd (imageSizeInto fl fetch (Suc maxIndexSizeDepth) m ({}, {}, []))))) \<and>
   length (snd (snd (snd (imageSizeInto fl fetch (Suc maxIndexSizeDepth) m ({}, {}, []))))) \<le> 4368"
proof -
  let ?d = "Suc maxIndexSizeDepth"
  have "snd (snd (snd (imageSizeInto fl fetch ?d m ({}, {}, [])))) = snd (reached fl fetch ?d m [])"
    using size_reached(1)[of fl fetch ?d m "{}" "[]"] by (simp split: prod.splits)
  moreover have "request_bound ?d = 4368"
  proof -
    have "?d = Suc (Suc (Suc 0))" by (simp add: maxIndexSizeDepth_def)
    then show ?thesis by (simp only: request_bound.simps maxIndexSizeChildren_def) simp
  qed
  ultimately show ?thesis
    using reached_bound(1)[of fl fetch ?d m "[]"] reached_distinct(1)[of "[]" fl fetch ?d m] by simp
qed

section \<open>Properties\<close>

text \<open>
  C4. The size of an image is the sum over the distinct blobs of the manifests reached
  within the depth and child bounds: when every descriptor met names its blob and equal
  digests declare equal positive sizes, layers shared between platforms or repeated in a
  manifest count once; the result is exact whenever that sum fits 64 bits.
\<close>

theorem image_size_each_blob_once:
  assumes "ds = fst (reached (cl_float c) (fetch_manifest c name r) 3 m [])"
    and "\<And>dg sz. (dg, sz) \<in> set ds \<Longrightarrow> dg \<noteq> [] \<and> 0 < sz \<and> sz = size_of dg"
    and "(\<Sum>dg \<in> fst ` set ds. size_of dg) \<le> max_int64"
  shows "imageSize c name m r = (\<Sum>dg \<in> fst ` set ds. size_of dg)"
proof -
  obtain mans where r: "reached (cl_float c) (fetch_manifest c name r) 3 m [] = (ds, mans)"
    using assms(1) by (cases "reached (cl_float c) (fetch_manifest c name r) 3 m []") simp
  have eq: "imageSize c name m r = wrap64 (fst (count_once ds {}))"
    using size_reached(1)[of "cl_float c" "fetch_manifest c name r" 3 m "{}" "[]"] r
    by (simp add: imageSize_def maxIndexSizeDepth_def split: prod.splits)
  have sum: "fst (count_once ds {}) = (\<Sum>dg \<in> fst ` set ds. size_of dg)"
    using count_once_sum[of ds size_of "{}"] assms(2) by simp
  have "0 \<le> (\<Sum>dg \<in> fst ` set ds. size_of dg)"
    using assms(2) by (intro sum_nonneg) force
  with assms(3) show ?thesis by (simp add: eq sum wrap64_nonneg_small)
qed

text \<open>A client over a fixed table of responses, for the witnesses.\<close>

definition table_client :: "(string \<Rightarrow> (string \<times> string) option) \<Rightarrow> (string \<Rightarrow> json option) \<Rightarrow> 'r client" where
  "table_client docs dec =
     \<lparr>cl_cfg = \<lparr>cc_url = ''http://r'', cc_user = [], cc_pass = [], cc_bearer = [], cc_delete = True\<rparr>,
      cl_up = \<lparr>up_get = (\<lambda>q _. case docs (wq_url q) of
          None \<Rightarrow> Inr \<lparr>ws_status = 404, ws_header = (\<lambda>_. []), ws_body = []\<rparr>
        | Some (dg, body) \<Rightarrow> Inr \<lparr>ws_status = 200,
            ws_header = (\<lambda>h. if h = ''Docker-Content-Digest'' then dg else []), ws_body = body\<rparr>),
        up_mut = (\<lambda>q r. (Inr \<lparr>ws_status = 202, ws_header = (\<lambda>_. []), ws_body = []\<rparr>, r))\<rparr>,
      cl_json = dec, cl_float = (\<lambda>_. None), cl_query = (\<lambda>_. None)\<rparr>"

definition demo_layer :: "string \<Rightarrow> string \<Rightarrow> json" where
  "demo_layer dg sz = JObj [(''digest'', JStr dg), (''size'', JNum sz)]"

definition demo_manifest :: json where
  "demo_manifest = JObj [(''config'', demo_layer ''c'' ''5''),
     (''layers'', JArr [demo_layer ''a'' ''7'', demo_layer ''b'' ''9'', demo_layer ''a'' ''7''])]"

theorem image_size_each_blob_once_witness:
  "imageSize (table_client (\<lambda>_. None) (\<lambda>_. None)) ''x'' (Some demo_manifest) () = 21"
proof -
  let ?c = "table_client (\<lambda>_. None) (\<lambda>_. None) :: unit client"
  have at: "Atoi ''5'' = (5, None)" "Atoi ''7'' = (7, None)" "Atoi ''9'' = (9, None)"
    by (simp_all add: Atoi_def is_digit_def digits_val_def digit_val_def min_int64_def max_int64_def)
  have ds: "fst (reached (cl_float ?c) (fetch_manifest ?c ''x'' ()) 3 (Some demo_manifest) []) =
      [(''c'', 5), (''a'', 7), (''b'', 9), (''a'', 7)]"
    by (simp add: demo_manifest_def jarr_def jget_def jobj_def blob_descrs_def demo_layer_def descr_def
        jstr_def parseSizeValue_def at is_obj_def eval_nat_numeral)
  let ?f = "\<lambda>d :: string. if d = ''c'' then 5 else if d = ''a'' then 7 else 9 :: int"
  have names: "fst ` set [(''c'', 5 :: int), (''a'', 7), (''b'', 9), (''a'', 7)] = {''c'', ''a'', ''b''}"
    by auto
  have sum: "(\<Sum>dg \<in> fst ` set [(''c'', 5 :: int), (''a'', 7), (''b'', 9), (''a'', 7)]. ?f dg) = 21"
    unfolding names by simp
  have "imageSize ?c ''x'' (Some demo_manifest) () =
      (\<Sum>dg \<in> fst ` set [(''c'', 5 :: int), (''a'', 7), (''b'', 9), (''a'', 7)]. ?f dg)"
  proof (rule image_size_each_blob_once[OF ds[symmetric]])
    show "(\<Sum>dg \<in> fst ` set [(''c'', 5 :: int), (''a'', 7), (''b'', 9), (''a'', 7)]. ?f dg) \<le> max_int64"
      unfolding sum by (simp add: max_int64_def)
  qed auto
  then show ?thesis unfolding sum .
qed

text \<open>
  C5. However an index is nested, sizing it terminates, and the list of the requests it makes of the
  registry, one entry for each call of the client, has no digest twice and at most 4368 entries (16
  per document, three levels).
\<close>

theorem image_size_requests_bounded:
  "case imageSizeInto fl fetch (Suc maxIndexSizeDepth) m ({}, {}, []) of
     (tot, blobs, mans, reqs) \<Rightarrow> distinct reqs \<and> length reqs \<le> 4368"
  using requests_once[of fl fetch m] by (simp add: case_prod_beta)

end
