(* ===== verification/Registry_Laws.thy ===== *)
theory Registry_Laws
  imports Registry_Client
begin

text \<open>
  What the program relies on in a healthy upstream registry, as a predicate on the client of
  \<^verbatim>\<open>client.go\<close>, and a small registry for which it holds. Properties that need a registry that
  keeps its word have \<open>registry_laws\<close> as a hypothesis; their witnesses use \<open>demo_client\<close>.
\<close>

section \<open>What a registry promises\<close>

text \<open>
  A registry answering every call, seen through the tags of one repository: \<open>T r\<close> maps a tag to
  its digest, \<open>hash\<close> is the digest of a manifest body. Listing gives the tags, HEAD the digest of
  a tag, GET of a stored digest its body; a successful DELETE of a digest takes every tag of it
  away, a successful PUT points the tag at the digest of the body, a refused call changes nothing.
\<close>

definition registry_laws ::
    "'r client \<Rightarrow> string \<Rightarrow> ('r \<Rightarrow> string \<rightharpoonup> string) \<Rightarrow> (string \<Rightarrow> string) \<Rightarrow> bool" where
  "registry_laws c name T hash \<longleftrightarrow> (\<forall>r.
     (\<exists>tags. Tags c name r = Inr tags \<and> set tags = dom (T r)) \<and>
     (\<forall>t d. T r t = Some d \<longrightarrow> d \<noteq> [] \<and> (\<exists>ct. Digest c name t r = Inr (d, ct))) \<and>
     (\<forall>t. T r t = None \<longrightarrow> (\<exists>e. Digest c name t r = Inl e)) \<and>
     (\<forall>d raw. d \<in> ran (T r) \<longrightarrow> ManifestRaw c name d r = Inr raw \<longrightarrow> hash (rm_body raw) = d) \<and>
     (\<forall>d. T (snd (DeleteManifest c name d r)) =
        (if fst (DeleteManifest c name d r) = None
         then (\<lambda>t. if T r t = Some d then None else T r t) else T r)) \<and>
     (\<forall>t ct body. T (snd (PutManifest c name t ct body r)) =
        (if fst (PutManifest c name t ct body r) = None then (T r)(t \<mapsto> hash body) else T r)))"

definition digest_in :: "(string \<rightharpoonup> string) \<Rightarrow> string \<Rightarrow> string" where
  "digest_in m t = (case m t of None \<Rightarrow> [] | Some d \<Rightarrow> d)"

lemma registry_lawsD:
  assumes "registry_laws c name T hash"
  shows "\<exists>tags. Tags c name r = Inr tags \<and> set tags = dom (T r)"
    "T r t = Some d \<Longrightarrow> d \<noteq> []"
    "(case Digest c name t r of Inl _ \<Rightarrow> [] | Inr (d, _) \<Rightarrow> d) = digest_in (T r) t"
    "d \<in> ran (T r) \<Longrightarrow> ManifestRaw c name d r = Inr raw \<Longrightarrow> hash (rm_body raw) = d"
    "DeleteManifest c name d r = (None, r') \<Longrightarrow> T r' = (\<lambda>t. if T r t = Some d then None else T r t)"
    "DeleteManifest c name d r = (Some e, r') \<Longrightarrow> T r' = T r"
    "PutManifest c name t ct body r = (None, r') \<Longrightarrow> T r' = (T r)(t \<mapsto> hash body)"
    "PutManifest c name t ct body r = (Some e, r') \<Longrightarrow> T r' = T r"
proof -
  note L = assms[unfolded registry_laws_def, rule_format, of r]
  show "\<exists>tags. Tags c name r = Inr tags \<and> set tags = dom (T r)" using L by blast
  show "T r t = Some d \<Longrightarrow> d \<noteq> []" using L by blast
  show "(case Digest c name t r of Inl _ \<Rightarrow> [] | Inr (d, _) \<Rightarrow> d) = digest_in (T r) t"
  proof (cases "T r t")
    case None
    with L obtain e where "Digest c name t r = Inl e" by blast
    with None show ?thesis by (simp add: digest_in_def)
  next
    case (Some d)
    with L obtain ct where "Digest c name t r = Inr (d, ct)" by blast
    with Some show ?thesis by (simp add: digest_in_def)
  qed
  show "d \<in> ran (T r) \<Longrightarrow> ManifestRaw c name d r = Inr raw \<Longrightarrow> hash (rm_body raw) = d"
    using L by blast
  have D: "T (snd (DeleteManifest c name d r)) = (if fst (DeleteManifest c name d r) = None
         then (\<lambda>t. if T r t = Some d then None else T r t) else T r)" using L by blast
  then show "DeleteManifest c name d r = (None, r') \<Longrightarrow> T r' = (\<lambda>t. if T r t = Some d then None else T r t)"
    and "DeleteManifest c name d r = (Some e, r') \<Longrightarrow> T r' = T r" by simp_all
  have P: "T (snd (PutManifest c name t ct body r)) =
        (if fst (PutManifest c name t ct body r) = None then (T r)(t \<mapsto> hash body) else T r)"
    using L by blast
  then show "PutManifest c name t ct body r = (None, r') \<Longrightarrow> T r' = (T r)(t \<mapsto> hash body)"
    and "PutManifest c name t ct body r = (Some e, r') \<Longrightarrow> T r' = T r" by simp_all
qed

section \<open>A registry that keeps them\<close>

text \<open>
  An in-memory registry of one repository, to show the laws can hold: an association list of
  tags and manifest bodies, where a body is its own digest. It refuses bodies that are empty and
  contents beyond a hundred entries of a hundred bytes; any other state counts as empty.
\<close>

definition demo_small :: "(string \<times> string) list \<Rightarrow> bool" where
  "demo_small r \<longleftrightarrow> length r \<le> 100 \<and> distinct (map fst r) \<and>
     list_all (\<lambda>(t, b). length t \<le> 100 \<and> b \<noteq> [] \<and> length b \<le> 100) r"

definition demo_norm :: "(string \<times> string) list \<Rightarrow> (string \<times> string) list" where
  "demo_norm r = (if demo_small r then r else [])"

definition demo_tags :: "(string \<times> string) list \<Rightarrow> string \<rightharpoonup> string" where
  "demo_tags r = map_of (demo_norm r)"

definition enc_tag :: "string \<Rightarrow> string" where
  "enc_tag t = concat (map (\<lambda>c. [CHR ''x'', c]) t) @ [CHR ''y'']"

fun dec_tags :: "string \<Rightarrow> string \<Rightarrow> string list" where
  "dec_tags cur (k # c # s) =
     (if k = CHR ''x'' then dec_tags (cur @ [c]) s else cur # dec_tags [] (c # s))"
| "dec_tags cur [k] = [cur]"
| "dec_tags cur [] = []"

definition demo_resp :: "int \<Rightarrow> string \<Rightarrow> string \<Rightarrow> wire_resp" where
  "demo_resp st digest body =
     \<lparr>ws_status = st, ws_header = (\<lambda>h. if h = ''Docker-Content-Digest'' then digest else []), ws_body = body\<rparr>"

definition demo_ref :: "string \<Rightarrow> string \<Rightarrow> string" where
  "demo_ref name url = PathUnescape (drop (length (''/v2/'' @ escapeRepo name @ ''/manifests/'') + 1) url)"

definition demo_get :: "string \<Rightarrow> wire_req \<Rightarrow> (string \<times> string) list \<Rightarrow> string + wire_resp" where
  "demo_get name q r =
     (let ref = demo_ref name (wq_url q) in
      if wq_method q = ''HEAD'' then
        (case demo_tags r ref of None \<Rightarrow> Inr (demo_resp 404 [] []) | Some d \<Rightarrow> Inr (demo_resp 200 d []))
      else if wq_url q = ''u'' @ tags_path name then
        Inr (demo_resp 200 [] (concat (map (\<lambda>e. enc_tag (fst e)) (demo_norm r))))
      else if ref \<in> snd ` set (demo_norm r) then Inr (demo_resp 200 ref ref)
      else Inr (demo_resp 404 [] []))"

definition demo_mut ::
    "string \<Rightarrow> wire_req \<Rightarrow> (string \<times> string) list \<Rightarrow> (string + wire_resp) \<times> (string \<times> string) list" where
  "demo_mut name q r =
     (let ref = demo_ref name (wq_url q) in
      if wq_method q = ''DELETE'' then
        (Inr (demo_resp 202 [] []), filter (\<lambda>(t, b). b \<noteq> ref) (demo_norm r))
      else let r1 = (ref, wq_body q) # filter (\<lambda>(t, b). t \<noteq> ref) (demo_norm r) in
        if demo_small r1 then (Inr (demo_resp 201 [] []), r1) else (Inr (demo_resp 400 [] []), r))"

definition demo_client :: "string \<Rightarrow> (string \<times> string) list client" where
  "demo_client name =
     \<lparr>cl_cfg = \<lparr>cc_url = ''u'', cc_user = [], cc_pass = [], cc_bearer = [], cc_delete = True\<rparr>,
      cl_up = \<lparr>up_get = demo_get name, up_mut = demo_mut name\<rparr>,
      cl_json = (\<lambda>t. Some (JObj [(''tags'', JArr (map JStr (dec_tags [] t)))])),
      cl_float = (\<lambda>_. None), cl_query = (\<lambda>_. None)\<rparr>"

lemmas demo_defs = demo_client_def demo_get_def demo_mut_def demo_resp_def Let_def

lemma dec_enc: "dec_tags cur (enc_tag t @ s) = (cur @ t) # dec_tags [] s"
proof (induction t arbitrary: cur)
  case Nil
  then show ?case by (cases s) (simp_all add: enc_tag_def)
next
  case (Cons c t)
  then show ?case by (simp add: enc_tag_def)
qed

lemma dec_enc_all: "dec_tags [] (concat (map (\<lambda>e. enc_tag (fst e)) es)) = map fst es"
  by (induction es) (simp_all add: dec_enc)

lemma strings_of_JStr: "strings_of (map JStr ts) = Some ts"
  by (induction ts) simp_all

lemma length_enc_tag: "length (enc_tag t) = 2 * length t + 1"
  by (induction t) (simp_all add: enc_tag_def)

lemma length_listing:
  "(\<And>e. e \<in> set es \<Longrightarrow> length (fst e) \<le> 100) \<Longrightarrow>
   length (concat (map (\<lambda>e. enc_tag (fst e)) es)) \<le> 201 * length es"
proof (induction es)
  case Nil
  then show ?case by simp
next
  case (Cons e es)
  have "length (fst e) \<le> 100" using Cons.prems by simp
  then have "length (enc_tag (fst e)) \<le> 201" by (simp add: length_enc_tag)
  moreover have "length (concat (map (\<lambda>e. enc_tag (fst e)) es)) \<le> 201 * length es"
    using Cons by simp
  ultimately show ?case by simp
qed

lemma demo_norm_small: "demo_small (demo_norm r)"
  by (simp add: demo_norm_def demo_small_def)

lemma demo_norm_bounds:
  "length (demo_norm r) \<le> 100" "distinct (map fst (demo_norm r))"
  "e \<in> set (demo_norm r) \<Longrightarrow> length (fst e) \<le> 100 \<and> snd e \<noteq> [] \<and> length (snd e) \<le> 100"
  using demo_norm_small[of r] by (cases e; auto simp: demo_small_def list_all_iff)+

lemma demo_ref_path [simp]: "demo_ref name (CHR ''u'' # manifest_path name t) = t"
  by (simp add: demo_ref_def manifest_path_def)

lemma demo_small_filter: "demo_small r \<Longrightarrow> demo_small (filter P r)"
  using order_trans[OF length_filter_le[of P r]]
  by (auto simp: demo_small_def list_all_iff distinct_map_filter)

lemma demo_norm_filter [simp]: "demo_norm (filter P (demo_norm r)) = filter P (demo_norm r)"
  using demo_small_filter[OF demo_norm_small] by (simp add: demo_norm_def)

lemma map_of_filter_value:
  "distinct (map fst xs) \<Longrightarrow>
   map_of (filter (\<lambda>(t, b). b \<noteq> d) xs) = (\<lambda>t. if map_of xs t = Some d then None else map_of xs t)"
  by (induction xs) (auto simp: fun_eq_iff map_of_eq_None_iff split: prod.splits)

lemma map_of_filter_key:
  "map_of ((k, v) # filter (\<lambda>(t, b). t \<noteq> k) xs) = (map_of xs)(k \<mapsto> v)"
proof -
  have "u \<noteq> k \<Longrightarrow> map_of (filter (\<lambda>(t, b). t \<noteq> k) xs) u = map_of xs u" for u
    by (induction xs) auto
  then show ?thesis by (simp add: fun_eq_iff)
qed

lemma demo_Tags: "Tags (demo_client name) name r = Inr (map fst (demo_norm r))"
proof -
  let ?body = "concat (map (\<lambda>e. enc_tag (fst e)) (demo_norm r))"
  have "length ?body \<le> 201 * length (demo_norm r)"
    using demo_norm_bounds(3) by (intro length_listing) blast
  also have "\<dots> \<le> 20100" using demo_norm_bounds(1)[of r] by simp
  finally have "\<not> length ?body > maxResponseBytes" by (simp add: maxResponseBytes_def)
  then show ?thesis
    by (simp add: Tags_def do_get_def demo_defs read_resp_def mk_req_def ok_status_def
        string_list_def jget_def strings_of_JStr dec_enc_all flip: map_map)
qed

lemma demo_Digest:
  "Digest (demo_client name) name t r =
   (case demo_tags r t of None \<Rightarrow> Inl (StatusError ''registry digest lookup failed'' 404 [])
    | Some d \<Rightarrow> Inr (d, []))"
  by (simp add: Digest_def do_get_def demo_defs read_resp_def mk_req_def ok_status_def
      maxResponseBytes_def split: option.splits)

lemma manifest_not_tags: "manifest_path name t \<noteq> tags_path name"
  by (simp add: manifest_path_def tags_path_def)

lemma demo_ManifestRaw:
  "d \<in> snd ` set (demo_norm r) \<Longrightarrow>
   ManifestRaw (demo_client name) name d r =
   Inr \<lparr>rm_digest = d, rm_ctype = [], rm_body = d, rm_payload = cl_json (demo_client name) d\<rparr>"
proof -
  assume d: "d \<in> snd ` set (demo_norm r)"
  then obtain e where "e \<in> set (demo_norm r)" "snd e = d" by auto
  with demo_norm_bounds(3)[of e r] have "\<not> length d > maxResponseBytes" by (simp add: maxResponseBytes_def)
  with d show ?thesis
    by (simp add: ManifestRaw_def do_get_def demo_defs read_resp_def mk_req_def ok_status_def manifest_not_tags)
qed

lemma demo_DeleteManifest:
  "DeleteManifest (demo_client name) name d r = (None, filter (\<lambda>(t, b). b \<noteq> d) (demo_norm r))"
  by (simp add: DeleteManifest_def do_mut_def demo_defs read_resp_def mk_req_def ok_status_def
      maxResponseBytes_def)

lemma demo_PutManifest:
  "PutManifest (demo_client name) name t ct body r =
   (let r1 = (t, body) # filter (\<lambda>(u, b). u \<noteq> t) (demo_norm r) in
    if demo_small r1 then (None, r1)
    else (Some (StatusError ''registry manifest restore failed'' 400 []), r))"
  by (simp add: PutManifest_def do_mut_def demo_defs read_resp_def mk_req_def ok_status_def
      maxResponseBytes_def)

lemma demo_laws: "registry_laws (demo_client name) name demo_tags (\<lambda>body. body)"
  unfolding registry_laws_def
proof (intro allI conjI impI)
  fix r
  show "\<exists>tags. Tags (demo_client name) name r = Inr tags \<and> set tags = dom (demo_tags r)"
    by (simp add: demo_Tags demo_tags_def dom_map_of_conv_image_fst)
  show "\<exists>ct. Digest (demo_client name) name t r = Inr (d, ct)" if "demo_tags r t = Some d" for t d
    using that by (simp add: demo_Digest)
  show "d \<noteq> []" if "demo_tags r t = Some d" for t d
    using that demo_norm_bounds(3)[of "(t, d)" r] by (auto simp: demo_tags_def dest: map_of_SomeD)
  show "\<exists>e. Digest (demo_client name) name t r = Inl e" if "demo_tags r t = None" for t
    using that by (simp add: demo_Digest)
  show "rm_body raw = d"
    if "d \<in> ran (demo_tags r)" "ManifestRaw (demo_client name) name d r = Inr raw" for d raw
  proof -
    from that(1) have "d \<in> snd ` set (demo_norm r)"
      by (force simp: demo_tags_def ran_def dest: map_of_SomeD)
    from demo_ManifestRaw[OF this, of name] that(2) show ?thesis by simp
  qed
  show "demo_tags (snd (DeleteManifest (demo_client name) name d r)) =
      (if fst (DeleteManifest (demo_client name) name d r) = None
       then (\<lambda>t. if demo_tags r t = Some d then None else demo_tags r t) else demo_tags r)" for d
    unfolding demo_tags_def by (simp add: demo_DeleteManifest map_of_filter_value[OF demo_norm_bounds(2)])
  show "demo_tags (snd (PutManifest (demo_client name) name t ct body r)) =
      (if fst (PutManifest (demo_client name) name t ct body r) = None
       then (demo_tags r)(t \<mapsto> body) else demo_tags r)" for t ct body
  proof (cases "demo_small ((t, body) # filter (\<lambda>(u, b). u \<noteq> t) (demo_norm r))")
    case True
    then have "demo_norm ((t, body) # filter (\<lambda>(u, b). u \<noteq> t) (demo_norm r)) =
        (t, body) # filter (\<lambda>(u, b). u \<noteq> t) (demo_norm r)" by (simp add: demo_norm_def)
    with True map_of_filter_key[of t body "demo_norm r"] show ?thesis
      by (simp add: demo_PutManifest demo_tags_def Let_def)
  qed (simp add: demo_PutManifest Let_def)
qed

end
