(* ===== verification/Delete_Tags.thy ===== *)
theory Delete_Tags
  imports Tag_Policy Image_Size Registry_Laws
begin

text \<open>
  Deleting tags without losing their siblings (\<^verbatim>\<open>delete_tags.go\<close>), the recycle-bin snapshots
  taken before a digest goes (\<^verbatim>\<open>recycle_snapshot.go\<close>) and the clean-up of a repository that
  has no tag left. The world of a handler is the store, the state of the upstream registry and
  the webhook events fired so far.
\<close>

record 'r world =
  w_store :: store
  w_reg :: 'r
  w_events :: "(string \<times> string \<times> string \<times> string) list"

definition on_store :: "(store \<Rightarrow> 'a \<times> store) \<Rightarrow> 'r world \<Rightarrow> 'r world" where
  "on_store f w = w\<lparr>w_store := snd (f (w_store w))\<rparr>"

definition fireWebhookEvent :: "string \<Rightarrow> string \<Rightarrow> string \<Rightarrow> string \<Rightarrow> 'r world \<Rightarrow> 'r world" where
  "fireWebhookEvent event repo ref digest w = w\<lparr>w_events := w_events w @ [(event, repo, ref, digest)]\<rparr>"

section \<open>Snapshots\<close>

text \<open>
  \<^verbatim>\<open>json.Unmarshal\<close> into \<^verbatim>\<open>map[string]any\<close>: numbers become float64, a literal outside its range is
  an error; only objects and null fit the map.
\<close>

fun floatify :: "(string \<Rightarrow> rat option) \<Rightarrow> json \<Rightarrow> json option"
  and floatify_list :: "(string \<Rightarrow> rat option) \<Rightarrow> json list \<Rightarrow> json list option"
  and floatify_fields :: "(string \<Rightarrow> rat option) \<Rightarrow> (string \<times> json) list \<Rightarrow> (string \<times> json) list option" where
  "floatify fl (JNum t) = (case fl t of None \<Rightarrow> None | Some q \<Rightarrow> Some (JFloat (FNum q)))"
| "floatify fl (JArr xs) = map_option JArr (floatify_list fl xs)"
| "floatify fl (JObj kvs) = map_option JObj (floatify_fields fl kvs)"
| "floatify fl JNull = Some JNull"
| "floatify fl (JBool b) = Some (JBool b)"
| "floatify fl (JStr t) = Some (JStr t)"
| "floatify fl (JFloat f) = Some (JFloat f)"
| "floatify_list fl [] = Some []"
| "floatify_list fl (x # xs) =
     (case (floatify fl x, floatify_list fl xs) of (Some y, Some ys) \<Rightarrow> Some (y # ys) | _ \<Rightarrow> None)"
| "floatify_fields fl [] = Some []"
| "floatify_fields fl ((k, x) # xs) =
     (case (floatify fl x, floatify_fields fl xs) of (Some y, Some ys) \<Rightarrow> Some ((k, y) # ys) | _ \<Rightarrow> None)"

definition snapshot_size :: "'r client \<Rightarrow> string \<Rightarrow> string \<Rightarrow> 'r \<Rightarrow> int" where
  "snapshot_size c repo body r =
     (case Option.bind (cl_json c body) (floatify (cl_float c)) of
        Some (JObj kvs) \<Rightarrow> imageSize c repo (Some (JObj kvs)) r
      | _ \<Rightarrow> 0)"

definition new_recycle :: "string \<Rightarrow> string \<Rightarrow> string \<Rightarrow> string \<Rightarrow> string \<Rightarrow> int \<Rightarrow> int option \<Rightarrow> recycle_row" where
  "new_recycle repo ref digest ctype body sz img =
     \<lparr>rb_id = 0, rb_repo = repo, rb_ref = ref, rb_digest = digest, rb_ctype = ctype, rb_body = body,
      rb_status = PendingGC, rb_image = img, rb_size = sz, rb_attempts = 0, rb_error = [],
      rb_deleted = 0, rb_restored = None\<rparr>"

text \<open>The image row of a tag; resolving the repository creates its row when it is missing.\<close>

definition snapshot_image :: "int \<Rightarrow> string \<Rightarrow> string \<Rightarrow> store \<Rightarrow> int option \<times> store" where
  "snapshot_image now repo tag s =
     (case resolveRepo now repo s of
        (Inl _, s1) \<Rightarrow> (None, s1)
      | (Inr rid, s1) \<Rightarrow> (case GetImageByRepoTag rid tag s1 of
           Inl _ \<Rightarrow> (None, s1) | Inr img \<Rightarrow> (Some (im_id img), s1)))"

fun snapshot_loop ::
    "int \<Rightarrow> 'r client \<Rightarrow> string \<Rightarrow> string \<Rightarrow> 'r \<Rightarrow> string list \<Rightarrow> string set \<Rightarrow> int \<Rightarrow> store \<Rightarrow> int \<times> store" where
  "snapshot_loop now c repo digest r [] seen count s = (count, s)"
| "snapshot_loop now c repo digest r (tag # tags) seen count s =
     (case Digest c repo tag r of
        Inl _ \<Rightarrow> snapshot_loop now c repo digest r tags seen count s
      | Inr (d, _) \<Rightarrow>
          if d \<noteq> digest \<or> tag \<in> seen then snapshot_loop now c repo digest r tags seen count s
          else let seen1 = insert tag seen in
            (case ManifestRaw c repo tag r of
               Inl e \<Rightarrow> snapshot_loop now c repo digest r tags seen1 count
                 (snd (AddAudit now 0 ''recycle.snapshot'' repo tag digest ''error'' (error_text e) s))
             | Inr raw \<Rightarrow>
                 if rm_digest raw \<noteq> [] \<and> rm_digest raw \<noteq> digest \<and> TrimSpace (rm_digest raw) \<noteq> []
                 then snapshot_loop now c repo digest r tags seen1 count s
                 else (case snapshot_image now repo tag s of (img, s1) \<Rightarrow>
                   (case AddRecycleItem now (new_recycle repo tag digest (rm_ctype raw) (rm_body raw)
                            (snapshot_size c repo (rm_body raw) r) img) s1 of
                      (Inl e, s2) \<Rightarrow> snapshot_loop now c repo digest r tags seen1 count
                        (snd (AddAudit now 0 ''recycle.snapshot'' repo tag digest ''error'' [] s2))
                    | (Inr _, s2) \<Rightarrow> snapshot_loop now c repo digest r tags seen1 (count + 1) s2))))"

definition snapshotRecycleItems ::
    "int \<Rightarrow> 'r client \<Rightarrow> string \<Rightarrow> string \<Rightarrow> 'r \<Rightarrow> store \<Rightarrow> int \<times> store" where
  "snapshotRecycleItems now c repo digest r s =
     (case Tags c repo r of
        Inl e \<Rightarrow> (0, snd (AddAudit now 0 ''recycle.snapshot'' repo [] digest ''error'' (error_text e) s))
      | Inr tags \<Rightarrow> snapshot_loop now c repo digest r tags {} 0 s)"

section \<open>Cleaning up an empty repository\<close>

definition cleanupRepoDB :: "string \<Rightarrow> store \<Rightarrow> store" where
  "cleanupRepoDB repo s =
     (if repo = [] \<or> Contains repo ''..'' then s
      else let found = (case ns_parts repo of
                 Some (a, b) \<Rightarrow> GetRepositoryByNamespacedName a b s
               | None \<Rightarrow> GetRepositoryByNamespacedName [] repo s);
               rid = (case found of Inl _ \<Rightarrow> 0 | Inr r \<Rightarrow> rp_id r)
           in if rid > 0 then snd (DeleteRepository rid s) else s)"

text \<open>Done when the tag list is empty or the registry no longer knows the repository.\<close>

definition cleanup_if_empty :: "'r client \<Rightarrow> string \<Rightarrow> 'r world \<Rightarrow> 'r world" where
  "cleanup_if_empty c name w =
     (case Tags c name (w_reg w) of
        Inr [] \<Rightarrow> w\<lparr>w_store := cleanupRepoDB name (w_store w)\<rparr>
      | Inr (_ # _) \<Rightarrow> w
      | Inl e \<Rightarrow> if IsStatus e 404 then w\<lparr>w_store := cleanupRepoDB name (w_store w)\<rparr> else w)"

section \<open>Tag-aware deletion\<close>

record tag_result =
  tr_tag :: string
  tr_action :: string
  tr_ok :: bool
  tr_error :: string
  tr_warning :: string

definition tagged :: "string \<Rightarrow> bool \<Rightarrow> string \<Rightarrow> string \<Rightarrow> string \<Rightarrow> tag_result" where
  "tagged action ok err warning tag =
     \<lparr>tr_tag = tag, tr_action = action, tr_ok = ok, tr_error = err, tr_warning = warning\<rparr>"

fun dedupe :: "string list \<Rightarrow> string set \<Rightarrow> string list" where
  "dedupe [] seen = []"
| "dedupe (t # ts) seen =
     (if t \<noteq> [] \<and> t \<notin> seen then t # dedupe ts (insert t seen) else dedupe ts seen)"

text \<open>\<^verbatim>\<open>digestOf\<close> with its cache; a failed lookup is remembered as the empty digest.\<close>

definition digestOf ::
    "'r client \<Rightarrow> string \<Rightarrow> 'r \<Rightarrow> string \<Rightarrow> (string \<rightharpoonup> string) \<Rightarrow> string \<times> (string \<rightharpoonup> string)" where
  "digestOf c name r tag cache =
     (case cache tag of
        Some d \<Rightarrow> (d, cache)
      | None \<Rightarrow> let d = (case Digest c name tag r of Inl _ \<Rightarrow> [] | Inr (d, _) \<Rightarrow> d)
                in (d, cache(tag \<mapsto> d)))"

fun survivingTags ::
    "'r client \<Rightarrow> string \<Rightarrow> 'r \<Rightarrow> string set \<Rightarrow> string \<Rightarrow> string list \<Rightarrow> (string \<rightharpoonup> string)
     \<Rightarrow> string list \<times> (string \<rightharpoonup> string)" where
  "survivingTags c name r removeSet digest [] cache = ([], cache)"
| "survivingTags c name r removeSet digest (tg # tgs) cache =
     (if tg \<in> removeSet then survivingTags c name r removeSet digest tgs cache
      else case digestOf c name r tg cache of (d, cache1) \<Rightarrow>
        (case survivingTags c name r removeSet digest tgs cache1 of (rest, cache2) \<Rightarrow>
           (if d = digest then tg # rest else rest, cache2)))"

text \<open>Group the selected tags by digest, both in first-seen order.\<close>

definition add_group :: "string \<Rightarrow> string \<Rightarrow> (string \<times> string list) list \<Rightarrow> (string \<times> string list) list" where
  "add_group d tag groups =
     (if d \<in> fst ` set groups
      then map (\<lambda>(d', tags). if d' = d then (d', tags @ [tag]) else (d', tags)) groups
      else groups @ [(d, [tag])])"

fun group_selected ::
    "'r client \<Rightarrow> string \<Rightarrow> 'r \<Rightarrow> string list \<Rightarrow> (string \<rightharpoonup> string) \<Rightarrow> (string \<times> string list) list
     \<Rightarrow> tag_result list \<Rightarrow> (string \<times> string list) list \<times> tag_result list \<times> (string \<rightharpoonup> string)" where
  "group_selected c name r [] cache groups results = (groups, results, cache)"
| "group_selected c name r (tag # tags) cache groups results =
     (case digestOf c name r tag cache of (d, cache1) \<Rightarrow>
        if d = [] then group_selected c name r tags cache1 groups
             (results @ [tagged [] False ''cannot resolve digest for tag'' [] tag])
        else group_selected c name r tags cache1 (add_group d tag groups) results)"

fun repush ::
    "int \<Rightarrow> 'r client \<Rightarrow> request \<Rightarrow> string \<Rightarrow> string \<Rightarrow> raw_manifest \<Rightarrow> string list \<Rightarrow> 'r world
     \<Rightarrow> string list \<times> 'r world" where
  "repush now c rq name digest raw [] w = ([], w)"
| "repush now c rq name digest raw (tg # tgs) w =
     (case PutManifest c name tg (rm_ctype raw) (rm_body raw) (w_reg w) of
        (None, r') \<Rightarrow> repush now c rq name digest raw tgs (w\<lparr>w_reg := r'\<rparr>)
      | (Some e, r') \<Rightarrow>
          (case repush now c rq name digest raw tgs
              (on_store (AddAudit now (currentUserID rq) ''untag'' name tg digest ''error''
                 (''re-push of surviving tag failed: '' @ error_text e)) (w\<lparr>w_reg := r'\<rparr>)) of
             (failed, w') \<Rightarrow> (tg # failed, w')))"

definition image_of_digest :: "string \<Rightarrow> store \<Rightarrow> int option" where
  "image_of_digest digest s =
     (case GetImageByDigest digest s of Inl _ \<Rightarrow> None | Inr img \<Rightarrow> Some (im_id img))"

text \<open>The last tags of a digest: snapshot, delete, record.\<close>

definition delete_last ::
    "int \<Rightarrow> 'r client \<Rightarrow> request \<Rightarrow> string \<Rightarrow> int \<Rightarrow> string \<Rightarrow> string list \<Rightarrow> 'r world
     \<Rightarrow> tag_result list \<times> int \<times> 'r world" where
  "delete_last now c rq name rid digest removeTags w =
     (case snapshotRecycleItems now c name digest (w_reg w) (w_store w) of (n, s1) \<Rightarrow>
        (case DeleteManifest c name digest (w_reg w) of
           (Some e, r1) \<Rightarrow>
             (map (tagged ''delete'' False (error_text e) []) removeTags, n,
              w\<lparr>w_reg := r1, w_store := snd (AddAudit now (currentUserID rq) ''delete'' name [] digest
                   ''error'' (error_text e) s1)\<rparr>)
         | (None, r1) \<Rightarrow>
             (let w1 = fireWebhookEvent ''delete'' name [] digest (w\<lparr>w_reg := r1, w_store := s1\<rparr>);
                  w2 = (if rid > 0 then on_store (SoftDeleteImageByDigest now rid digest) w1 else w1);
                  imageID = image_of_digest digest (w_store w2);
                  w3 = foldl (\<lambda>w tg. on_store (AddAuditWithImage now (currentUserID rq) ''delete'' name tg
                         digest ''ok'' ''last tag removed; digest deleted (restore from recycle bin before GC)''
                         imageID (name @ '':'' @ tg)) w) w2 removeTags
              in (map (tagged ''delete'' True [] []) removeTags, n, cleanup_if_empty c name w3))))"

text \<open>Other tags survive: delete the digest, then push it back under each of them.\<close>

definition untag ::
    "int \<Rightarrow> 'r client \<Rightarrow> request \<Rightarrow> string \<Rightarrow> int \<Rightarrow> string \<Rightarrow> raw_manifest rres \<Rightarrow> string list
     \<Rightarrow> string list \<Rightarrow> 'r world \<Rightarrow> tag_result list \<times> int \<times> 'r world" where
  "untag now c rq name rid digest fetched remaining removeTags w =
     (let audit_error = (\<lambda>msg. on_store (AddAudit now (currentUserID rq) ''untag'' name [] digest ''error'' msg))
      in case fetched of
        Inl e \<Rightarrow> (map (tagged ''untag'' False (error_text e) []) removeTags, 0, audit_error (error_text e) w)
      | Inr raw \<Rightarrow>
          if rm_body raw = [] then
            (map (tagged ''untag'' False ''cannot read manifest body for untag'' []) removeTags, 0,
             audit_error ''cannot read manifest body for untag'' w)
          else case DeleteManifest c name digest (w_reg w) of
            (Some e, r1) \<Rightarrow>
              (map (tagged ''untag'' False (error_text e) []) removeTags, 0,
               audit_error (error_text e) (w\<lparr>w_reg := r1\<rparr>))
          | (None, r1) \<Rightarrow>
              (case repush now c rq name digest raw remaining (w\<lparr>w_reg := r1\<rparr>) of (failed, w1) \<Rightarrow>
                 let warning = (if failed = [] then []
                       else ''surviving tags could not be re-pushed and may be lost: '' @ Join failed '', '');
                     w2 = foldl (\<lambda>w tg.
                        let w' = (if rid > 0 then on_store (SoftDeleteImage now rid tg) w else w)
                        in if warning = [] then on_store (AddAudit now (currentUserID rq) ''untag'' name tg digest
                               ''ok'' ''tag removed; digest retained for remaining tags'') w' else w') w1 removeTags
                 in (map (tagged ''untag'' True [] warning) removeTags, 0,
                     fireWebhookEvent ''untag'' name (hd removeTags) digest w2)))"

fun delete_groups ::
    "int \<Rightarrow> 'r client \<Rightarrow> request \<Rightarrow> string \<Rightarrow> int \<Rightarrow> string list \<Rightarrow> (string \<times> string list) list
     \<Rightarrow> (string \<rightharpoonup> string) \<Rightarrow> tag_result list \<Rightarrow> int \<Rightarrow> 'r world \<Rightarrow> tag_result list \<times> int \<times> 'r world" where
  "delete_groups now c rq name rid allTags [] cache results count w = (results, count, w)"
| "delete_groups now c rq name rid allTags ((digest, removeTags) # groups) cache results count w =
     (case survivingTags c name (w_reg w) (set removeTags) digest allTags cache of (remaining, cache1) \<Rightarrow>
        (let raw = ManifestRaw c name digest (w_reg w) in
         case (if remaining = [] then delete_last now c rq name rid digest removeTags w
               else untag now c rq name rid digest raw remaining removeTags w) of
           (res, n, w1) \<Rightarrow> delete_groups now c rq name rid allTags groups cache1 (results @ res) (count + n) w1))"

definition deleteTagsAware ::
    "int \<Rightarrow> 'r client \<Rightarrow> request \<Rightarrow> string \<Rightarrow> string list \<Rightarrow> 'r world \<Rightarrow> tag_result list \<times> int \<times> 'r world" where
  "deleteTagsAware now c rq name selected w =
     (let sel = dedupe selected {};
          allTags = (case Tags c name (w_reg w) of Inl _ \<Rightarrow> [] | Inr tags \<Rightarrow> tags)
      in case group_selected c name (w_reg w) sel Map.empty [] [] of (groups, results, cache) \<Rightarrow>
        (case resolveRepo now name (w_store w) of (found, s1) \<Rightarrow>
           (let rid = (case found of Inl _ \<Rightarrow> 0 | Inr i \<Rightarrow> i)
            in delete_groups now c rq name rid allTags groups cache results 0 (w\<lparr>w_store := s1\<rparr>))))"

section \<open>The digest cache and the groups\<close>

text \<open>The cache holds answers of the map \<open>m\<close>.\<close>

definition cache_of :: "(string \<rightharpoonup> string) \<Rightarrow> (string \<rightharpoonup> string) \<Rightarrow> bool" where
  "cache_of m cache \<longleftrightarrow> (\<forall>t d. cache t = Some d \<longrightarrow> d = digest_in m t)"

lemma cache_of_upd: "cache_of m cache \<Longrightarrow> cache_of m (cache(t \<mapsto> digest_in m t))"
  by (simp add: cache_of_def)

lemma digestOf_spec:
  assumes "registry_laws c name T hash" "cache_of m cache" "t \<in> dom cache \<or> T r t = m t"
    and "digestOf c name r t cache = (d, cache1)"
  shows "d = digest_in m t" "cache_of m cache1" "dom cache1 = insert t (dom cache)"
proof -
  have d: "(case Digest c name t r of Inl _ \<Rightarrow> [] | Inr (d, _) \<Rightarrow> d) = digest_in (T r) t"
    by (rule registry_lawsD(3)[OF assms(1)])
  have "d = digest_in m t \<and> cache_of m cache1 \<and> dom cache1 = insert t (dom cache)"
  proof (cases "cache t")
    case (Some x)
    with assms show ?thesis by (auto simp: digestOf_def cache_of_def)
  next
    case None
    then have "digest_in (T r) t = digest_in m t" using assms(3) by (auto simp: digest_in_def)
    then have "digestOf c name r t cache = (digest_in m t, cache(t \<mapsto> digest_in m t))"
      using None d by (simp add: digestOf_def Let_def)
    with assms(4) cache_of_upd[OF assms(2), of t] show ?thesis by auto
  qed
  then show "d = digest_in m t" "cache_of m cache1" "dom cache1 = insert t (dom cache)" by simp_all
qed

lemma survivingTags_spec:
  assumes "registry_laws c name T hash"
  shows "cache_of m cache \<Longrightarrow> (\<And>t. t \<in> set ts \<Longrightarrow> t \<notin> R \<Longrightarrow> t \<in> dom cache \<or> T r t = m t) \<Longrightarrow>
    survivingTags c name r R d ts cache = (rest, cache') \<Longrightarrow>
    set rest = {t \<in> set ts. t \<notin> R \<and> digest_in m t = d} \<and> cache_of m cache' \<and> dom cache \<subseteq> dom cache'"
proof (induction ts arbitrary: cache rest cache')
  case Nil
  then show ?case by simp
next
  case (Cons tg tgs)
  show ?case
  proof (cases "tg \<in> R")
    case True
    with Cons.prems Cons.IH[OF Cons.prems(1)] show ?thesis by auto
  next
    case False
    obtain d1 c1 where d1: "digestOf c name r tg cache = (d1, c1)" by (cases "digestOf c name r tg cache")
    have "tg \<in> dom cache \<or> T r tg = m tg" using Cons.prems(2)[of tg] False by simp
    note spec = digestOf_spec[OF assms Cons.prems(1) this d1]
    obtain rest2 c2 where s2: "survivingTags c name r R d tgs c1 = (rest2, c2)"
      by (cases "survivingTags c name r R d tgs c1")
    have "set rest2 = {t \<in> set tgs. t \<notin> R \<and> digest_in m t = d} \<and> cache_of m c2 \<and> dom c1 \<subseteq> dom c2"
    proof (rule Cons.IH[OF spec(2) _ s2])
      fix t assume "t \<in> set tgs" "t \<notin> R"
      then have "t \<in> dom cache \<or> T r t = m t" by (intro Cons.prems(2)) simp_all
      with spec(3) show "t \<in> dom c1 \<or> T r t = m t" by blast
    qed
    then have s2': "set rest2 = {t \<in> set tgs. t \<notin> R \<and> digest_in m t = d}" "cache_of m c2"
      "dom cache \<subseteq> dom c2" using spec(3) by blast+
    have "rest = (if d1 = d then tg # rest2 else rest2)" "cache' = c2"
      using Cons.prems(3) False d1 s2 by simp_all
    with s2' spec(1) False show ?thesis by (cases "d1 = d") (simp_all, blast+)
  qed
qed

text \<open>Groups of the tags \<open>S\<close>: one per digest, holding exactly the tags of that digest.\<close>

definition groups_ok :: "(string \<rightharpoonup> string) \<Rightarrow> string set \<Rightarrow> (string \<times> string list) list \<Rightarrow> bool" where
  "groups_ok m S groups \<longleftrightarrow> distinct (map fst groups) \<and>
     (\<forall>d tags. (d, tags) \<in> set groups \<longrightarrow> tags \<noteq> [] \<and> set tags = {t \<in> S. m t = Some d}) \<and>
     (\<forall>t d. t \<in> S \<longrightarrow> m t = Some d \<longrightarrow> d \<in> fst ` set groups)"

lemma groups_okD:
  assumes "groups_ok m S groups"
  shows "distinct (map fst groups)"
    "(d, tags) \<in> set groups \<Longrightarrow> tags \<noteq> [] \<and> set tags = {t \<in> S. m t = Some d}"
    "t \<in> S \<Longrightarrow> m t = Some d \<Longrightarrow> d \<in> fst ` set groups"
  using assms unfolding groups_ok_def by blast+

lemma groups_ok_members:
  assumes "groups_ok m S groups"
  shows "(\<Union>(d, tags) \<in> set groups. set tags) = {t \<in> S. m t \<noteq> None}"
proof (intro equalityI subsetI)
  fix t assume "t \<in> (\<Union>(d, tags) \<in> set groups. set tags)"
  then obtain d tags where "(d, tags) \<in> set groups" "t \<in> set tags" by auto
  with groups_okD(2)[OF assms, of d tags] show "t \<in> {t \<in> S. m t \<noteq> None}" by auto
next
  fix t assume "t \<in> {t \<in> S. m t \<noteq> None}"
  then obtain d where t: "t \<in> S" "m t = Some d" by auto
  with groups_okD(3)[OF assms] obtain tags where g: "(d, tags) \<in> set groups" by force
  from groups_okD(2)[OF assms g] t have "t \<in> set tags" by simp
  with g show "t \<in> (\<Union>(d, tags) \<in> set groups. set tags)" by auto
qed

lemma add_group_ok:
  assumes ok: "groups_ok m S groups" and t: "m t = Some d"
  shows "groups_ok m (insert t S) (add_group d t groups)"
proof (cases "d \<in> fst ` set groups")
  case True
  let ?f = "\<lambda>(d', tags). if d' = d then (d', tags @ [t]) else (d', tags)"
  have keys: "map fst (map ?f groups) = map fst groups" by (induction groups) auto
  have eq: "add_group d t groups = map ?f groups" using True by (simp only: add_group_def if_True)
  show ?thesis unfolding groups_ok_def eq
  proof (intro conjI allI impI)
    show "distinct (map fst (map ?f groups))" using groups_okD(1)[OF ok] unfolding keys .
  next
    fix d1 tags1 assume in1: "(d1, tags1) \<in> set (map ?f groups)"
    then obtain tags0 where t0: "(d1, tags0) \<in> set groups"
      and eq: "tags1 = (if d1 = d then tags0 @ [t] else tags0)" by (auto split: if_splits)
    note m0 = groups_okD(2)[OF ok t0]
    from m0 eq show "tags1 \<noteq> []" by (simp split: if_splits)
    from m0 eq t show "set tags1 = {u \<in> insert t S. m u = Some d1}" by (cases "d1 = d") auto
  next
    fix u d1 assume "u \<in> insert t S" "m u = Some d1"
    with groups_okD(3)[OF ok] t True have "d1 \<in> fst ` set groups" by (cases "u = t") auto
    then show "d1 \<in> fst ` set (map ?f groups)" by (metis keys set_map)
  qed
next
  case False
  have none: "m u \<noteq> Some d" if "u \<in> S" for u using groups_okD(3)[OF ok that] False by blast
  have eq: "add_group d t groups = groups @ [(d, [t])]" using False by (simp only: add_group_def if_False)
  show ?thesis unfolding groups_ok_def eq
  proof (intro conjI allI impI)
    show "distinct (map fst (groups @ [(d, [t])]))" using groups_okD(1)[OF ok] False by simp
  next
    fix d1 tags1 assume "(d1, tags1) \<in> set (groups @ [(d, [t])])"
    then consider "(d1, tags1) \<in> set groups" | "d1 = d" "tags1 = [t]" by auto
    then have "tags1 \<noteq> [] \<and> set tags1 = {u \<in> insert t S. m u = Some d1}"
    proof cases
      case 1
      with False have "d1 \<noteq> d" by force
      with groups_okD(2)[OF ok 1] t show ?thesis by auto
    next
      case 2
      with none t show ?thesis by auto
    qed
    then show "tags1 \<noteq> []" "set tags1 = {u \<in> insert t S. m u = Some d1}" by simp_all
  next
    fix u d1 assume "u \<in> insert t S" "m u = Some d1"
    with groups_okD(3)[OF ok, of u d1] t show "d1 \<in> fst ` set (groups @ [(d, [t])])"
      by (cases "u = t") auto
  qed
qed

lemma group_selected_spec:
  assumes laws: "registry_laws c name T hash"
  shows "cache_of (T r) cache \<Longrightarrow> groups_ok (T r) S groups \<Longrightarrow>
    group_selected c name r tags cache groups results = (groups', results', cache') \<Longrightarrow>
    cache_of (T r) cache' \<and> groups_ok (T r) (S \<union> set tags) groups' \<and> dom cache \<union> set tags \<subseteq> dom cache' \<and>
    (\<exists>new. results' = results @ new \<and> tr_tag ` set new = {t \<in> set tags. T r t = None} \<and>
      (\<forall>x \<in> set new. \<not> tr_ok x \<and> tr_warning x = []))"
proof (induction tags arbitrary: cache groups results S)
  case Nil
  then show ?case by simp
next
  case (Cons t ts)
  obtain d c1 where d: "digestOf c name r t cache = (d, c1)" by (cases "digestOf c name r t cache")
  note spec = digestOf_spec[OF laws Cons.prems(1) disjI2[OF refl] d]
  show ?case
  proof (cases "d = []")
    case True
    then have none: "T r t = None"
      using spec(1) registry_lawsD(2)[OF laws, of r t] by (cases "T r t") (auto simp: digest_in_def)
    then have ok: "groups_ok (T r) (insert t S) groups"
      using Cons.prems(2) by (auto simp: groups_ok_def)
    let ?x = "tagged [] False ''cannot resolve digest for tag'' [] t"
    have g: "group_selected c name r ts c1 groups (results @ [?x]) = (groups', results', cache')"
      using Cons.prems(3) d True by simp
    from Cons.IH[OF spec(2) ok g] obtain new where new: "cache_of (T r) cache'"
      "groups_ok (T r) (insert t S \<union> set ts) groups'" "dom c1 \<union> set ts \<subseteq> dom cache'"
      "results' = results @ ?x # new" "tr_tag ` set new = {t \<in> set ts. T r t = None}"
      "\<forall>x \<in> set new. \<not> tr_ok x \<and> tr_warning x = []" by auto
    then have "tr_tag ` set (?x # new) = {u \<in> set (t # ts). T r u = None}"
      using none by (auto simp: tagged_def)
    moreover have "\<forall>x \<in> set (?x # new). \<not> tr_ok x \<and> tr_warning x = []"
      using new(6) by (simp add: tagged_def)
    moreover have "insert t S \<union> set ts = S \<union> set (t # ts)" by simp
    with new(2) have "groups_ok (T r) (S \<union> set (t # ts)) groups'" by (simp only:)
    moreover have "dom cache \<union> set (t # ts) \<subseteq> dom cache'" using new(3) spec(3) by simp
    ultimately show ?thesis using new(1,4) by (intro conjI exI[of _ "?x # new"])
  next
    case False
    then have t: "T r t = Some d" using spec(1) by (auto simp: digest_in_def split: option.splits)
    note ok = add_group_ok[OF Cons.prems(2) t]
    have g: "group_selected c name r ts c1 (add_group d t groups) results = (groups', results', cache')"
      using Cons.prems(3) d False by simp
    have none: "{u \<in> set (t # ts). T r u = None} = {u \<in> set ts. T r u = None}" using t by auto
    have un: "insert t S \<union> set ts = S \<union> set (t # ts)" by simp
    from Cons.IH[OF spec(2) ok g, unfolded un] obtain new where new: "cache_of (T r) cache'"
      "groups_ok (T r) (S \<union> set (t # ts)) groups'" "dom c1 \<union> set ts \<subseteq> dom cache'"
      "results' = results @ new" "tr_tag ` set new = {u \<in> set ts. T r u = None}"
      "\<forall>x \<in> set new. \<not> tr_ok x \<and> tr_warning x = []" by blast
    from new(3) spec(3) have "dom cache \<union> set (t # ts) \<subseteq> dom cache'" by simp
    with new none show ?thesis by (intro conjI exI[of _ new]) simp_all
  qed
qed

section \<open>One group\<close>

lemma w_reg_simps [simp]:
  "w_reg (on_store f w) = w_reg w"
  "w_reg (fireWebhookEvent ev repo ref d w) = w_reg w"
  "w_reg (cleanup_if_empty c name w) = w_reg w"
  by (auto simp: on_store_def fireWebhookEvent_def cleanup_if_empty_def split: sum.splits list.splits)

lemma w_reg_foldl: "(\<And>w t. w_reg (f w t) = w_reg w) \<Longrightarrow> w_reg (foldl f w ts) = w_reg w"
  by (induction ts arbitrary: w) simp_all

lemma delete_last_cases:
  assumes "delete_last now c rq name rid digest ts w = (res, n, w1)"
    and D: "DeleteManifest c name digest (w_reg w) = (e, r1)"
  shows "w_reg w1 = r1 \<and> map tr_tag res = ts \<and>
    (\<forall>x \<in> set res. tr_warning x = [] \<and> (tr_ok x \<longleftrightarrow> e = None))"
proof (cases e)
  case (Some err)
  with assms show ?thesis by (auto simp: delete_last_def tagged_def o_def split: prod.splits)
next
  case None
  with assms show ?thesis
    by (auto simp: delete_last_def tagged_def o_def Let_def w_reg_foldl split: prod.splits)
qed

lemma repush_spec:
  assumes "registry_laws c name T hash"
  shows "repush now c rq name digest raw ts w = (failed, w1) \<Longrightarrow> failed = [] \<Longrightarrow>
    T (w_reg w1) = (\<lambda>t. if t \<in> set ts then Some (hash (rm_body raw)) else T (w_reg w) t)"
proof (induction ts arbitrary: w failed)
  case Nil
  then show ?case by simp
next
  case (Cons t ts)
  obtain e r1 where P: "PutManifest c name t (rm_ctype raw) (rm_body raw) (w_reg w) = (e, r1)"
    by (cases "PutManifest c name t (rm_ctype raw) (rm_body raw) (w_reg w)")
  show ?case
  proof (cases e)
    case (Some err)
    with Cons.prems P have False by (auto split: prod.splits)
    then show ?thesis ..
  next
    case None
    with Cons.prems P
    have rec: "repush now c rq name digest raw ts (w\<lparr>w_reg := r1\<rparr>) = (failed, w1)" by simp
    from None P have "PutManifest c name t (rm_ctype raw) (rm_body raw) (w_reg w) = (None, r1)" by simp
    from registry_lawsD(7)[OF assms this] Cons.IH[OF rec Cons.prems(2)] show ?thesis by auto
  qed
qed

text \<open>An untag group: nothing happened, or every result has the same warning.\<close>

lemma untag_cases:
  assumes laws: "registry_laws c name T hash"
    and u: "untag now c rq name rid digest fetched remaining ts w = (res, n, w1)"
    and body: "\<And>raw. fetched = Inr raw \<Longrightarrow> hash (rm_body raw) = digest"
  shows "map tr_tag res = ts"
    and "(T (w_reg w1) = T (w_reg w) \<and> (\<forall>x \<in> set res. \<not> tr_ok x)) \<or>
     (\<exists>x \<in> set res. tr_warning x \<noteq> []) \<or> ts = [] \<or>
     (T (w_reg w1) = (\<lambda>t. if t \<in> set remaining then Some digest
          else if T (w_reg w) t = Some digest then None else T (w_reg w) t) \<and> (\<forall>x \<in> set res. tr_ok x))"
proof -
  have "map tr_tag res = ts \<and> ((T (w_reg w1) = T (w_reg w) \<and> (\<forall>x \<in> set res. \<not> tr_ok x)) \<or>
     (\<exists>x \<in> set res. tr_warning x \<noteq> []) \<or> ts = [] \<or>
     (T (w_reg w1) = (\<lambda>t. if t \<in> set remaining then Some digest
          else if T (w_reg w) t = Some digest then None else T (w_reg w) t) \<and> (\<forall>x \<in> set res. tr_ok x)))"
  proof (cases fetched)
    case (Inl e)
    with u show ?thesis by (auto simp: untag_def tagged_def o_def Let_def)
  next
    case (Inr raw)
    obtain e r1 where D: "DeleteManifest c name digest (w_reg w) = (e, r1)"
      by (cases "DeleteManifest c name digest (w_reg w)")
    show ?thesis
    proof (cases "rm_body raw = [] \<or> e \<noteq> None")
      case True
      then show ?thesis
      proof (cases "rm_body raw = []")
        case True
        with u Inr show ?thesis by (auto simp: untag_def tagged_def o_def Let_def)
      next
        case False
        with True obtain err where e: "e = Some err" by auto
        have "T r1 = T (w_reg w)" using registry_lawsD(6)[OF laws] D e by blast
        with u Inr False D e show ?thesis by (auto simp: untag_def tagged_def o_def Let_def)
      qed
    next
      case False
      then have "e = None" by simp
      with D have D': "DeleteManifest c name digest (w_reg w) = (None, r1)" by simp
      note del = registry_lawsD(5)[OF laws D']
      obtain failed w2 where R: "repush now c rq name digest raw remaining (w\<lparr>w_reg := r1\<rparr>) = (failed, w2)"
        by (cases "repush now c rq name digest raw remaining (w\<lparr>w_reg := r1\<rparr>)")
      let ?warning = "if failed = [] then []
        else ''surviving tags could not be re-pushed and may be lost: '' @ Join failed '', ''"
      have res: "res = map (tagged ''untag'' True [] ?warning) ts" and reg: "w_reg w1 = w_reg w2"
        using u Inr False D R by (auto simp: untag_def Let_def w_reg_foldl)
      show ?thesis
      proof (cases "failed = []")
        case True
        with repush_spec[OF laws R] del body[OF Inr] reg res show ?thesis
          by (auto simp: tagged_def o_def)
      next
        case False
        with res show ?thesis by (cases ts) (auto simp: tagged_def o_def)
      qed
    qed
  qed
  then show "map tr_tag res = ts"
    and "(T (w_reg w1) = T (w_reg w) \<and> (\<forall>x \<in> set res. \<not> tr_ok x)) \<or>
     (\<exists>x \<in> set res. tr_warning x \<noteq> []) \<or> ts = [] \<or>
     (T (w_reg w1) = (\<lambda>t. if t \<in> set remaining then Some digest
          else if T (w_reg w) t = Some digest then None else T (w_reg w) t) \<and> (\<forall>x \<in> set res. tr_ok x))" by simp_all
qed

section \<open>All groups\<close>

text \<open>
  Between groups: unselected tags are as in the map \<open>m\<close> of the start, a selected one may be gone.
\<close>

definition between :: "(string \<rightharpoonup> string) \<Rightarrow> string set \<Rightarrow> (string \<rightharpoonup> string) \<Rightarrow> bool" where
  "between m S cur \<longleftrightarrow> (\<forall>t. cur t = m t \<or> (t \<in> S \<and> cur t = None))"

definition minus_ok :: "(string \<rightharpoonup> string) \<Rightarrow> tag_result list \<Rightarrow> string \<rightharpoonup> string" where
  "minus_ok cur results = (\<lambda>t. if \<exists>x \<in> set results. tr_ok x \<and> tr_tag x = t then None else cur t)"

lemma group_effect:
  assumes b: "between m S cur" and g: "set ts = {t \<in> S. m t = Some d}"
    and rem: "set remaining = {t \<in> dom m. t \<notin> set ts \<and> digest_in m t = d}" and d: "d \<noteq> []"
    and present: "\<And>t. t \<in> set ts \<Longrightarrow> cur t = m t"
  shows "(\<lambda>t. if t \<in> set remaining then Some d else if cur t = Some d then None else cur t) =
    (\<lambda>t. if t \<in> set ts then None else cur t)"
proof
  fix t
  have in_ts: "t \<in> set ts \<longleftrightarrow> t \<in> S \<and> m t = Some d" by (simp add: g)
  have in_rem: "t \<in> set remaining \<longleftrightarrow> m t = Some d \<and> t \<notin> S"
    unfolding rem mem_Collect_eq in_ts using d by (cases "m t") (auto simp: digest_in_def dom_def)
  have "cur t = m t \<or> (t \<in> S \<and> cur t = None)" using b unfolding between_def by blast
  then show "(if t \<in> set remaining then Some d else if cur t = Some d then None else cur t) =
    (if t \<in> set ts then None else cur t)"
    using in_ts in_rem present[of t] by (cases "t \<in> S") auto
qed

lemma delete_group_step:
  assumes laws: "registry_laws c name T hash"
    and b: "between m S (T (w_reg w))" and g: "set ts = {t \<in> S. m t = Some d}"
    and present: "\<And>t. t \<in> set ts \<Longrightarrow> T (w_reg w) t = m t" and ne: "ts \<noteq> []"
    and rem: "set remaining = {t \<in> dom m. t \<notin> set ts \<and> digest_in m t = d}"
    and run: "(if remaining = [] then delete_last now c rq name rid d ts w
       else untag now c rq name rid d (ManifestRaw c name d (w_reg w)) remaining ts w) = (res, n, w1)"
    and warn: "\<forall>x \<in> set res. tr_warning x = []"
  shows "map tr_tag res = ts \<and> T (w_reg w1) = minus_ok (T (w_reg w)) res"
proof -
  from ne obtain t0 where t0: "t0 \<in> set ts" by (cases ts) auto
  then have cur0: "T (w_reg w) t0 = Some d" using g present[OF t0] by simp
  have d: "d \<noteq> []" by (rule registry_lawsD(2)[OF laws cur0])
  note eff = group_effect[OF b g rem d present]
  have "map tr_tag res = ts \<and>
    ((T (w_reg w1) = T (w_reg w) \<and> (\<forall>x \<in> set res. \<not> tr_ok x)) \<or>
     (T (w_reg w1) = (\<lambda>t. if t \<in> set ts then None else T (w_reg w) t) \<and> (\<forall>x \<in> set res. tr_ok x)))"
  proof (cases "remaining = []")
    case True
    obtain e r1 where D: "DeleteManifest c name d (w_reg w) = (e, r1)"
      by (cases "DeleteManifest c name d (w_reg w)")
    have "delete_last now c rq name rid d ts w = (res, n, w1)" using run True by simp
    note cs = delete_last_cases[OF this D]
    show ?thesis
    proof (cases e)
      case None
      with D have "DeleteManifest c name d (w_reg w) = (None, r1)" by simp
      from registry_lawsD(5)[OF laws this] cs None eff True show ?thesis by simp
    next
      case (Some err)
      with D have "DeleteManifest c name d (w_reg w) = (Some err, r1)" by simp
      from registry_lawsD(6)[OF laws this] cs Some show ?thesis by simp
    qed
  next
    case False
    have "d \<in> ran (T (w_reg w))" using cur0 by (auto simp: ran_def)
    then have body: "\<And>raw. ManifestRaw c name d (w_reg w) = Inr raw \<Longrightarrow> hash (rm_body raw) = d"
      by (rule registry_lawsD(4)[OF laws])
    have u: "untag now c rq name rid d (ManifestRaw c name d (w_reg w)) remaining ts w = (res, n, w1)"
      using run False by simp
    have nw: "\<not> (\<exists>x \<in> set res. tr_warning x \<noteq> [])" using warn by blast
    have un1: "map tr_tag res = ts" by (rule untag_cases(1)[OF laws u]) (erule body)
    have "(T (w_reg w1) = T (w_reg w) \<and> (\<forall>x \<in> set res. \<not> tr_ok x)) \<or>
     (\<exists>x \<in> set res. tr_warning x \<noteq> []) \<or> ts = [] \<or>
     (T (w_reg w1) = (\<lambda>t. if t \<in> set remaining then Some d
          else if T (w_reg w) t = Some d then None else T (w_reg w) t) \<and> (\<forall>x \<in> set res. tr_ok x))"
      by (rule untag_cases(2)[OF laws u]) (erule body)
    with nw ne have "(T (w_reg w1) = T (w_reg w) \<and> (\<forall>x \<in> set res. \<not> tr_ok x)) \<or>
      (T (w_reg w1) = (\<lambda>t. if t \<in> set ts then None else T (w_reg w) t) \<and> (\<forall>x \<in> set res. tr_ok x))"
      using trans[OF _ eff, of "T (w_reg w1)"] by blast
    with un1 show ?thesis by blast
  qed
  then show ?thesis
  proof (elim conjE disjE)
    assume "map tr_tag res = ts" "T (w_reg w1) = T (w_reg w)" "\<forall>x \<in> set res. \<not> tr_ok x"
    then show ?thesis by (auto simp: minus_ok_def)
  next
    assume m: "map tr_tag res = ts" and t: "T (w_reg w1) = (\<lambda>t. if t \<in> set ts then None else T (w_reg w) t)"
      and k: "\<forall>x \<in> set res. tr_ok x"
    have "(\<exists>x \<in> set res. tr_ok x \<and> tr_tag x = t) = (t \<in> set ts)" for t
      using k unfolding m[symmetric] by auto
    with m t show ?thesis by (simp add: minus_ok_def)
  qed
qed

lemma delete_groups_grows:
  "delete_groups now c rq name rid allTags groups cache results n w = (results', n', w') \<Longrightarrow>
   \<exists>more. results' = results @ more"
proof (induction groups arbitrary: cache results n w)
  case Nil
  then show ?case by simp
next
  case (Cons g groups)
  obtain d ts where g: "g = (d, ts)" by (cases g)
  obtain remaining c1 where sv: "survivingTags c name (w_reg w) (set ts) d allTags cache = (remaining, c1)"
    by (cases "survivingTags c name (w_reg w) (set ts) d allTags cache")
  obtain res k w1 where run: "(if remaining = [] then delete_last now c rq name rid d ts w
       else untag now c rq name rid d (ManifestRaw c name d (w_reg w)) remaining ts w) = (res, k, w1)"
    by (metis prod_cases3)
  have "delete_groups now c rq name rid allTags groups c1 (results @ res) (n + k) w1 = (results', n', w')"
    using Cons.prems by (simp only: g delete_groups.simps sv Let_def run prod.case)
  from Cons.IH[OF this] show ?case by auto
qed

lemma delete_groups_spec:
  assumes laws: "registry_laws c name T hash" and all: "set allTags = dom m"
  shows "cache_of m cache \<Longrightarrow> S \<subseteq> dom cache \<Longrightarrow> distinct (map fst groups) \<Longrightarrow>
    (\<And>d ts. (d, ts) \<in> set groups \<Longrightarrow> ts \<noteq> [] \<and> set ts = {t \<in> S. m t = Some d}) \<Longrightarrow>
    between m S (T (w_reg w)) \<Longrightarrow>
    (\<And>d ts t. (d, ts) \<in> set groups \<Longrightarrow> t \<in> set ts \<Longrightarrow> T (w_reg w) t = m t) \<Longrightarrow>
    delete_groups now c rq name rid allTags groups cache results n w = (results', n', w') \<Longrightarrow>
    \<forall>x \<in> set results'. tr_warning x = [] \<Longrightarrow>
    \<exists>new. results' = results @ new \<and> T (w_reg w') = minus_ok (T (w_reg w)) new \<and>
      map tr_tag new = concat (map snd groups)"
proof (induction groups arbitrary: cache results n w)
  case Nil
  then show ?case by (simp add: minus_ok_def)
next
  case (Cons g groups)
  obtain d ts where g: "g = (d, ts)" by (cases g)
  have ts: "ts \<noteq> []" "set ts = {t \<in> S. m t = Some d}"
    and present: "\<And>t. t \<in> set ts \<Longrightarrow> T (w_reg w) t = m t"
    using Cons.prems(4)[of d ts] Cons.prems(6)[of d ts] g by simp_all
  obtain remaining c1 where sv: "survivingTags c name (w_reg w) (set ts) d allTags cache = (remaining, c1)"
    by (cases "survivingTags c name (w_reg w) (set ts) d allTags cache")
  have known: "t \<in> dom cache \<or> T (w_reg w) t = m t" for t
    using Cons.prems(2,5) unfolding between_def by blast
  have rem: "set remaining = {t \<in> dom m. t \<notin> set ts \<and> digest_in m t = d}"
    and c1: "cache_of m c1" "dom cache \<subseteq> dom c1"
    using survivingTags_spec[OF laws Cons.prems(1) known sv] all by simp_all
  obtain res k w1 where run: "(if remaining = [] then delete_last now c rq name rid d ts w
       else untag now c rq name rid d (ManifestRaw c name d (w_reg w)) remaining ts w) = (res, k, w1)"
    by (metis prod_cases3)
  have rec: "delete_groups now c rq name rid allTags groups c1 (results @ res) (n + k) w1 = (results', n', w')"
    using Cons.prems(7) by (simp only: g delete_groups.simps sv Let_def run prod.case)
  have grow: "\<exists>more. results' = results @ res @ more" using delete_groups_grows[OF rec] by auto
  then have "\<forall>x \<in> set res. tr_warning x = []" using Cons.prems(8) by auto
  from delete_group_step[OF laws Cons.prems(5) ts(2) present ts(1) rem run this]
  have step: "map tr_tag res = ts" "T (w_reg w1) = minus_ok (T (w_reg w)) res" by simp_all
  have gone: "T (w_reg w1) t = T (w_reg w) t \<or> t \<in> set ts \<and> T (w_reg w1) t = None" for t
    using step by (auto simp: minus_ok_def)
  have b1: "between m S (T (w_reg w1))"
    unfolding between_def
  proof
    fix t
    have "T (w_reg w) t = m t \<or> (t \<in> S \<and> T (w_reg w) t = None)"
      using Cons.prems(5) unfolding between_def by blast
    with gone[of t] ts(2) show "T (w_reg w1) t = m t \<or> (t \<in> S \<and> T (w_reg w1) t = None)" by auto
  qed
  have p1: "T (w_reg w1) t = m t" if "(d', ts') \<in> set groups" "t \<in> set ts'" for d' ts' t
  proof -
    have "d' \<noteq> d" using Cons.prems(3) that(1) g by force
    moreover have "m t = Some d'" using Cons.prems(4)[of d' ts'] that by simp
    ultimately have "t \<notin> set ts" using ts(2) by simp
    with gone[of t] Cons.prems(6)[of d' ts' t] that show ?thesis by simp
  qed
  have "\<exists>new. results' = (results @ res) @ new \<and> T (w_reg w') = minus_ok (T (w_reg w1)) new \<and>
      map tr_tag new = concat (map snd groups)"
  proof (rule Cons.IH[OF c1(1) _ _ _ b1 p1 rec Cons.prems(8)])
    show "S \<subseteq> dom c1" using Cons.prems(2) c1(2) by blast
    show "distinct (map fst groups)" using Cons.prems(3) by simp
    show "\<And>d ts. (d, ts) \<in> set groups \<Longrightarrow> ts \<noteq> [] \<and> set ts = {t \<in> S. m t = Some d}"
      by (rule Cons.prems(4)) simp
  qed
  then obtain new where new: "results' = results @ res @ new" "T (w_reg w') = minus_ok (T (w_reg w1)) new"
    "map tr_tag new = concat (map snd groups)" by auto
  have "T (w_reg w') = minus_ok (T (w_reg w)) (res @ new)"
    unfolding new(2) step(2) by (rule ext) (auto simp: minus_ok_def)
  with new step(1) g show ?case by (intro exI[of _ "res @ new"]) simp
qed

section \<open>Deleting tags\<close>

lemma set_dedupe: "set (dedupe ts seen) = {t \<in> set ts. t \<noteq> [] \<and> t \<notin> seen}"
  by (induction ts arbitrary: seen) auto

lemma delete_tags_effect:
  assumes laws: "registry_laws c name T hash"
    and run: "deleteTagsAware now c rq name selected w = (results, n, w')"
    and warn: "\<forall>x \<in> set results. tr_warning x = []"
  shows "T (w_reg w') = (\<lambda>t. if \<exists>x \<in> set results. tr_ok x \<and> tr_tag x = t then None else T (w_reg w) t) \<and>
    tr_tag ` set results = set selected - {[]}"
proof -
  let ?m = "T (w_reg w)" and ?sel = "dedupe selected {}"
  obtain tags where tags: "Tags c name (w_reg w) = Inr tags" "set tags = dom ?m"
    using registry_lawsD(1)[OF laws] by blast
  obtain groups failed cache where grp:
    "group_selected c name (w_reg w) ?sel Map.empty [] [] = (groups, failed, cache)"
    by (metis prod_cases3)
  obtain found s1 where found: "resolveRepo now name (w_store w) = (found, s1)" by fastforce
  let ?w1 = "w\<lparr>w_store := s1\<rparr>" and ?rid = "case found of Inl _ \<Rightarrow> 0 | Inr i \<Rightarrow> i"
  have del: "delete_groups now c rq name ?rid tags groups cache failed 0 ?w1 = (results, n, w')"
    using run by (simp add: deleteTagsAware_def Let_def tags grp found)
  have "cache_of ?m Map.empty" "groups_ok ?m {} []" by (simp_all add: cache_of_def groups_ok_def)
  from group_selected_spec[OF laws this grp]
  have cache: "cache_of ?m cache" "set ?sel \<subseteq> dom cache" and ok: "groups_ok ?m (set ?sel) groups"
    and bad: "tr_tag ` set failed = {t \<in> set ?sel. ?m t = None}" "\<forall>x \<in> set failed. \<not> tr_ok x"
    by auto
  have present: "T (w_reg ?w1) t = ?m t" for t by simp
  have btw: "between ?m (set ?sel) (T (w_reg ?w1))" by (simp add: between_def)
  from delete_groups_spec[OF laws tags(2) cache groups_okD(1,2)[OF ok] btw present del warn]
  obtain new where new: "results = failed @ new" "T (w_reg w') = minus_ok ?m new"
    "map tr_tag new = concat (map snd groups)" by auto
  have "tr_tag ` set new = set (concat (map snd groups))" using new(3) by (metis set_map)
  also have "\<dots> = (\<Union>(d, tags) \<in> set groups. set tags)" by auto
  also have "\<dots> = {t \<in> set ?sel. ?m t \<noteq> None}" by (rule groups_ok_members[OF ok])
  finally have "tr_tag ` set results = {t \<in> set ?sel. ?m t = None} \<union> {t \<in> set ?sel. ?m t \<noteq> None}"
    unfolding new(1) set_append image_Un bad(1) by simp
  also have "\<dots> = set ?sel" by blast
  finally have "tr_tag ` set results = set ?sel" .
  moreover have "(\<exists>x \<in> set new. tr_ok x \<and> tr_tag x = t) = (\<exists>x \<in> set results. tr_ok x \<and> tr_tag x = t)" for t
    using bad(2) new(1) by auto
  then have "minus_ok ?m new = minus_ok ?m results" by (simp only: minus_ok_def)
  ultimately show ?thesis using new(2) by (auto simp: minus_ok_def set_dedupe)
qed

section \<open>The store\<close>

text \<open>Deleting tags changes the store through its methods only, so the invariant is kept.\<close>

lemma on_store_reaches:
  "(\<And>s. reaches s (snd (f s))) \<Longrightarrow> reaches s0 (w_store w) \<Longrightarrow> reaches s0 (w_store (on_store f w))"
  by (auto simp: on_store_def intro: reaches_trans)

lemma foldl_reaches:
  "(\<And>w t. reaches s0 (w_store w) \<Longrightarrow> reaches s0 (w_store (f w t))) \<Longrightarrow> reaches s0 (w_store w) \<Longrightarrow>
   reaches s0 (w_store (foldl f w ts))"
  by (induction ts arbitrary: w) simp_all

lemma w_store_simps [simp]:
  "w_store (fireWebhookEvent ev repo ref d w) = w_store w"
  "w_store (on_store f w) = snd (f (w_store w))"
  by (simp_all add: fireWebhookEvent_def on_store_def)

lemma snapshot_image_reaches: "reaches s (snd (snapshot_image now repo tag s))"
proof -
  have "snd (snapshot_image now repo tag s) = snd (resolveRepo now repo s)"
    by (auto simp: snapshot_image_def split: prod.splits sum.splits)
  then show ?thesis by simp
qed

lemma snapshot_loop_reaches:
  "reaches s0 s \<Longrightarrow> reaches s0 (snd (snapshot_loop now c repo digest r tags seen n s))"
proof (induction tags arbitrary: seen n s digest)
  case Nil
  then show ?case by simp
next
  case (Cons t ts)
  obtain i s1 where img: "snapshot_image now repo t s = (i, s1)" by fastforce
  with Cons.prems snapshot_image_reaches[of s now repo t] have s1: "reaches s0 s1"
    by (auto intro: reaches_trans)
  have add: "reaches s0 s2" if "AddRecycleItem now it s1 = (x, s2)" for it x s2
    using reaches_after(21)[OF s1, of now it] that by simp
  show ?case
    using Cons.prems
    by (auto simp: Let_def img split: prod.splits sum.splits intro!: Cons.IH reaches_after dest: add)
qed

lemma snapshotRecycleItems_reaches: "reaches s (snd (snapshotRecycleItems now c repo digest r s))"
  by (auto simp: snapshotRecycleItems_def split: sum.splits intro: snapshot_loop_reaches)

lemma cleanup_reaches: "reaches s0 (w_store w) \<Longrightarrow> reaches s0 (w_store (cleanup_if_empty c name w))"
proof -
  assume a: "reaches s0 (w_store w)"
  have "reaches s (cleanupRepoDB name s)" for s
    by (auto simp: cleanupRepoDB_def Let_def)
  with a show ?thesis
    by (auto simp: cleanup_if_empty_def split: sum.splits list.splits intro: reaches_trans)
qed

lemma delete_last_reaches:
  "reaches s0 (w_store w) \<Longrightarrow> reaches s0 (w_store (snd (snd (delete_last now c rq name rid digest ts w))))"
proof -
  assume a: "reaches s0 (w_store w)"
  obtain n s1 where sn: "snapshotRecycleItems now c name digest (w_reg w) (w_store w) = (n, s1)"
    by fastforce
  with a snapshotRecycleItems_reaches[of "w_store w" now c name digest "w_reg w"]
  have s1: "reaches s0 s1" by (auto intro: reaches_trans)
  obtain e r1 where D: "DeleteManifest c name digest (w_reg w) = (e, r1)" by fastforce
  show ?thesis
  proof (cases e)
    case (Some err)
    with s1 show ?thesis by (auto simp: delete_last_def sn D intro!: reaches_after)
  next
    case None
    with s1 show ?thesis
      by (auto simp: delete_last_def sn D Let_def intro!: cleanup_reaches foldl_reaches reaches_after)
  qed
qed

lemma repush_reaches:
  "reaches s0 (w_store w) \<Longrightarrow> reaches s0 (w_store (snd (repush now c rq name digest raw ts w)))"
proof (induction ts arbitrary: w)
  case Nil
  then show ?case by simp
next
  case (Cons t ts)
  obtain e r1 where P: "PutManifest c name t (rm_ctype raw) (rm_body raw) (w_reg w) = (e, r1)" by fastforce
  have 1: "reaches s0 (w_store (snd (repush now c rq name digest raw ts (w\<lparr>w_reg := r1\<rparr>))))"
    by (rule Cons.IH) (simp add: Cons.prems)
  have 2: "reaches s0 (w_store (snd (repush now c rq name digest raw ts
      (on_store (AddAudit now i a b d f g h) (w\<lparr>w_reg := r1\<rparr>)))))" for i a b d f g h
    using Cons.prems by (intro Cons.IH) (auto intro!: reaches_after)
  show ?case using 1 2 by (cases e) (auto simp: P split_beta)
qed

lemma untag_reaches:
  "reaches s0 (w_store w) \<Longrightarrow>
   reaches s0 (w_store (snd (snd (untag now c rq name rid digest fetched remaining ts w))))"
proof -
  assume a: "reaches s0 (w_store w)"
  show ?thesis
  proof (cases fetched)
    case (Inl e)
    with a show ?thesis by (auto simp: untag_def Let_def intro!: reaches_after)
  next
    case (Inr raw)
    obtain e r1 where D: "DeleteManifest c name digest (w_reg w) = (e, r1)" by fastforce
    have "reaches s0 (w_store (snd (repush now c rq name digest raw remaining (w\<lparr>w_reg := r1\<rparr>))))"
      using a by (intro repush_reaches) simp
    with Inr a show ?thesis
      by (cases e) (auto simp: untag_def Let_def D split_beta intro!: foldl_reaches reaches_after)
  qed
qed

lemma delete_groups_reaches:
  "reaches s0 (w_store w) \<Longrightarrow>
   reaches s0 (w_store (snd (snd (delete_groups now c rq name rid allTags groups cache results n w))))"
proof (induction groups arbitrary: cache results n w)
  case Nil
  then show ?case by simp
next
  case (Cons g groups)
  obtain d ts where g: "g = (d, ts)" by (cases g)
  show ?case
    using delete_last_reaches[OF Cons.prems] untag_reaches[OF Cons.prems]
    by (simp add: g split_beta Let_def Cons.IH)
qed

lemma deleteTagsAware_reaches:
  "reaches (w_store w) (w_store (snd (snd (deleteTagsAware now c rq name selected w))))"
  by (auto simp: deleteTagsAware_def Let_def split_beta intro!: delete_groups_reaches)

text \<open>
  C1. Deleting selected tags of a repository on a registry that keeps its laws: when no result
  carries a warning, every tag that was not reported deleted still points at its digest, every
  tag reported deleted is gone, and each selected tag gets a result (no other tag does).
\<close>

theorem delete_tags_exactly:
  assumes laws: "registry_laws c name T hash"
    and run: "deleteTagsAware now c rq name selected w = (results, n, w')"
    and warn: "\<forall>x \<in> set results. tr_warning x = []"
  shows "T (w_reg w') = (\<lambda>t. if \<exists>x \<in> set results. tr_ok x \<and> tr_tag x = t then None else T (w_reg w) t) \<and>
    tr_tag ` set results = set selected - {[]}"
  using delete_tags_effect[OF assms] .

theorem delete_tags_exactly_witness:
  "\<exists>results n w'. deleteTagsAware 5 (demo_client ''app'') blank_request ''app'' [''v1'']
      \<lparr>w_store = empty_store, w_reg = [(''v1'', ''b''), (''v2'', ''b'')], w_events = []\<rparr> = (results, n, w') \<and>
    results = [tagged ''untag'' True [] [] ''v1''] \<and> demo_tags (w_reg w') = [''v2'' \<mapsto> ''b'']"
proof -
  let ?r = "[(''v1'', ''b''), (''v2'', ''b'')]"
  let ?w = "\<lparr>w_store = empty_store, w_reg = ?r, w_events = []\<rparr>"
  have small: "demo_norm ?r = ?r" "demo_norm [(''v2'', ''b'')] = [(''v2'', ''b'')]" "demo_norm [] = []"
    by (simp_all add: demo_norm_def demo_small_def)
  obtain results n w' where run:
    "deleteTagsAware 5 (demo_client ''app'') blank_request ''app'' [''v1''] ?w = (results, n, w')"
    by (metis prod_cases3)
  have raw: "ManifestRaw (demo_client ''app'') ''app'' ''b'' ?r =
      Inr \<lparr>rm_digest = ''b'', rm_ctype = [], rm_body = ''b'', rm_payload = cl_json (demo_client ''app'') ''b''\<rparr>"
    by (rule demo_ManifestRaw) (simp add: small)
  have results: "results = [tagged ''untag'' True [] [] ''v1'']"
    using run
    by (simp add: deleteTagsAware_def Let_def demo_Tags small digestOf_def demo_Digest demo_tags_def
        add_group_def raw untag_def demo_DeleteManifest demo_PutManifest demo_small_def split_beta)
  have "demo_tags (w_reg w') = [''v2'' \<mapsto> ''b'']"
    using delete_tags_exactly[OF demo_laws run]
    by (auto simp: results tagged_def demo_tags_def small fun_eq_iff)
  with run results show ?thesis by blast
qed

end
