(* ===== verification/GC.thy ===== *)
theory GC
  imports Delete_Tags
begin

text \<open>
  Garbage collection (\<^verbatim>\<open>server.go\<close>): the sweep over the recycle bin (\<^verbatim>\<open>runRegistryGC\<close>,
  \<^verbatim>\<open>processGCItems\<close>, \<^verbatim>\<open>recordGCFailure\<close>, \<^verbatim>\<open>liveDigestsForRepo\<close>), the external blob collector
  (\<^verbatim>\<open>runBlobGC\<close>) with its environment as an argument, the gate that admits one run at a time, and
  the HTTP entry point. Lemmas: a sweep on lawful registries takes no live tag away; an item that
  the registry keeps refusing is parked after \<open>gcMaxAttempts\<close> runs; what a failed HEAD does.
\<close>

section \<open>The sweep\<close>

definition gcMaxAttempts :: int where "gcMaxAttempts = 5"

definition gcRetentionDays :: "store \<Rightarrow> (int \<times> bool) \<times> store" where
  "gcRetentionDays s =
     (case GetSettingInt ''recycleGCDays'' 30 s of (d, s1) \<Rightarrow>
        (let days = (if d < 0 then 30 else d)
         in (if days = 0 then (0, True) else (days, False), s1)))"

definition liveDigestsForRepo :: "'r client \<Rightarrow> string \<Rightarrow> 'r \<Rightarrow> string set rres" where
  "liveDigestsForRepo c repo r =
     (case Tags c repo r of
        Inl e \<Rightarrow> Inl e
      | Inr tags \<Rightarrow> Inr (set (concat (map (\<lambda>t. case Digest c repo t r of
             Inl _ \<Rightarrow> [] | Inr (d, _) \<Rightarrow> if d = [] then [] else [d]) tags))))"

definition recordGCFailure :: "int \<Rightarrow> rerr \<Rightarrow> store \<Rightarrow> store" where
  "recordGCFailure i cause s =
     (case StatusCode cause of
        None \<Rightarrow> s
      | Some _ \<Rightarrow> snd (MarkRecycleGCFailure i (error_text cause) gcMaxAttempts s))"

type_synonym live_cache = "string \<rightharpoonup> string set"

text \<open>The live digests of a repository, from the cache or the registry; 404 means none.\<close>

definition live_of :: "'r client \<Rightarrow> string \<Rightarrow> 'r \<Rightarrow> live_cache \<Rightarrow> string set rres \<times> live_cache" where
  "live_of c repo r cache =
     (case cache repo of
        Some live \<Rightarrow> (Inr live, cache)
      | None \<Rightarrow>
          (case liveDigestsForRepo c repo r of
             Inr live \<Rightarrow> (Inr live, cache(repo \<mapsto> live))
           | Inl e \<Rightarrow> if IsStatus e 404 then (Inr {}, cache(repo \<mapsto> {})) else (Inl e, cache)))"

text \<open>Drop the record of an item; a failing DELETE on the store leaves it for the next run.\<close>

definition drop_item :: "int \<Rightarrow> (store \<Rightarrow> store) \<Rightarrow> int \<Rightarrow> store \<Rightarrow> int \<times> store" where
  "drop_item i after deleted s =
     (case DeleteRecycleItem i s of
        (Inl _, s1) \<Rightarrow> (deleted, s1)
      | (Inr _, s1) \<Rightarrow> (deleted + 1, after s1))"

fun process_item :: "int \<Rightarrow> 'r client \<Rightarrow> recycle_row \<Rightarrow> live_cache \<times> int \<times> 'r world \<Rightarrow> live_cache \<times> int \<times> 'r world" where
  "process_item now c item (cache, deleted, w) =
     (if rb_digest item = []
      then (cache, deleted + 1, w\<lparr>w_store := snd (DeleteRecycleItem (rb_id item) (w_store w))\<rparr>)
      else case live_of c (rb_repo item) (w_reg w) cache of
        (Inl e, cache1) \<Rightarrow> (cache1, deleted, w\<lparr>w_store := recordGCFailure (rb_id item) e (w_store w)\<rparr>)
      | (Inr live, cache1) \<Rightarrow>
          if rb_digest item \<in> live
          then (case drop_item (rb_id item) (\<lambda>s. s) deleted (w_store w) of
                  (n, s1) \<Rightarrow> (cache1, n, w\<lparr>w_store := s1\<rparr>))
          else (case DeleteManifest c (rb_repo item) (rb_digest item) (w_reg w) of (e, r1) \<Rightarrow>
             (case e of
                Some err \<Rightarrow>
                  if \<not> IsStatus err 404
                  then (cache1, deleted,
                        w\<lparr>w_reg := r1, w_store := recordGCFailure (rb_id item) err (w_store w)\<rparr>)
                  else (case drop_item (rb_id item) (\<lambda>s. snd (AddAudit now 0 ''gc.delete'' (rb_repo item)
                          (rb_ref item) (rb_digest item) ''ok'' ''manifest deleted via GC'' s)) deleted (w_store w)
                        of (n, s1) \<Rightarrow> (cache1, n, w\<lparr>w_reg := r1, w_store := s1\<rparr>))
              | None \<Rightarrow>
                  (case drop_item (rb_id item) (\<lambda>s. snd (AddAudit now 0 ''gc.delete'' (rb_repo item)
                          (rb_ref item) (rb_digest item) ''ok'' ''manifest deleted via GC'' s)) deleted (w_store w)
                        of (n, s1) \<Rightarrow> (cache1, n, w\<lparr>w_reg := r1, w_store := s1\<rparr>)))))"

definition processGCItems :: "int \<Rightarrow> 'r client \<Rightarrow> recycle_row list \<Rightarrow> 'r world \<Rightarrow> int \<times> 'r world" where
  "processGCItems now c items w =
     (case foldl (\<lambda>st item. process_item now c item st) (Map.empty, 0, w) items of (_, n, w') \<Rightarrow> (n, w'))"

record sweep =
  sw_deleted :: int
  sw_skipped :: bool
  sw_error :: "serr option"

definition runRegistryGC :: "int \<Rightarrow> 'r client \<Rightarrow> bool \<Rightarrow> 'r world \<Rightarrow> sweep \<times> 'r world" where
  "runRegistryGC now c everything w =
     (let sweep_items = (\<lambda>found w1. case found of
            Inl e \<Rightarrow> (\<lparr>sw_deleted = 0, sw_skipped = False, sw_error = Some e\<rparr>, w1)
          | Inr items \<Rightarrow> (case processGCItems now c items w1 of (n, w2) \<Rightarrow>
                (\<lparr>sw_deleted = n, sw_skipped = False, sw_error = None\<rparr>, w2)))
      in if everything then sweep_items (ListAllPendingGC (w_store w)) w
         else case gcRetentionDays (w_store w) of ((days, disabled), s1) \<Rightarrow>
           (let w1 = w\<lparr>w_store := s1\<rparr>
            in if disabled then (\<lparr>sw_deleted = 0, sw_skipped = True, sw_error = None\<rparr>, w1)
               else sweep_items (ListPendingGC now days s1) w1))"

section \<open>No live tag is taken away\<close>

text \<open>
  One registry, many repositories: the laws hold for every repository of \<open>R\<close>, and deleting in
  one leaves the tags of the others alone.
\<close>

definition registry_laws_on ::
    "string set \<Rightarrow> 'r client \<Rightarrow> (string \<Rightarrow> 'r \<Rightarrow> string \<rightharpoonup> string) \<Rightarrow> (string \<Rightarrow> string) \<Rightarrow> bool" where
  "registry_laws_on R c T hash \<longleftrightarrow> (\<forall>a \<in> R. registry_laws c a (T a) hash) \<and>
     (\<forall>a \<in> R. \<forall>b \<in> R. a \<noteq> b \<longrightarrow> (\<forall>d r. T b (snd (DeleteManifest c a d r)) = T b r))"

definition cache_holds :: "string set \<Rightarrow> (string \<Rightarrow> string \<rightharpoonup> string) \<Rightarrow> live_cache \<Rightarrow> bool" where
  "cache_holds R tags cache \<longleftrightarrow> (\<forall>a \<in> R. \<forall>live. cache a = Some live \<longrightarrow> ran (tags a) \<subseteq> live)"

lemma live_digests_lawful:
  assumes "registry_laws c repo T hash"
  shows "liveDigestsForRepo c repo r = Inr (ran (T r))"
proof -
  obtain tags where tags: "Tags c repo r = Inr tags" "set tags = dom (T r)"
    using registry_lawsD(1)[OF assms] by blast
  let ?ds = "\<lambda>t. case Digest c repo t r of Inl _ \<Rightarrow> [] | Inr (d, _) \<Rightarrow> if d = [] then [] else [d]"
  have ds: "set (?ds t) = {d. T r t = Some d}" for t
    using registry_lawsD(2)[OF assms, of r t] registry_lawsD(3)[OF assms, of t r]
    by (cases "T r t"; cases "Digest c repo t r") (auto simp: digest_in_def split: prod.splits)
  have "set (concat (map ?ds tags)) = (\<Union>t \<in> dom (T r). set (?ds t))" using tags(2) by simp
  also have "\<dots> = ran (T r)" unfolding ds by (auto simp: ran_def)
  finally show ?thesis using tags(1) by (simp add: liveDigestsForRepo_def)
qed

lemma live_of_lawful:
  assumes "registry_laws c repo T hash" "live_of c repo r cache = (res, cache1)"
  shows "(\<exists>live. res = Inr live \<and> cache1 repo = Some live \<and>
      (cache repo = Some live \<or> (cache repo = None \<and> live = ran (T r)))) \<and>
    (\<forall>b. b \<noteq> repo \<longrightarrow> cache1 b = cache b)"
  using assms(2) live_digests_lawful[OF assms(1), of r]
  by (cases "cache repo") (auto simp: live_of_def)

lemma process_item_reg:
  assumes "process_item now c item (cache, n, w) = (cache1, n1, w1)"
  shows "w_reg w1 = w_reg w \<or>
    (\<exists>live. live_of c (rb_repo item) (w_reg w) cache = (Inr live, cache1) \<and> rb_digest item \<notin> live \<and>
      w_reg w1 = snd (DeleteManifest c (rb_repo item) (rb_digest item) (w_reg w)))"
    and "cache1 = cache \<or> cache1 = snd (live_of c (rb_repo item) (w_reg w) cache)"
  using assms by (auto split: if_splits sum.splits prod.splits option.splits)

lemma process_item_keeps:
  assumes laws: "registry_laws_on R c T hash" and repo: "rb_repo item \<in> R"
    and hold: "cache_holds R (\<lambda>a. T a (w_reg w)) cache"
    and step: "process_item now c item (cache, n, w) = (cache1, n1, w1)"
  shows "(\<forall>a \<in> R. T a (w_reg w1) = T a (w_reg w)) \<and> cache_holds R (\<lambda>a. T a (w_reg w)) cache1"
proof -
  let ?a = "rb_repo item"
  have law: "registry_laws c ?a (T ?a) hash" using laws repo by (simp add: registry_laws_on_def)
  obtain res c1 where lo: "live_of c ?a (w_reg w) cache = (res, c1)" by fastforce
  from live_of_lawful[OF law lo] obtain live where live: "res = Inr live" "c1 ?a = Some live"
    "cache ?a = Some live \<or> (cache ?a = None \<and> live = ran (T ?a (w_reg w)))" "\<And>b. b \<noteq> ?a \<Longrightarrow> c1 b = cache b"
    by blast
  have sub: "ran (T ?a (w_reg w)) \<subseteq> live" using live(3) hold repo by (auto simp: cache_holds_def)
  have hold1: "cache_holds R (\<lambda>a. T a (w_reg w)) c1"
    unfolding cache_holds_def
  proof (intro ballI allI impI)
    fix a l assume "a \<in> R" "c1 a = Some l"
    with hold sub live(2,4) show "ran (T a (w_reg w)) \<subseteq> l"
      by (cases "a = ?a") (auto simp: cache_holds_def)
  qed
  have "T a (w_reg w1) = T a (w_reg w)" if a: "a \<in> R" for a
  proof (cases "w_reg w1 = w_reg w")
    case True
    then show ?thesis by simp
  next
    case False
    with process_item_reg(1)[OF step] lo live(1)
    have out: "rb_digest item \<notin> live" "w_reg w1 = snd (DeleteManifest c ?a (rb_digest item) (w_reg w))"
      by auto
    show ?thesis
    proof (cases "a = ?a")
      case True
      obtain e r1 where D: "DeleteManifest c ?a (rb_digest item) (w_reg w) = (e, r1)" by fastforce
      have "T ?a r1 = T ?a (w_reg w)"
      proof (cases e)
        case None
        with D registry_lawsD(5)[OF law, of "rb_digest item" "w_reg w" r1]
        have "T ?a r1 = (\<lambda>t. if T ?a (w_reg w) t = Some (rb_digest item) then None else T ?a (w_reg w) t)"
          by simp
        moreover have "T ?a (w_reg w) t \<noteq> Some (rb_digest item)" for t
          using out(1) sub by (auto simp: ran_def)
        ultimately show ?thesis by simp
      next
        case (Some err)
        with D registry_lawsD(6)[OF law, of "rb_digest item" "w_reg w" err r1] show ?thesis by simp
      qed
      with True out(2) D show ?thesis by simp
    next
      case False
      with laws a repo out(2) show ?thesis by (auto simp: registry_laws_on_def)
    qed
  qed
  moreover have "cache_holds R (\<lambda>a. T a (w_reg w)) cache1"
    using process_item_reg(2)[OF step] lo hold hold1 by auto
  ultimately show ?thesis by blast
qed

lemma process_items_keep:
  assumes laws: "registry_laws_on R c T hash"
  shows "rb_repo ` set items \<subseteq> R \<Longrightarrow> cache_holds R (\<lambda>a. T a (w_reg w)) cache \<Longrightarrow>
    foldl (\<lambda>st item. process_item now c item st) (cache, n, w) items = (cache', n', w') \<Longrightarrow>
    \<forall>a \<in> R. T a (w_reg w') = T a (w_reg w)"
proof (induction items arbitrary: cache n w)
  case Nil
  then show ?case by simp
next
  case (Cons item items)
  obtain cache1 n1 w1 where step: "process_item now c item (cache, n, w) = (cache1, n1, w1)"
    by (metis prod_cases3)
  have repo: "rb_repo item \<in> R" using Cons.prems(1) by simp
  from process_item_keeps[OF laws repo Cons.prems(2) step]
  have keep: "\<forall>a \<in> R. T a (w_reg w1) = T a (w_reg w)" and hold: "cache_holds R (\<lambda>a. T a (w_reg w)) cache1"
    by blast+
  from keep hold have hold1: "cache_holds R (\<lambda>a. T a (w_reg w1)) cache1" by (simp add: cache_holds_def)
  have "foldl (\<lambda>st item. process_item now c item st) (cache1, n1, w1) items = (cache', n', w')"
    using Cons.prems(3) step by simp
  with Cons.IH[OF _ hold1] Cons.prems(1) keep show ?case by simp
qed

lemma processGCItems_keep:
  assumes "registry_laws_on R c T hash" "rb_repo ` set items \<subseteq> R" "processGCItems now c items w = (n, w')"
  shows "\<forall>a \<in> R. T a (w_reg w') = T a (w_reg w)"
proof -
  obtain cache n1 w1 where f: "foldl (\<lambda>st item. process_item now c item st) (Map.empty, 0, w) items = (cache, n1, w1)"
    by (metis prod_cases3)
  with assms(3) have "w1 = w'" by (simp add: processGCItems_def)
  with process_items_keep[OF assms(1,2) _ f] show ?thesis by (simp add: cache_holds_def)
qed

section \<open>Parking\<close>

lemma recordGCFailure_item:
  assumes "\<not> s_fault s TRecycle" "recycle_of i s = Some r" "StatusCode cause = Some st"
  shows "recycle_of i (recordGCFailure i cause s) =
    Some (r\<lparr>rb_attempts := rb_attempts r + 1, rb_error := error_text cause,
            rb_status := (if rb_status r = PendingGC \<and> gcMaxAttempts \<le> rb_attempts r + 1
                          then GCFailed else rb_status r)\<rparr>)"
  using MarkRecycleGCFailure_item[OF assms(1,2), of "error_text cause" gcMaxAttempts] assms(3)
  by (simp add: recordGCFailure_def gcMaxAttempts_def Let_def)

lemma recordGCFailure_fault [simp]: "s_fault (recordGCFailure i cause s) = s_fault s"
  by (simp add: recordGCFailure_def MarkRecycleGCFailure_def Let_def split: option.splits)

text \<open>
  An item whose deletion the registry keeps refusing with a status stays pending, with the
  number of refusals counted, through four runs and is parked as failed by the fifth; a failure
  without a status (the registry was unreachable) is never counted.
\<close>

theorem refused_item_parked:
  assumes "\<not> s_fault s TRecycle" and "recycle_of i s = Some r"
    and "rb_status r = PendingGC" and "rb_attempts r = 0"
  shows "(StatusCode cause \<noteq> None \<longrightarrow> (\<exists>r'. recycle_of i ((recordGCFailure i cause ^^ n) s) = Some r' \<and>
      rb_attempts r' = int n \<and> rb_status r' = (if int n < gcMaxAttempts then PendingGC else GCFailed))) \<and>
    (StatusCode cause = None \<longrightarrow> (recordGCFailure i cause ^^ n) s = s)"
proof (intro conjI impI)
  assume "StatusCode cause \<noteq> None"
  then obtain st where st: "StatusCode cause = Some st" by auto
  show "\<exists>r'. recycle_of i ((recordGCFailure i cause ^^ n) s) = Some r' \<and>
      rb_attempts r' = int n \<and> rb_status r' = (if int n < gcMaxAttempts then PendingGC else GCFailed)"
  proof (induction n)
    case 0
    with assms show ?case by (simp add: gcMaxAttempts_def)
  next
    case (Suc n)
    then obtain r' where r': "recycle_of i ((recordGCFailure i cause ^^ n) s) = Some r'"
      "rb_attempts r' = int n" "rb_status r' = (if int n < gcMaxAttempts then PendingGC else GCFailed)" by blast
    have "s_fault ((recordGCFailure i cause ^^ n) s) = s_fault s" by (induction n) simp_all
    then have "\<not> s_fault ((recordGCFailure i cause ^^ n) s) TRecycle" using assms(1) by simp
    from recordGCFailure_item[OF this r'(1) st] r'(2,3) show ?case
      by (auto simp: gcMaxAttempts_def)
  qed
next
  assume "StatusCode cause = None"
  then have "recordGCFailure i cause s = s" for s by (simp add: recordGCFailure_def)
  then show "(recordGCFailure i cause ^^ n) s = s" by (induction n) simp_all
qed

definition pending_item :: recycle_row where
  "pending_item = new_recycle ''app'' ''v1'' ''a'' [] ''a'' 1 None"

theorem refused_item_parked_witness:
  "\<exists>r'. recycle_of 1 ((recordGCFailure 1 (StatusError ''registry delete failed'' 500 []) ^^ 5)
      (snd (AddRecycleItem 7 pending_item empty_store))) = Some r' \<and> rb_attempts r' = 5 \<and> rb_status r' = GCFailed"
proof -
  let ?s = "snd (AddRecycleItem 7 pending_item empty_store)"
  have "recycle_of 1 ?s = Some (pending_item\<lparr>rb_id := 1, rb_deleted := 7\<rparr>)" "\<not> s_fault ?s TRecycle"
    by (simp_all add: recycle_of_def AddRecycleItem_def pending_item_def new_recycle_def empty_store_def
        tupsert_def thas_def tinsert_def tfind_def tempty_def recycle_new_def recycle_key_def)
  from refused_item_parked[OF this(2,1), of "StatusError ''registry delete failed'' 500 []" 5]
  show ?thesis by (simp add: pending_item_def new_recycle_def gcMaxAttempts_def StatusCode_def)
qed

section \<open>Properties of the sweep\<close>

lemma listPending_repos:
  "listPendingGC P s = Inr items \<Longrightarrow> rb_repo ` set items \<subseteq> rb_repo ` set (trows (s_recycle s))"
  by (auto dest!: listPendingGC_set)

text \<open>
  C9. A metadata sweep, over the whole bin or only over expired items, never takes a live tag
  away: on a registry that keeps its laws, every tag of every repository points at the same
  digest after the sweep, however stale the items and whatever the sweep deletes.
\<close>

theorem sweep_keeps_live_tags:
  assumes "registry_laws_on R c T hash" and "rb_repo ` set (trows (s_recycle (w_store w))) \<subseteq> R"
    and "runRegistryGC now c everything w = (res, w')" and "a \<in> R"
  shows "T a (w_reg w') = T a (w_reg w)"
proof -
  have sweep: "T a (w_reg w2) = T a (w_reg w1)"
    if "listPendingGC P (w_store w1) = Inr items" "s_recycle (w_store w1) = s_recycle (w_store w)"
      "processGCItems now c items w1 = (n, w2)" for P items w1 n w2
    using processGCItems_keep[OF assms(1) _ that(3)] listPending_repos[OF that(1)] that(2) assms(2,4)
    by auto
  show ?thesis
  proof (cases everything)
    case True
    with assms(3) show ?thesis
      by (cases "ListAllPendingGC (w_store w)")
        (auto simp: runRegistryGC_def Let_def ListAllPendingGC_def split: prod.splits dest: sweep[of _ w])
  next
    case False
    obtain days disabled s1 where d: "gcRetentionDays (w_store w) = ((days, disabled), s1)"
      by (metis prod.exhaust)
    have "s1 = snd (GetSetting ''recycleGCDays'' (w_store w))"
      using d by (auto simp: gcRetentionDays_def GetSettingInt_def Let_def split: prod.splits if_splits option.splits)
    then have same: "s_recycle s1 = s_recycle (w_store w)"
      using same_data_fields[OF GetSetting_same_data] by simp
    let ?w1 = "w\<lparr>w_store := s1\<rparr>"
    show ?thesis
    proof (cases "disabled \<or> (\<exists>e. ListPendingGC now days s1 = Inl e)")
      case True
      with assms(3) False d show ?thesis
        by (auto simp: runRegistryGC_def Let_def split: if_splits)
    next
      case False
      then obtain items where items: "ListPendingGC now days s1 = Inr items" "\<not> disabled"
        by (cases "ListPendingGC now days s1") auto
      obtain n w2 where proc: "processGCItems now c items ?w1 = (n, w2)" by fastforce
      have "w' = w2" using assms(3) \<open>\<not> everything\<close> d items proc by (simp add: runRegistryGC_def Let_def)
      moreover have "\<exists>P. listPendingGC P s1 = Inr items" using items(1) by (auto simp: ListPendingGC_def split: if_splits)
      ultimately show ?thesis using sweep[of _ ?w1 items n w2] proc same by auto
    qed
  qed
qed

definition bin_store :: store where
  "bin_store = snd (AddRecycleItem 8 (new_recycle ''app'' ''old'' ''z'' [] ''z'' 1 None)
     (snd (AddRecycleItem 7 pending_item empty_store)))"

lemma bin_repos: "rb_repo ` set (trows (s_recycle bin_store)) \<subseteq> {''app''}"
  by (auto simp: bin_store_def AddRecycleItem_def pending_item_def new_recycle_def empty_store_def
      tupsert_def tinsert_def tupdate_def tempty_def recycle_new_def recycle_set_def recycle_key_def split: if_splits)

theorem sweep_keeps_live_tags_witness:
  "demo_tags (w_reg (snd (runRegistryGC 9 (demo_client ''app'') True
     \<lparr>w_store = bin_store, w_reg = [(''v1'', ''a'')], w_events = []\<rparr>))) ''v1'' = Some ''a''"
proof -
  let ?w = "\<lparr>w_store = bin_store, w_reg = [(''v1'', ''a'')], w_events = []\<rparr>"
  obtain res w' where run: "runRegistryGC 9 (demo_client ''app'') True ?w = (res, w')" by fastforce
  have "registry_laws_on {''app''} (demo_client ''app'') (\<lambda>_. demo_tags) (\<lambda>b. b)"
    by (simp add: registry_laws_on_def demo_laws)
  then have "demo_tags (w_reg w') = demo_tags (w_reg ?w)"
    using sweep_keeps_live_tags[of "{''app''}" "demo_client ''app''" "\<lambda>_. demo_tags" "\<lambda>b. b" ?w 9 True res w' "''app''"]
      bin_repos run by simp
  then show ?thesis using run by (simp add: demo_tags_def demo_norm_def demo_small_def)
qed

text \<open>
  The guard of the sweep trusts failed lookups: when the tag list arrives but every HEAD
  fails, the live set is empty and the digest is deleted, whatever tags point at it.
\<close>

theorem failed_lookups_delete:
  assumes "Tags c (rb_repo item) (w_reg w) = Inr tags"
    and "\<forall>t \<in> set tags. \<exists>e. Digest c (rb_repo item) t (w_reg w) = Inl e"
    and "rb_digest item \<noteq> []"
  shows "w_reg (snd (processGCItems now c [item] w)) =
    snd (DeleteManifest c (rb_repo item) (rb_digest item) (w_reg w))"
proof -
  have "(case Digest c (rb_repo item) t (w_reg w) of Inl _ \<Rightarrow> [] | Inr (d, _) \<Rightarrow> if d = [] then [] else [d]) = []"
    if "t \<in> set tags" for t using assms(2) that by (auto split: sum.splits)
  then have "liveDigestsForRepo c (rb_repo item) (w_reg w) = Inr {}"
    using assms(1) by (simp add: liveDigestsForRepo_def)
  then have live: "live_of c (rb_repo item) (w_reg w) Map.empty = (Inr {}, [rb_repo item \<mapsto> {}])"
    by (simp add: live_of_def)
  obtain e r1 where "DeleteManifest c (rb_repo item) (rb_digest item) (w_reg w) = (e, r1)" by fastforce
  then show ?thesis
    by (auto simp: processGCItems_def live assms(3) split: option.splits prod.splits)
qed

text \<open>The demonstration registry, answering every HEAD with an error.\<close>

definition deaf_client :: "(string \<times> string) list client" where
  "deaf_client = (demo_client ''app'')\<lparr>cl_up := \<lparr>up_get = (\<lambda>q r. if wq_method q = ''HEAD''
     then Inr (demo_resp 503 [] []) else demo_get ''app'' q r), up_mut = demo_mut ''app''\<rparr>\<rparr>"

lemma deaf_Tags: "Tags deaf_client ''app'' r = Tags (demo_client ''app'') ''app'' r"
proof -
  have "do_get deaf_client ''GET'' p a r = do_get (demo_client ''app'') ''GET'' p a r" for p a
    by (simp add: do_get_def deaf_client_def demo_client_def mk_req_def)
  moreover have "cl_json deaf_client = cl_json (demo_client ''app'')" by (simp add: deaf_client_def)
  ultimately show ?thesis unfolding Tags_def by (simp only:)
qed

lemma deaf_Digest: "\<exists>e. Digest deaf_client ''app'' t r = Inl e"
  by (simp add: Digest_def do_get_def deaf_client_def demo_client_def mk_req_def demo_resp_def read_resp_def
      ok_status_def maxResponseBytes_def)

lemma deaf_DeleteManifest: "DeleteManifest deaf_client ''app'' d r = DeleteManifest (demo_client ''app'') ''app'' d r"
  by (simp add: DeleteManifest_def do_mut_def deaf_client_def demo_client_def mk_req_def)

theorem failed_lookups_delete_witness:
  "demo_tags [(''v1'', ''a'')] ''v1'' = Some ''a'' \<and>
   demo_tags (w_reg (snd (processGCItems 9 deaf_client [pending_item]
     \<lparr>w_store = bin_store, w_reg = [(''v1'', ''a'')], w_events = []\<rparr>))) ''v1'' = None"
proof -
  let ?w = "\<lparr>w_store = bin_store, w_reg = [(''v1'', ''a'')], w_events = []\<rparr>"
  have item: "rb_repo pending_item = ''app''" "rb_digest pending_item = ''a''"
    by (simp_all add: pending_item_def new_recycle_def)
  have "w_reg (snd (processGCItems 9 deaf_client [pending_item] ?w)) =
      snd (DeleteManifest deaf_client ''app'' ''a'' [(''v1'', ''a'')])"
    using failed_lookups_delete[of deaf_client pending_item ?w "map fst (demo_norm [(''v1'', ''a'')])" 9]
    by (simp add: item deaf_Tags deaf_Digest demo_Tags)
  then show ?thesis
    by (simp add: deaf_DeleteManifest demo_DeleteManifest demo_tags_def demo_norm_def demo_small_def)
qed

text \<open>
  Putting a parked item back into the bin keeps its refusal count: after a new snapshot of
  the same tag and digest a single refusal parks it again.
\<close>

theorem readded_item_parks_at_once:
  assumes "\<not> s_fault s TRecycle" and "history_ok s" and "recycle_of i s = Some r" and "rb_status r = GCFailed"
    and "gcMaxAttempts \<le> rb_attempts r + 1" and "recycle_key item = recycle_key r" and "rb_image item = None"
    and "StatusCode cause = Some st"
  shows "\<exists>r1 r2. recycle_of i (snd (AddRecycleItem now item s)) = Some r1 \<and> rb_status r1 = PendingGC \<and>
    recycle_of i (recordGCFailure i cause (snd (AddRecycleItem now item s))) = Some r2 \<and> rb_status r2 = GCFailed"
proof -
  let ?s = "snd (AddRecycleItem now item s)" and ?k = "recycle_key item"
  have r: "r \<in> set (trows (s_recycle s))" "rb_id r = i" using assms(3) by (auto simp: recycle_of_def dest: tfind_SomeD)
  have same: "r' = r" if "r' \<in> set (trows (s_recycle s))" "rb_id r' = i" for r'
    using that r table_ok_same_id[of rb_id "s_recycle s" r' r] assms(2) by (auto simp: history_ok_def)
  have has: "thas (at_recycle ?k) (s_recycle s)" using r assms(6) by (auto simp: thas_iff)
  have rows: "s_recycle ?s = tupdate (at_recycle ?k) (recycle_set (now, item)) (s_recycle s)"
    using assms(1,7) has by (simp add: AddRecycleItem_def tupsert_def)
  have "recycle_of i ?s = map_option (\<lambda>q. if at_recycle ?k q then recycle_set (now, item) q else q) (recycle_of i s)"
    unfolding recycle_of_def rows by (rule tfind_update) (simp add: recycle_set_def)
  then have 1: "recycle_of i ?s = Some (recycle_set (now, item) r)" using assms(3,6) by simp
  have "\<not> s_fault ?s TRecycle" using assms(1,7) by (simp add: AddRecycleItem_def)
  from recordGCFailure_item[OF this 1 assms(8)] assms(5) have
    "recycle_of i (recordGCFailure i cause ?s) = Some ((recycle_set (now, item) r)
       \<lparr>rb_attempts := rb_attempts r + 1, rb_error := error_text cause, rb_status := GCFailed\<rparr>)"
    by (simp add: recycle_set_def)
  with 1 show ?thesis by (simp add: recycle_set_def)
qed

definition parked_store :: store where
  "parked_store = empty_store\<lparr>s_recycle :=
     \<lparr>trows = [pending_item\<lparr>rb_id := 1, rb_status := GCFailed, rb_attempts := 5\<rparr>], tseq = 1\<rparr>\<rparr>"

theorem readded_item_parks_at_once_witness:
  "\<exists>r1 r2. recycle_of 1 (snd (AddRecycleItem 9 pending_item parked_store)) = Some r1 \<and> rb_status r1 = PendingGC \<and>
    recycle_of 1 (recordGCFailure 1 (StatusError [] 500 []) (snd (AddRecycleItem 9 pending_item parked_store))) = Some r2 \<and>
    rb_status r2 = GCFailed"
proof -
  let ?r = "pending_item\<lparr>rb_id := 1, rb_status := GCFailed, rb_attempts := 5\<rparr>"
  have "history_ok parked_store"
    by (simp add: history_ok_def recent_ok_def parked_store_def empty_store_def tselect_def table_ok_def
        key_unique_def table_simps pending_item_def new_recycle_def)
  moreover have "recycle_of 1 parked_store = Some ?r"
    by (simp add: recycle_of_def parked_store_def empty_store_def tfind_def pending_item_def new_recycle_def)
  ultimately show ?thesis
    using readded_item_parks_at_once[of parked_store 1 ?r pending_item "StatusError [] 500 []" 500 9]
    by (simp add: parked_store_def empty_store_def pending_item_def new_recycle_def gcMaxAttempts_def
        recycle_key_def StatusCode_def)
qed

end
