(* ===== verification/Disk.thy ===== *)
theory Disk
  imports Go_Strings
begin

text \<open>
  The directory tree below \<^verbatim>\<open>REGISTRY_DATA_DIR\<close> and the two walks over it in \<^verbatim>\<open>server.go\<close>:
  \<^verbatim>\<open>dirSizeBytes\<close> and \<^verbatim>\<open>cleanupEmptyRepoDirs\<close>. A tree is what \<^verbatim>\<open>filepath.WalkDir\<close> sees, its
  entries in lexical order; every directory can be read and every empty one removed. The lemma is
  that removing the collected directories in reverse is pruning from the leaves.
\<close>

datatype node = File int | Dir "(string \<times> node) list"

fun tree_size :: "node \<Rightarrow> int" where
  "tree_size (File n) = n"
| "tree_size (Dir es) = sum_list (map (\<lambda>e. tree_size (snd e)) es)"

definition dirSizeBytes :: "node option \<Rightarrow> int" where
  "dirSizeBytes root = (case root of None \<Rightarrow> 0 | Some t \<Rightarrow> wrap64 (tree_size t))"

text \<open>The directories below a node, parents first, as \<^verbatim>\<open>WalkDir\<close> reports them.\<close>

fun walk_dirs :: "node \<Rightarrow> string list list" where
  "walk_dirs (File n) = []"
| "walk_dirs (Dir es) = concat (map (\<lambda>e. case snd e of
     File _ \<Rightarrow> [] | Dir _ \<Rightarrow> [fst e] # map (\<lambda>p. fst e # p) (walk_dirs (snd e))) es)"

text \<open>\<^verbatim>\<open>os.Remove\<close> of a directory that \<^verbatim>\<open>os.ReadDir\<close> found empty.\<close>

fun remove_empty :: "string list \<Rightarrow> node \<Rightarrow> node" where
  "remove_empty [] t = t"
| "remove_empty (k # p) (File n) = File n"
| "remove_empty (k # p) (Dir es) =
     Dir (if p = [] then filter (\<lambda>(k', t). \<not> (k' = k \<and> t = Dir [])) es
          else map (\<lambda>(k', t). (k', if k' = k then remove_empty p t else t)) es)"

fun remove_all :: "string list list \<Rightarrow> node \<Rightarrow> node" where
  "remove_all [] t = t"
| "remove_all (p # ps) t = remove_all ps (remove_empty p t)"

text \<open>\<open>at_path\<close> rewrites the node at a path; \<^verbatim>\<open>docker/registry/v2/repositories\<close> is the base.\<close>

fun at_path :: "string list \<Rightarrow> (node \<Rightarrow> node) \<Rightarrow> node \<Rightarrow> node" where
  "at_path [] f t = (case t of File n \<Rightarrow> File n | Dir es \<Rightarrow> f (Dir es))"
| "at_path (k # p) f (File n) = File n"
| "at_path (k # p) f (Dir es) = Dir (map (\<lambda>(k', t). (k', if k' = k then at_path p f t else t)) es)"

definition repositories_path :: "string list" where
  "repositories_path = [''docker'', ''registry'', ''v2'', ''repositories'']"

definition cleanupEmptyRepoDirs :: "node option \<Rightarrow> node option" where
  "cleanupEmptyRepoDirs root =
     map_option (at_path repositories_path (\<lambda>base. remove_all (rev (walk_dirs base)) base)) root"

section \<open>Pruning\<close>

text \<open>The reference: drop every directory that holds no file at any depth.\<close>

fun prune :: "node \<Rightarrow> node" where
  "prune (File n) = File n"
| "prune (Dir es) = Dir (filter (\<lambda>(k, t). t \<noteq> Dir []) (map (\<lambda>(k, t). (k, prune t)) es))"

fun names_ok :: "node \<Rightarrow> bool" where
  "names_ok (File n) = True"
| "names_ok (Dir es) = (distinct (map fst es) \<and> list_all (\<lambda>e. names_ok (snd e)) es)"

fun has_file :: "node \<Rightarrow> bool" where
  "has_file (File n) = True"
| "has_file (Dir es) = list_ex (\<lambda>e. has_file (snd e)) es"

lemma remove_all_append: "remove_all (ps @ qs) t = remove_all qs (remove_all ps t)"
  by (induction ps arbitrary: t) simp_all

text \<open>Removals below an entry happen inside it.\<close>

lemma remove_inside:
  assumes "k \<notin> fst ` set xs" "k \<notin> fst ` set ys" "[] \<notin> set ps"
  shows "remove_all (map (\<lambda>p. k # p) ps) (Dir (xs @ (k, t) # ys)) = Dir (xs @ (k, remove_all ps t) # ys)"
  using assms(3)
proof (induction ps arbitrary: t)
  case Nil
  then show ?case by simp
next
  case (Cons p ps)
  have "map (\<lambda>(k', t). (k', if k' = k then f t else t)) zs = zs" if "k \<notin> fst ` set zs" for zs and f :: "node \<Rightarrow> node"
    using that by (induction zs) auto
  moreover have "p \<noteq> []" using Cons.prems by auto
  ultimately show ?case using assms Cons by simp
qed

lemma remove_entry:
  assumes "k \<notin> fst ` set xs" "k \<notin> fst ` set ys"
  shows "remove_empty [k] (Dir (xs @ (k, t) # ys)) = Dir (xs @ (if t = Dir [] then [] else [(k, t)]) @ ys)"
proof -
  have "filter (\<lambda>(k', t). \<not> (k' = k \<and> t = Dir [])) zs = zs" if "k \<notin> fst ` set zs" for zs
    using that by (induction zs) auto
  with assms show ?thesis by simp
qed

lemma walk_dirs_nonempty: "[] \<notin> set (walk_dirs t)"
  by (cases t) (auto split: node.splits)

definition entry_dirs :: "string \<times> node \<Rightarrow> string list list" where
  "entry_dirs e = (case snd e of File _ \<Rightarrow> [] | Dir _ \<Rightarrow> [fst e] # map (\<lambda>p. fst e # p) (walk_dirs (snd e)))"

definition pruned :: "(string \<times> node) list \<Rightarrow> (string \<times> node) list" where
  "pruned es = filter (\<lambda>(k, t). t \<noteq> Dir []) (map (\<lambda>(k, t). (k, prune t)) es)"

lemma pruned_keys: "fst ` set (pruned es) \<subseteq> fst ` set es"
  by (force simp: pruned_def)

lemma remove_entries:
  assumes IH: "\<And>e. e \<in> set es \<Longrightarrow> names_ok (snd e) \<Longrightarrow> remove_all (rev (walk_dirs (snd e))) (snd e) = prune (snd e)"
  shows "distinct (map fst (xs @ es)) \<Longrightarrow> list_all (\<lambda>e. names_ok (snd e)) es \<Longrightarrow>
    remove_all (rev (concat (map entry_dirs es))) (Dir (xs @ es)) = Dir (xs @ pruned es)"
  using IH
proof (induction es arbitrary: xs)
  case Nil
  then show ?case by (simp add: pruned_def)
next
  case (Cons e es)
  obtain k t where e: "e = (k, t)" by (cases e)
  have "remove_all (rev (concat (map entry_dirs es))) (Dir ((xs @ [e]) @ es)) = Dir ((xs @ [e]) @ pruned es)"
    by (rule Cons.IH) (use Cons.prems in auto)
  then have tail: "remove_all (rev (concat (map entry_dirs es))) (Dir (xs @ e # es)) = Dir (xs @ e # pruned es)"
    by simp
  have fresh: "k \<notin> fst ` set xs" "k \<notin> fst ` set (pruned es)"
    using Cons.prems(1) pruned_keys[of es] by (auto simp: e)
  have t: "remove_all (rev (walk_dirs t)) t = prune t" using Cons.prems(2) Cons.prems(3)[of e] by (simp add: e)
  show ?case
  proof (cases t)
    case (File n)
    then have "entry_dirs e = []" by (simp add: e entry_dirs_def)
    with tail File show ?thesis by (simp add: e pruned_def)
  next
    case (Dir fs)
    let ?below = "map (\<lambda>p. k # p) (walk_dirs t)"
    have "rev (concat (map entry_dirs (e # es))) = rev (concat (map entry_dirs es)) @ map (\<lambda>p. k # p) (rev (walk_dirs t)) @ [[k]]"
      by (simp add: e entry_dirs_def Dir rev_map)
    then have "remove_all (rev (concat (map entry_dirs (e # es)))) (Dir (xs @ e # es)) =
      remove_all [[k]] (remove_all (map (\<lambda>p. k # p) (rev (walk_dirs t))) (Dir (xs @ (k, t) # pruned es)))"
      by (simp only: remove_all_append tail[unfolded e] e)
    also have "\<dots> = remove_all [[k]] (Dir (xs @ (k, prune t) # pruned es))"
      using remove_inside[OF fresh, of "rev (walk_dirs t)" t] walk_dirs_nonempty[of t] t by simp
    also have "\<dots> = Dir (xs @ (if prune t = Dir [] then [] else [(k, prune t)]) @ pruned es)"
      using remove_entry[OF fresh, of "prune t"] by simp
    also have "\<dots> = Dir (xs @ pruned (e # es))" by (simp add: pruned_def e)
    finally show ?thesis .
  qed
qed

lemma remove_all_prune: "names_ok t \<Longrightarrow> remove_all (rev (walk_dirs t)) t = prune t"
proof (induction t)
  case (File n)
  then show ?case by simp
next
  case (Dir es)
  have "remove_all (rev (walk_dirs (snd e))) (snd e) = prune (snd e)"
    if "e \<in> set es" "names_ok (snd e)" for e
    using Dir.IH[of e "snd e"] that by (cases e) auto
  moreover have "walk_dirs (Dir es) = concat (map entry_dirs es)"
    by (simp add: entry_dirs_def cong: map_cong)
  ultimately show ?case
    using remove_entries[of es "[]"] Dir.prems by (simp add: pruned_def)
qed

lemma prune_empty_iff: "prune t = Dir [] \<longleftrightarrow> \<not> has_file t"
proof (induction t)
  case (Dir es)
  then show ?case by (fastforce simp: filter_empty_conv list_ex_iff)
qed simp

text \<open>The tree around the base.\<close>

definition data_dir :: "node \<Rightarrow> node" where
  "data_dir base = Dir [(''docker'', Dir [(''registry'', Dir [(''v2'', Dir [(''repositories'', base)])])])]"

text \<open>
  Cleaning up after the collector removes exactly the directories below
  \<^verbatim>\<open>docker/registry/v2/repositories\<close> that contain no file at any depth and nothing else:
  deleting the collected directories deepest first is the same as pruning from the leaves.
\<close>

theorem cleanup_prunes:
  assumes "names_ok (Dir es)"
  shows "cleanupEmptyRepoDirs (Some (data_dir (Dir es))) = Some (data_dir (prune (Dir es))) \<and>
    (\<forall>t. prune t = Dir [] \<longleftrightarrow> \<not> has_file t)"
  using remove_all_prune[OF assms] prune_empty_iff
  by (simp add: cleanupEmptyRepoDirs_def repositories_path_def data_dir_def)

theorem cleanup_prunes_witness:
  "cleanupEmptyRepoDirs (Some (data_dir (Dir [(''a'', Dir [(''b'', Dir [])]), (''c'', Dir [(''d'', File 3)])]))) =
   Some (data_dir (Dir [(''c'', Dir [(''d'', File 3)])]))"
  using cleanup_prunes[of "[(''a'', Dir [(''b'', Dir [])]), (''c'', Dir [(''d'', File 3)])]"] by simp

end
