(* ===== verification/GC_Run.thy ===== *)
theory GC_Run
  imports GC Disk Encoding
begin

text \<open>
  A garbage-collection cycle in \<^verbatim>\<open>server.go\<close>: the single-run gate (\<^verbatim>\<open>beginGC\<close>, \<^verbatim>\<open>endGC\<close>), the
  metadata sweep and the blob collector behind it (\<^verbatim>\<open>RunRegistryGC\<close>, \<^verbatim>\<open>RunBlobGC\<close>, \<^verbatim>\<open>RunGC\<close>),
  and the endpoints \<^verbatim>\<open>/api/gc/run\<close> and \<^verbatim>\<open>/api/gc/status\<close>. The machine it runs on is the record
  \<open>host\<close>; \<^verbatim>\<open>registry garbage-collect\<close> is its field \<open>ho_collect\<close>, which gets the environment,
  the config path and the tree of the data directory. The end of the theory interleaves any
  number of cycles and pushes over the two atomic flags.
\<close>

section \<open>The gate\<close>

record gate =
  gt_busy :: bool
  gt_running :: bool

definition open_gate :: gate where
  "open_gate = \<lparr>gt_busy = False, gt_running = False\<rparr>"

definition beginGC :: "gate \<Rightarrow> bool \<times> gate" where
  "beginGC g = (if gt_busy g then (False, g) else (True, g\<lparr>gt_busy := True, gt_running := True\<rparr>))"

definition endGC :: "gate \<Rightarrow> gate" where
  "endGC g = g\<lparr>gt_running := False, gt_busy := False\<rparr>"

section \<open>Paths\<close>

text \<open>The machine a collection runs on.\<close>

record host =
  ho_wd :: "string option"
  ho_lookpath :: "string \<Rightarrow> string option"
  ho_stat :: "string \<Rightarrow> string option"
  ho_read :: "string \<Rightarrow> string option"
  ho_symlinks :: "string \<Rightarrow> string option"
  ho_environ :: "string list"
  ho_collect :: "string list \<Rightarrow> string \<Rightarrow> node \<Rightarrow> string \<times> string option \<times> node"

text \<open>\<open>ho_lookpath\<close> and \<open>ho_stat\<close> return the text of the error, None on success.\<close>

definition Abs :: "host \<Rightarrow> string \<Rightarrow> string option" where
  "Abs h p = (if HasPrefix p ''/'' then Some (Clean p)
              else map_option (\<lambda>wd. Clean (wd @ ''/'' @ p)) (ho_wd h))"

definition sameDirectory :: "host \<Rightarrow> string \<Rightarrow> string \<Rightarrow> bool" where
  "sameDirectory h a b =
     (let aa = (case Abs h a of Some p \<Rightarrow> p | None \<Rightarrow> Clean a);
          bb = (case Abs h b of Some p \<Rightarrow> p | None \<Rightarrow> Clean b)
      in if aa = bb then True
         else case (ho_symlinks h aa, ho_symlinks h bb) of
           (Some ra, Some rb) \<Rightarrow> ra = rb | _ \<Rightarrow> False)"

section \<open>The config and the output of the collector\<close>

definition newline :: string where "newline = [CHR 0x0A]"

definition quotes :: string where "quotes = [CHR 0x22, CHR 0x27]"

fun root_line :: "string list \<Rightarrow> string option" where
  "root_line [] = None"
| "root_line (line # lines) =
     (let l = TrimSpace line in
      if l = [] \<or> HasPrefix l ''#'' then root_line lines
      else if \<not> HasPrefix l ''rootdirectory:'' then root_line lines
      else let v = TrimSpace (TrimPrefix l ''rootdirectory:'');
               v1 = (case Index v '' #'' of None \<Rightarrow> v | Some i \<Rightarrow> TrimSpace (take i v))
           in Some (Trim v1 quotes))"

definition registryRootDirectory :: "host \<Rightarrow> string \<Rightarrow> string" where
  "registryRootDirectory h path =
     (case ho_read h path of
        None \<Rightarrow> []
      | Some text \<Rightarrow>
          (case root_line (Split text newline) of
             None \<Rightarrow> []
           | Some v \<Rightarrow> if v = [] then [] else (case Abs h v of Some p \<Rightarrow> p | None \<Rightarrow> v)))"

definition registryChildEnv :: "string list \<Rightarrow> string list" where
  "registryChildEnv parent = filter (\<lambda>kv. \<not> HasPrefix kv ''REGISTRY_'') parent"

definition countGCDeletions :: "string \<Rightarrow> int" where
  "countGCDeletions out =
     int (length (filter (\<lambda>line. Contains line ''Deleting blob'' \<or> Contains line ''Deleting manifest'')
       (Split out newline)))"

definition truncateOutput :: "string \<Rightarrow> string" where
  "truncateOutput s =
     (let t = TrimSpace s in if length t > 2000 then drop (length t - 2000) t else t)"

section \<open>The blob collector\<close>

datatype blob_err =
  NoBinary string | NoConfig string string | OtherRoot string string string
| CollectFailed string string

definition defaultRegistryConfigPath :: string where
  "defaultRegistryConfigPath = ''/etc/distribution/config.yml''"

text \<open>\<open>dir\<close> is REGISTRY_DATA_DIR; the empty path has no tree.\<close>

definition data_tree :: "string \<Rightarrow> node \<Rightarrow> node option" where
  "data_tree dir t = (if dir = [] then None else Some t)"

definition runBlobGC ::
    "host \<Rightarrow> string \<Rightarrow> string \<Rightarrow> node \<Rightarrow> (blob_err + int \<times> int) \<times> node" where
  "runBlobGC h config dir t =
     (let configPath = (if config = [] then defaultRegistryConfigPath else config) in
      case ho_lookpath h ''registry'' of
        Some e \<Rightarrow> (Inl (NoBinary e), t)
      | None \<Rightarrow>
          (case ho_stat h configPath of
             Some e \<Rightarrow> (Inl (NoConfig configPath e), t)
           | None \<Rightarrow>
               (let root = registryRootDirectory h configPath in
                if root \<noteq> [] \<and> dir \<noteq> [] \<and> \<not> sameDirectory h root dir
                then (Inl (OtherRoot configPath root dir), t)
                else
                  (let before = dirSizeBytes (data_tree dir t) in
                   case ho_collect h (registryChildEnv (ho_environ h)) configPath t of
                     (out, Some e, t1) \<Rightarrow> (Inl (CollectFailed e (truncateOutput out)), t1)
                   | (out, None, t1) \<Rightarrow>
                       (let freed = wrap64 (before - dirSizeBytes (data_tree dir t1));
                            freed' = (if freed < 0 then 0 else freed)
                        in (Inr (countGCDeletions out, freed'),
                            case cleanupEmptyRepoDirs (data_tree dir t1) of
                              None \<Rightarrow> t1 | Some t2 \<Rightarrow> t2))))))"

section \<open>The cycle\<close>

record 'r gc_world =
  gw_gate :: gate
  gw_world :: "'r world"
  gw_tree :: node

record gc_cfg =
  gf_config :: string
  gf_data :: string

datatype meta_err = AlreadyRunning | ContextDone string | StoreFailed serr

record gc_result =
  gr_deleted :: int
  gr_blobs :: int
  gr_freed :: int
  gr_blob_error :: "blob_err option"
  gr_meta_error :: "meta_err option"
  gr_skipped :: bool
  gr_busy :: bool

definition no_result :: gc_result where
  "no_result = \<lparr>gr_deleted = 0, gr_blobs = 0, gr_freed = 0, gr_blob_error = None,
     gr_meta_error = None, gr_skipped = False, gr_busy = False\<rparr>"

text \<open>\<open>cancelled\<close> is the error of the context when it ends before the drain delay does.\<close>

definition sleepCtx :: "int \<Rightarrow> string option \<Rightarrow> string option" where
  "sleepCtx d cancelled = (if d \<le> 0 then None else cancelled)"

definition gcDrainDelay :: int where "gcDrainDelay = 2"

definition closing :: "'r gc_world \<Rightarrow> 'r gc_world" where
  "closing g = g\<lparr>gw_gate := endGC (gw_gate g)\<rparr>"

definition sweep_in :: "int \<Rightarrow> 'r client \<Rightarrow> bool \<Rightarrow> 'r gc_world \<Rightarrow> sweep \<times> 'r gc_world" where
  "sweep_in now c everything g =
     (case runRegistryGC now c everything (gw_world g) of (sw, w1) \<Rightarrow> (sw, g\<lparr>gw_world := w1\<rparr>))"

definition blobs_in :: "host \<Rightarrow> gc_cfg \<Rightarrow> 'r gc_world \<Rightarrow> (blob_err + int \<times> int) \<times> 'r gc_world" where
  "blobs_in h cfg g =
     (case runBlobGC h (gf_config cfg) (gf_data cfg) (gw_tree g) of (r, t1) \<Rightarrow> (r, g\<lparr>gw_tree := t1\<rparr>))"

definition RunRegistryGC ::
    "int \<Rightarrow> 'r client \<Rightarrow> bool \<Rightarrow> 'r gc_world \<Rightarrow> (meta_err option \<times> int) \<times> 'r gc_world" where
  "RunRegistryGC now c everything g =
     (case beginGC (gw_gate g) of
        (False, _) \<Rightarrow> ((Some AlreadyRunning, 0), g)
      | (True, g1) \<Rightarrow>
          (case sweep_in now c everything (g\<lparr>gw_gate := g1\<rparr>) of (sw, g2) \<Rightarrow>
             ((map_option StoreFailed (sw_error sw), sw_deleted sw), closing g2)))"

definition RunBlobGC ::
    "host \<Rightarrow> gc_cfg \<Rightarrow> 'r gc_world \<Rightarrow> (blob_err + int \<times> int) option \<times> 'r gc_world" where
  "RunBlobGC h cfg g =
     (case beginGC (gw_gate g) of
        (False, _) \<Rightarrow> (None, g)
      | (True, g1) \<Rightarrow>
          (case blobs_in h cfg (g\<lparr>gw_gate := g1\<rparr>) of (r, g2) \<Rightarrow> (Some r, closing g2)))"

definition RunGC ::
    "int \<Rightarrow> 'r client \<Rightarrow> host \<Rightarrow> gc_cfg \<Rightarrow> string option \<Rightarrow> bool \<Rightarrow> 'r gc_world \<Rightarrow> gc_result \<times> 'r gc_world" where
  "RunGC now c h cfg cancelled everything g =
     (case beginGC (gw_gate g) of
        (False, _) \<Rightarrow> (no_result\<lparr>gr_meta_error := Some AlreadyRunning, gr_busy := True\<rparr>, g)
      | (True, gate1) \<Rightarrow>
          (let g1 = g\<lparr>gw_gate := gate1\<rparr> in
           case sleepCtx gcDrainDelay cancelled of
             Some e \<Rightarrow> (no_result\<lparr>gr_meta_error := Some (ContextDone e)\<rparr>, closing g1)
           | None \<Rightarrow>
               (case sweep_in now c everything g1 of (sw, g2) \<Rightarrow>
                 (case blobs_in h cfg g2 of (r, g3) \<Rightarrow>
                   (\<lparr>gr_deleted = sw_deleted sw,
                     gr_blobs = (case r of Inl _ \<Rightarrow> 0 | Inr (n, _) \<Rightarrow> n),
                     gr_freed = (case r of Inl _ \<Rightarrow> 0 | Inr (_, f) \<Rightarrow> f),
                     gr_blob_error = (case r of Inl e \<Rightarrow> Some e | Inr _ \<Rightarrow> None),
                     gr_meta_error = map_option StoreFailed (sw_error sw),
                     gr_skipped = sw_skipped sw, gr_busy = False\<rparr>, closing g3)))))"

text \<open>\<^verbatim>\<open>main.go\<close>: the daily run honours the retention window.\<close>

definition runGC :: "int \<Rightarrow> 'r client \<Rightarrow> host \<Rightarrow> gc_cfg \<Rightarrow> string option \<Rightarrow> 'r gc_world \<Rightarrow> gc_result \<times> 'r gc_world" where
  "runGC now c h cfg cancelled = RunGC now c h cfg cancelled False"

section \<open>The endpoints\<close>

text \<open>\<open>body\<close> is the decoded \<^verbatim>\<open>{"all": ...}\<close>, None when it does not decode.\<close>

definition gcRequestAll :: "request \<Rightarrow> bool option \<Rightarrow> bool" where
  "gcRequestAll rq body =
     (let v = ToLower (TrimSpace (rq_query rq ''all'')) in
      if v = ''true'' \<or> v = ''1'' then True
      else if Contains (rq_header rq ''Content-Type'') ''application/json''
      then (case body of Some b \<Rightarrow> b | None \<Rightarrow> False)
      else False)"

text \<open>The \<^verbatim>\<open>%q\<close> verb on a valid UTF-8 string of printable characters and ASCII controls.\<close>

definition quote_char :: "char \<Rightarrow> string" where
  "quote_char c =
     (if c = CHR 0x22 then [CHR 0x5C, CHR 0x22] else if c = CHR 0x5C then [CHR 0x5C, CHR 0x5C]
      else if c = CHR 0x07 then [CHR 0x5C] @ ''a'' else if c = CHR 0x08 then [CHR 0x5C] @ ''b''
      else if c = CHR 0x0C then [CHR 0x5C] @ ''f'' else if c = CHR 0x0A then [CHR 0x5C] @ ''n''
      else if c = CHR 0x0D then [CHR 0x5C] @ ''r'' else if c = CHR 0x09 then [CHR 0x5C] @ ''t''
      else if c = CHR 0x0B then [CHR 0x5C] @ ''v''
      else if (of_char c :: nat) < 32 \<or> c = CHR 0x7F then [CHR 0x5C] @ ''x'' @ HexEncode [c]
      else [c])"

definition go_quote :: "string \<Rightarrow> string" where
  "go_quote s = [CHR 0x22] @ concat (map quote_char s) @ [CHR 0x22]"

fun blob_error_text :: "blob_err \<Rightarrow> string" where
  "blob_error_text (NoBinary e) = ''registry binary not available in PATH: '' @ e"
| "blob_error_text (NoConfig path e) = ''registry config '' @ path @ '' is not readable: '' @ e"
| "blob_error_text (OtherRoot path rt dir) =
     ''refusing blob GC: config '' @ path @ '' rootdirectory='' @ go_quote rt @
     '' does not match REGISTRY_DATA_DIR='' @ go_quote dir @
     ''; run garbage-collect inside the registry container instead''"
| "blob_error_text (CollectFailed e out) =
     ''registry garbage-collect failed: '' @ e @ '' (output: '' @ out @ '')''"

definition handleGCRun ::
    "int \<Rightarrow> 'r client \<Rightarrow> host \<Rightarrow> gc_cfg \<Rightarrow> string option \<Rightarrow> request \<Rightarrow> bool option \<Rightarrow> 'r gc_world
     \<Rightarrow> gc_result reply \<times> 'r gc_world" where
  "handleGCRun now c h cfg cancelled rq body g =
     (if rq_method rq \<noteq> ''POST'' then (Fail 405, g)
      else if \<not> requireAdmin rq then (Fail 403, g)
      else let everything = gcRequestAll rq body in
        case RunGC now c h cfg cancelled everything g of (res, g1) \<Rightarrow>
          (case gr_meta_error res of
             Some _ \<Rightarrow> (Fail (if gr_busy res then 409 else 500), g1)
           | None \<Rightarrow>
               (let detail = ''deleted='' @ Itoa (gr_deleted res) @ '' blobDeleted='' @ Itoa (gr_blobs res) @
                      '' freed='' @ Itoa (gr_freed res) @ '' all='' @ bool_string everything @
                      (case gr_blob_error res of None \<Rightarrow> [] | Some e \<Rightarrow> '' blobError='' @ blob_error_text e)
                in (Reply 200 res,
                    g1\<lparr>gw_world := on_store (AddAudit now (currentUserID rq) ''gc.run'' [] [] [] ''ok'' detail)
                          (gw_world g1)\<rparr>))))"

definition handleGCStatus :: "request \<Rightarrow> gate \<Rightarrow> bool reply" where
  "handleGCStatus rq g = (if rq_method rq \<noteq> ''GET'' then Fail 405 else Reply 200 (gt_running g))"

section \<open>The gate is always given back\<close>

lemma begin_end: "beginGC g = (True, g1) \<Longrightarrow> \<not> gt_busy g \<and> gt_busy g1 \<and> gt_running g1 \<and> endGC g1 = endGC g"
  by (auto simp: beginGC_def endGC_def split: if_splits)

lemma cycle_parts_gate:
  "sweep_in now c everything g = (sw, g2) \<Longrightarrow> gw_gate g2 = gw_gate g"
  "blobs_in h cfg g = (r, g3) \<Longrightarrow> gw_gate g3 = gw_gate g"
  by (auto simp: sweep_in_def blobs_in_def split: prod.splits)

lemma endGC_endGC [simp]: "endGC g = open_gate" "gw_gate (closing w) = open_gate"
  by (simp_all add: endGC_def open_gate_def closing_def)

lemma entry_points_gate:
  "gt_busy (gw_gate g) \<Longrightarrow> snd (RunRegistryGC now c everything g) = g \<and> snd (RunBlobGC h cfg g) = g \<and>
     snd (RunGC now c h cfg cancelled everything g) = g"
  "\<not> gt_busy (gw_gate g) \<Longrightarrow> gw_gate (snd (RunRegistryGC now c everything g)) = open_gate \<and>
     gw_gate (snd (RunBlobGC h cfg g)) = open_gate \<and>
     gw_gate (snd (RunGC now c h cfg cancelled everything g)) = open_gate"
  by (auto simp: RunRegistryGC_def RunBlobGC_def RunGC_def beginGC_def Let_def split: prod.split option.split)

text \<open>
  C18. The gate of garbage collection: while it is taken every entry point (metadata only, blobs
  only, a whole cycle) refuses and changes nothing; otherwise the run may fail at any point - the
  drain delay cut short, the store or the registry in error, the collector refused or failing -
  and the gate is free again when it returns.
\<close>

theorem gc_gate_released:
  "(gt_busy (gw_gate g) \<longrightarrow>
      RunRegistryGC now c everything g = ((Some AlreadyRunning, 0), g) \<and> RunBlobGC h cfg g = (None, g) \<and>
      snd (RunGC now c h cfg cancelled everything g) = g \<and>
      gr_busy (fst (RunGC now c h cfg cancelled everything g))) \<and>
   (\<not> gt_busy (gw_gate g) \<longrightarrow>
      gw_gate (snd (RunRegistryGC now c everything g)) = open_gate \<and>
      gw_gate (snd (RunBlobGC h cfg g)) = open_gate \<and>
      gw_gate (snd (RunGC now c h cfg cancelled everything g)) = open_gate)"
  by (auto simp: RunRegistryGC_def RunBlobGC_def RunGC_def beginGC_def Let_def split: prod.split option.split)

definition idle_world :: "(string \<times> string) list gc_world" where
  "idle_world = \<lparr>gw_gate = open_gate, gw_world = \<lparr>w_store = empty_store, w_reg = [], w_events = []\<rparr>, gw_tree = Dir []\<rparr>"

definition demo_host :: host where
  "demo_host = \<lparr>ho_wd = Some ''/'', ho_lookpath = (\<lambda>_. None), ho_stat = (\<lambda>_. None),
     ho_read = (\<lambda>_. Some ''rootdirectory: /data # here''), ho_symlinks = (\<lambda>_. None),
     ho_environ = [''REGISTRY_DATA_DIR=/other'', ''PATH=/bin''],
     ho_collect = (\<lambda>env path t. (''Deleting blob: a'', None, Dir []))\<rparr>"

definition demo_gc_cfg :: gc_cfg where
  "demo_gc_cfg = \<lparr>gf_config = [], gf_data = ''/data/''\<rparr>"

definition busy_world :: "(string \<times> string) list gc_world" where
  "busy_world = idle_world\<lparr>gw_gate := \<lparr>gt_busy = True, gt_running = True\<rparr>\<rparr>"

theorem gc_gate_released_witness:
  "snd (RunBlobGC demo_host demo_gc_cfg busy_world) = busy_world \<and>
   gw_gate (snd (RunGC 0 (demo_client ''app'') demo_host demo_gc_cfg None True idle_world)) = open_gate"
proof -
  have "gt_busy (gw_gate busy_world)" "\<not> gt_busy (gw_gate idle_world)"
    by (simp_all add: busy_world_def idle_world_def open_gate_def)
  then show ?thesis
    using gc_gate_released[of busy_world 0 "demo_client ''app''" True demo_host demo_gc_cfg None]
      gc_gate_released[of idle_world 0 "demo_client ''app''" True demo_host demo_gc_cfg None] by simp
qed

section \<open>The collector only sees its own storage\<close>

definition same_on_clean :: "(string list \<Rightarrow> 'a) \<Rightarrow> (string list \<Rightarrow> 'a) \<Rightarrow> bool" where
  "same_on_clean f f' \<longleftrightarrow> (\<forall>env. (\<forall>kv \<in> set env. \<not> HasPrefix kv ''REGISTRY_'') \<longrightarrow> f env = f' env)"



section \<open>Cycles and pushes side by side\<close>

text \<open>
  Every goroutine that runs a cycle takes four atomic actions on the two flags: the
  compare-and-swap and the store of \<^verbatim>\<open>beginGC\<close>, the two stores of \<^verbatim>\<open>endGC\<close>. A push only loads
  \<^verbatim>\<open>gcRunning\<close> (\<open>Push True\<close> is one let through).
\<close>

datatype phase = Outside | Claimed | Inside | Leaving

record gc_state =
  gs_gate :: gate
  gs_phase :: "nat \<Rightarrow> phase"

datatype gc_event = Claim nat | Busy nat | Enter nat | Leave nat | Free nat | Push bool

definition move :: "(gate \<Rightarrow> gate) \<Rightarrow> nat \<Rightarrow> phase \<Rightarrow> gc_state \<Rightarrow> gc_state" where
  "move f i ph s = s\<lparr>gs_gate := f (gs_gate s), gs_phase := (gs_phase s)(i := ph)\<rparr>"

inductive gc_step :: "gc_state \<Rightarrow> gc_event \<Rightarrow> gc_state \<Rightarrow> bool" where
  claim: "gs_phase s i = Outside \<Longrightarrow> \<not> gt_busy (gs_gate s) \<Longrightarrow>
    gc_step s (Claim i) (move (gt_busy_update (\<lambda>_. True)) i Claimed s)"
| busy: "gs_phase s i = Outside \<Longrightarrow> gt_busy (gs_gate s) \<Longrightarrow> gc_step s (Busy i) s"
| enter: "gs_phase s i = Claimed \<Longrightarrow>
    gc_step s (Enter i) (move (gt_running_update (\<lambda>_. True)) i Inside s)"
| leave: "gs_phase s i = Inside \<Longrightarrow>
    gc_step s (Leave i) (move (gt_running_update (\<lambda>_. False)) i Leaving s)"
| free: "gs_phase s i = Leaving \<Longrightarrow>
    gc_step s (Free i) (move (gt_busy_update (\<lambda>_. False)) i Outside s)"
| push: "gc_step s (Push (\<not> gt_running (gs_gate s))) s"

inductive_cases gc_stepE: "gc_step s e s'"
inductive_cases push_stepE: "gc_step s (Push True) s'"

inductive gc_steps :: "gc_state \<Rightarrow> gc_state \<Rightarrow> bool" where
  none: "gc_steps s s"
| more: "gc_steps s s' \<Longrightarrow> gc_step s' e s'' \<Longrightarrow> gc_steps s s''"

definition gc_start :: gc_state where
  "gc_start = \<lparr>gs_gate = open_gate, gs_phase = (\<lambda>_. Outside)\<rparr>"

definition gate_ok :: "gc_state \<Rightarrow> bool" where
  "gate_ok s \<longleftrightarrow>
     (\<forall>i j. gs_phase s i \<noteq> Outside \<and> gs_phase s j \<noteq> Outside \<longrightarrow> i = j) \<and>
     (gt_busy (gs_gate s) \<longleftrightarrow> (\<exists>i. gs_phase s i \<noteq> Outside)) \<and>
     (gt_running (gs_gate s) \<longleftrightarrow> (\<exists>i. gs_phase s i = Inside))"

lemma gate_ok_step: "gc_step s e s' \<Longrightarrow> gate_ok s \<Longrightarrow> gate_ok s'"
proof (induction rule: gc_step.induct)
  case (claim s i)
  then have "gs_phase s j = Outside" for j by (auto simp: gate_ok_def)
  then show ?case using claim by (auto simp: gate_ok_def move_def)
next
  case (enter s i)
  then show ?case unfolding gate_ok_def move_def by (auto split: if_splits) (metis phase.distinct(1))+
next
  case (leave s i)
  then show ?case unfolding gate_ok_def move_def
    by (auto split: if_splits) (metis phase.distinct)+
next
  case (free s i)
  then have "gs_phase s i \<noteq> Outside" by simp
  with free have "gs_phase s j = Outside" if "j \<noteq> i" for j using that unfolding gate_ok_def by metis
  moreover have "gs_phase s k \<noteq> Inside" for k
    using free.hyps calculation[of k] by (cases "k = i") auto
  ultimately show ?case using free by (auto simp: gate_ok_def move_def)
qed auto

lemma gate_ok_reachable: "gc_steps gc_start s \<Longrightarrow> gate_ok s"
proof (induction gc_start s rule: gc_steps.induct)
  case none
  show ?case by (simp add: gate_ok_def gc_start_def open_gate_def)
qed (auto intro: gate_ok_step)

text \<open>
  C16. Two collections never overlap: whatever the interleaving of cycles and pushes, at most one
  cycle is past the gate, the push gate is closed for as long as that cycle is between
  \<^verbatim>\<open>beginGC\<close> and \<^verbatim>\<open>endGC\<close> and no push gets through it there, and when no cycle is inside both flags
  are down.
\<close>

theorem gc_mutual_exclusion:
  assumes "gc_steps gc_start s"
  shows "(gs_phase s i \<noteq> Outside \<and> gs_phase s j \<noteq> Outside \<longrightarrow> i = j) \<and>
    (gs_phase s i = Inside \<longrightarrow> gt_running (gs_gate s) \<and> (\<nexists>s'. gc_step s (Push True) s')) \<and>
    ((\<forall>k. gs_phase s k = Outside) \<longrightarrow> gs_gate s = open_gate)"
  using gate_ok_reachable[OF assms]
  by (auto simp: gate_ok_def open_gate_def elim!: push_stepE)

text \<open>A run of the machine with its events, and the actions a cycle still has before it.\<close>

inductive gc_run :: "gc_state \<Rightarrow> gc_event list \<Rightarrow> gc_state \<Rightarrow> bool" where
  run_none: "gc_run s [] s"
| run_more: "gc_step s e s' \<Longrightarrow> gc_run s' es s'' \<Longrightarrow> gc_run s (e # es) s''"

fun rest_of_cycle :: "nat \<Rightarrow> phase \<Rightarrow> gc_event list" where
  "rest_of_cycle i Outside = []"
| "rest_of_cycle i Claimed = [Enter i, Leave i, Free i]"
| "rest_of_cycle i Inside = [Leave i, Free i]"
| "rest_of_cycle i Leaving = [Free i]"

lemma run_steps: "gc_run s es s' \<Longrightarrow> gc_steps s0 s \<Longrightarrow> gc_steps s0 s'"
  by (induction rule: gc_run.induct) (auto intro: gc_steps.more)

lemma leaving_finishes:
  assumes "gs_phase s i = Leaving"
  shows "\<exists>s'. gc_run s [Free i] s' \<and> gs_phase s' = (gs_phase s)(i := Outside)"
  using run_more[OF free[OF assms] run_none] by (auto simp: move_def)

lemma inside_finishes:
  assumes "gs_phase s i = Inside"
  shows "\<exists>s'. gc_run s [Leave i, Free i] s' \<and> gs_phase s' = (gs_phase s)(i := Outside)"
  using run_more[OF leave[OF assms]] leaving_finishes[of "move (gt_running_update (\<lambda>_. False)) i Leaving s" i]
  by (fastforce simp: move_def)

lemma claimed_finishes:
  assumes "gs_phase s i = Claimed"
  shows "\<exists>s'. gc_run s [Enter i, Leave i, Free i] s' \<and> gs_phase s' = (gs_phase s)(i := Outside)"
  using run_more[OF enter[OF assms]] inside_finishes[of "move (gt_running_update (\<lambda>_. True)) i Inside s" i]
  by (fastforce simp: move_def)

lemma cycle_finishes:
  "\<exists>s'. gc_run s (rest_of_cycle i (gs_phase s i)) s' \<and> gs_phase s' = (gs_phase s)(i := Outside)"
proof (cases "gs_phase s i")
  case Outside
  then show ?thesis using run_none by (intro exI[of _ s]) (auto simp: fun_upd_idem)
qed (simp_all add: claimed_finishes inside_finishes leaving_finishes)

lemma all_outside_open: "gate_ok s \<Longrightarrow> \<forall>k. gs_phase s k = Outside \<Longrightarrow> gs_gate s = open_gate"
  by (simp add: gate_ok_def open_gate_def)

lemma holder_reopens:
  assumes "gc_steps gc_start s" "gs_phase s i \<noteq> Outside"
  shows "\<exists>s'. gc_run s (rest_of_cycle i (gs_phase s i)) s' \<and> gs_gate s' = open_gate \<and>
    (\<forall>k. gs_phase s' k = Outside)"
proof -
  have alone: "gs_phase s k = Outside" if "k \<noteq> i" for k
    using gate_ok_reachable[OF assms(1)] assms(2) that unfolding gate_ok_def by metis
  obtain s' where s': "gc_run s (rest_of_cycle i (gs_phase s i)) s'" "gs_phase s' = (gs_phase s)(i := Outside)"
    using cycle_finishes by blast
  then have "\<forall>k. gs_phase s' k = Outside" using alone by simp
  with s'(1) all_outside_open[OF gate_ok_reachable[OF run_steps[OF s'(1) assms(1)]]] show ?thesis by blast
qed

lemma whole_cycle:
  assumes "gs_phase s i = Outside" "\<not> gt_busy (gs_gate s)"
  shows "\<exists>s'. gc_run s [Claim i, Enter i, Leave i, Free i] s' \<and> gs_phase s' = gs_phase s"
  using run_more[OF claim[OF assms]] claimed_finishes[of "move (gt_busy_update (\<lambda>_. True)) i Claimed s" i] assms(1)
  by (fastforce simp: move_def fun_upd_idem)

text \<open>
  C17. The gate does not stay closed. In every reachable state of cycles and pushes the goroutine
  that is past the gate reaches, by the rest of its own actions (at most three, whoever else waits),
  a state with both flags down and nobody inside. And these actions are those of the code: a call
  of any of the three entry points by a goroutine outside (metadata only, blobs only, a whole
  cycle, whatever their failures) leaves the gate as the machine has it after exactly the four
  actions of one cycle of that goroutine, which is open; when the gate is taken it is the one
  action of being refused, and the call changes nothing.
\<close>

theorem gc_gate_reopens:
  assumes "gc_steps gc_start s"
  shows "(\<forall>i. gs_phase s i \<noteq> Outside \<longrightarrow>
      (\<exists>s'. gc_run s (rest_of_cycle i (gs_phase s i)) s' \<and> gs_gate s' = open_gate \<and>
        (\<forall>k. gs_phase s' k = Outside))) \<and>
    (\<forall>i g g'. gs_phase s i = Outside \<and> gw_gate g = gs_gate s \<and>
      g' \<in> {snd (RunRegistryGC now c everything g), snd (RunBlobGC h cfg g),
            snd (RunGC now c h cfg cancelled everything g)} \<longrightarrow>
      (if gt_busy (gs_gate s) then gc_run s [Busy i] s \<and> g' = g
       else \<exists>s'. gc_run s [Claim i, Enter i, Leave i, Free i] s' \<and> gs_phase s' = gs_phase s \<and>
         gs_gate s' = gw_gate g' \<and> gs_gate s' = open_gate))"
proof (intro conjI allI impI)
  fix i assume "gs_phase s i \<noteq> Outside"
  then show "\<exists>s'. gc_run s (rest_of_cycle i (gs_phase s i)) s' \<and> gs_gate s' = open_gate \<and>
      (\<forall>k. gs_phase s' k = Outside)"
    by (rule holder_reopens[OF assms])
next
  fix i g g'
  assume a: "gs_phase s i = Outside \<and> gw_gate g = gs_gate s \<and>
    g' \<in> {snd (RunRegistryGC now c everything g), snd (RunBlobGC h cfg g),
          snd (RunGC now c h cfg cancelled everything g)}"
  show "if gt_busy (gs_gate s) then gc_run s [Busy i] s \<and> g' = g
       else \<exists>s'. gc_run s [Claim i, Enter i, Leave i, Free i] s' \<and> gs_phase s' = gs_phase s \<and>
         gs_gate s' = gw_gate g' \<and> gs_gate s' = open_gate"
  proof (cases "gt_busy (gs_gate s)")
    case True
    then show ?thesis using a run_more[OF busy[of s i] run_none] entry_points_gate(1)[of g] by auto
  next
    case False
    with whole_cycle[of s i] a obtain s' where
      s': "gc_run s [Claim i, Enter i, Leave i, Free i] s'" "gs_phase s' = gs_phase s" by blast
    have ok: "gate_ok s" by (rule gate_ok_reachable[OF assms])
    then have "\<forall>k. gs_phase s' k = Outside" using False s'(2) by (auto simp: gate_ok_def)
    then have "gs_gate s' = open_gate"
      using all_outside_open gate_ok_reachable[OF run_steps[OF s'(1) assms]] by blast
    with s' False a entry_points_gate(2)[of g] show ?thesis by auto
  qed
qed

text \<open>\<open>beginGC\<close> and \<open>endGC\<close> are these steps.\<close>

lemma beginGC_steps:
  assumes "beginGC (gs_gate s) = (True, g)" "gs_phase s i = Outside"
  shows "gc_steps s (s\<lparr>gs_gate := g, gs_phase := (gs_phase s)(i := Inside)\<rparr>)"
proof -
  let ?s1 = "move (gt_busy_update (\<lambda>_. True)) i Claimed s"
  have "\<not> gt_busy (gs_gate s)" using assms(1) by (auto simp: beginGC_def split: if_splits)
  from claim[of s i, OF assms(2) this] have 1: "gc_step s (Claim i) ?s1" .
  have "gc_step ?s1 (Enter i) (move (gt_running_update (\<lambda>_. True)) i Inside ?s1)"
    by (rule enter) (simp add: move_def)
  then have "gc_steps s (move (gt_running_update (\<lambda>_. True)) i Inside ?s1)"
    by (rule more[OF more[OF none 1]])
  moreover have "move (gt_running_update (\<lambda>_. True)) i Inside ?s1 = s\<lparr>gs_gate := g, gs_phase := (gs_phase s)(i := Inside)\<rparr>"
    using assms(1) by (auto simp: move_def beginGC_def split: if_splits)
  ultimately show ?thesis by simp
qed

lemma gc_started: "gc_steps gc_start (gc_start\<lparr>gs_gate := \<lparr>gt_busy = True, gt_running = True\<rparr>,
    gs_phase := (\<lambda>_. Outside)(0 := Inside)\<rparr>)"
  using beginGC_steps[of gc_start _ 0] by (simp add: beginGC_def gc_start_def open_gate_def)

theorem gc_mutual_exclusion_witness:
  "\<nexists>s'. gc_step (gc_start\<lparr>gs_gate := \<lparr>gt_busy = True, gt_running = True\<rparr>,
      gs_phase := (\<lambda>_. Outside)(0 := Inside)\<rparr>) (Push True) s'"
  using gc_mutual_exclusion[OF gc_started, of 0 0] by simp

theorem gc_gate_reopens_witness:
  "(\<exists>s'. gc_run (gc_start\<lparr>gs_gate := \<lparr>gt_busy = True, gt_running = True\<rparr>,
      gs_phase := (\<lambda>_. Outside)(0 := Inside)\<rparr>) [Leave 0, Free 0] s' \<and> gs_gate s' = open_gate) \<and>
   (\<exists>s'. gc_run gc_start [Claim 3, Enter 3, Leave 3, Free 3] s' \<and>
      gs_gate s' = gw_gate (snd (RunGC 0 (demo_client ''app'') demo_host demo_gc_cfg None True idle_world)))"
proof
  show "\<exists>s'. gc_run (gc_start\<lparr>gs_gate := \<lparr>gt_busy = True, gt_running = True\<rparr>,
      gs_phase := (\<lambda>_. Outside)(0 := Inside)\<rparr>) [Leave 0, Free 0] s' \<and> gs_gate s' = open_gate"
    using conjunct1[OF gc_gate_reopens[OF gc_started], THEN spec[of _ 0]] by auto
  have "gs_phase gc_start 3 = Outside" "gw_gate idle_world = gs_gate gc_start" "\<not> gt_busy (gs_gate gc_start)"
    by (simp_all add: gc_start_def idle_world_def open_gate_def)
  then show "\<exists>s'. gc_run gc_start [Claim 3, Enter 3, Leave 3, Free 3] s' \<and>
      gs_gate s' = gw_gate (snd (RunGC 0 (demo_client ''app'') demo_host demo_gc_cfg None True idle_world))"
    using conjunct2[OF gc_gate_reopens[OF gc_steps.none, of 0 "demo_client ''app''" True demo_host demo_gc_cfg None],
        THEN spec[of _ 3], THEN spec[of _ idle_world]] by auto
qed

end
