(* ===== verification/V2_Proxy.thy ===== *)
theory V2_Proxy
  imports GC_Run Auth
begin

text \<open>
  The \<^verbatim>\<open>/v2/\<close> reverse proxy (\<^verbatim>\<open>v2_proxy.go\<close>): what it refuses, what it records, the headers it
  sends upstream, the snapshots it takes before a manifest is overwritten or deleted and what
  it does with the answer. The transport is a parameter: it gets the outgoing request and its body
  and returns a response or the text of an error. The proxy's registry client is the client of
  the other handlers. Reading the body of a catalog response does not fail.
\<close>

section \<open>Paths\<close>

text \<open>Repository and reference of a manifest path; None when the marker occurs twice.\<close>

definition manifest_ref :: "string \<Rightarrow> (string \<times> string) option" where
  "manifest_ref path =
     (if \<not> Contains path ''/manifests/'' then None
      else case Split path ''/manifests/'' of
        [a, b] \<Rightarrow> Some (TrimPrefix a ''/v2/'', TrimSpace b) | _ \<Rightarrow> None)"

section \<open>Refusals\<close>

definition push_create_refused :: "string \<Rightarrow> store \<Rightarrow> bool \<times> store" where
  "push_create_refused repo s =
     (case pushCreateAllowed repo s of
        (True, s1) \<Rightarrow> (False, s1)
      | (False, s1) \<Rightarrow>
          (case (case ns_parts repo of Some (a, b) \<Rightarrow> GetRepositoryByNamespacedName a b s1
                 | None \<Rightarrow> GetRepositoryByNamespacedName [] repo s1) of
             Inl _ \<Rightarrow> (True, s1) | Inr _ \<Rightarrow> (False, s1)))"

definition immutable_refused :: "'r client \<Rightarrow> string \<Rightarrow> string \<Rightarrow> 'r \<Rightarrow> store \<Rightarrow> bool \<times> store" where
  "immutable_refused c repo ref r s =
     (case resolveProtectionMode repo s of (mode, s1) \<Rightarrow>
        (if mode = ''overwrite'' then False
         else if HasPrefix ref ''sha256:'' then False
         else case Digest c repo ref r of
           Inl _ \<Rightarrow> False
         | Inr _ \<Rightarrow> checkImmutableTag ref (mode = ''immutable'') s1 \<noteq> None, s1))"

text \<open>The checks on PUT of a manifest: the status of the refusal, if any.\<close>

definition put_checks :: "'r client \<Rightarrow> request \<Rightarrow> 'r world \<Rightarrow> int option \<times> 'r world" where
  "put_checks c rq w =
     (if rq_method rq \<noteq> ''PUT'' then (None, w)
      else case manifest_ref (rq_path rq) of
        None \<Rightarrow> (None, w)
      | Some (repo, ref) \<Rightarrow>
          (case push_create_refused repo (w_store w) of
             (True, s1) \<Rightarrow> (Some 403, w\<lparr>w_store := s1\<rparr>)
           | (False, s1) \<Rightarrow>
               (case immutable_refused c repo ref (w_reg w) s1 of (no, s2) \<Rightarrow>
                  (if no then Some 409 else None, w\<lparr>w_store := s2\<rparr>))))"

section \<open>Statistics\<close>

definition track_stats :: "int \<Rightarrow> request \<Rightarrow> store \<Rightarrow> store" where
  "track_stats now rq s =
     (case manifest_ref (rq_path rq) of
        None \<Rightarrow> s
      | Some (repo, ref) \<Rightarrow>
          if repo = [] then s
          else let detail = (case rq_user rq of None \<Rightarrow> ''anonymous'' | Some _ \<Rightarrow> []);
                   record = (\<lambda>action. snd \<circ> AddAudit now (currentUserID rq) action repo ref [] ''ok'' detail)
               in if rq_method rq = ''GET'' \<or> rq_method rq = ''HEAD''
                  then record ''pull'' (snd (IncrementRepoPull now repo s))
                  else if rq_method rq = ''PUT''
                  then record ''push'' (snd (IncrementRepoPush now repo s))
                  else s)"

section \<open>The outgoing request\<close>

text \<open>Scheme and host of the registry, None when its URL did not parse.\<close>

record target =
  tg_scheme :: string
  tg_host :: string

definition basic_header :: "string \<Rightarrow> string \<Rightarrow> string" where
  "basic_header u p = ''Basic '' @ StdEncode (u @ '':'' @ p)"

definition ApplyAuth :: "client_cfg \<Rightarrow> (string \<Rightarrow> string) \<Rightarrow> string \<Rightarrow> string" where
  "ApplyAuth cfg h = (case applyAuth cfg of
     NoAuth \<Rightarrow> h
   | BearerAuth t \<Rightarrow> h(''Authorization'' := ''Bearer '' @ t)
   | BasicAuth u p \<Rightarrow> h(''Authorization'' := basic_header u p))"

definition upstream_auth :: "string \<Rightarrow> client_cfg \<Rightarrow> (string \<Rightarrow> string) \<Rightarrow> string \<Rightarrow> string" where
  "upstream_auth mode cfg h =
     (if mode \<in> set [''ui'', ''basic'', ''same''] then
        (let g = (if HasPrefix (h ''Authorization'') ''Bearer '' then h(''Authorization'' := []) else h)
         in if g ''Authorization'' = [] \<and> cc_user cfg \<noteq> [] \<and> cc_pass cfg \<noteq> []
            then g(''Authorization'' := basic_header (cc_user cfg) (cc_pass cfg)) else g)
      else if mode = ''off'' then h(''Authorization'' := [])
      else ApplyAuth cfg h)"

definition director_headers :: "string \<Rightarrow> client_cfg \<Rightarrow> string \<Rightarrow> (string \<Rightarrow> string) \<Rightarrow> string \<Rightarrow> string" where
  "director_headers mode cfg path h =
     (let h1 = h(''X-Forwarded-Proto'' := [], ''X-Forwarded-Host'' := [], ''X-Forwarded-Port'' := []);
          h2 = upstream_auth mode cfg h1
      in if h2 ''Accept'' = [] \<and> Contains path ''/manifests/'' then h2(''Accept'' := ManifestAccept) else h2)"

text \<open>
  What the transport sees; the user of the context is not part of a request on the wire. What the
  library's reverse proxy adds of its own (the path of the registry's URL, the hop-by-hop headers)
  belongs to the transport.
\<close>

definition director :: "string \<Rightarrow> client_cfg \<Rightarrow> target \<Rightarrow> request \<Rightarrow> request" where
  "director mode cfg t rq =
     rq\<lparr>rq_host := tg_host t, rq_header := director_headers mode cfg (rq_path rq) (rq_header rq),
        rq_user := None\<rparr>"

type_synonym 'r transport = "target \<Rightarrow> request \<Rightarrow> string \<Rightarrow> 'r \<Rightarrow> (string + wire_resp) \<times> 'r"

section \<open>The answer\<close>

text \<open>\<^verbatim>\<open>json.Marshal\<close> of a string of ASCII and of a catalog.\<close>

definition json_char :: "char \<Rightarrow> string" where
  "json_char c =
     (if c = CHR 0x22 \<or> c = CHR 0x5C then [CHR 0x5C, c]
      else if c = CHR 0x0A then [CHR 0x5C] @ ''n'' else if c = CHR 0x0D then [CHR 0x5C] @ ''r''
      else if c = CHR 0x09 then [CHR 0x5C] @ ''t'' else if c = CHR 0x08 then [CHR 0x5C] @ ''b''
      else if c = CHR 0x0C then [CHR 0x5C] @ ''f''
      else if (of_char c :: nat) < 32 \<or> c \<in> set ''<>&'' then [CHR 0x5C] @ ''u00'' @ HexEncode [c]
      else [c])"

definition json_string :: "string \<Rightarrow> string" where
  "json_string s = [CHR 0x22] @ concat (map json_char s) @ [CHR 0x22]"

definition marshal_catalog :: "string list \<Rightarrow> string" where
  "marshal_catalog repos =
     ''{'' @ json_string ''repositories'' @ '':['' @ Join (map json_string repos) '','' @ '']}''"

definition filter_catalog :: "'r client \<Rightarrow> request \<Rightarrow> store \<Rightarrow> wire_resp \<Rightarrow> wire_resp" where
  "filter_catalog c rq s resp =
     (if ok_status (ws_status resp) \<and> rq_path rq = ''/v2/_catalog'' \<and> \<not> requireAdmin rq
      then case Option.bind (cl_json c (ws_body resp)) (\<lambda>j. string_list j ''repositories'') of
          None \<Rightarrow> resp
        | Some repos \<Rightarrow>
            let body = marshal_catalog (filter (\<lambda>repo. userCanAccessRepo rq repo s) repos)
            in resp\<lparr>ws_body := body,
                 ws_header := (ws_header resp)(''Content-Length'' := Itoa (int (length body)))\<rparr>
      else resp)"

text \<open>The row of a pushed image: only its key, digest and size are set.\<close>

definition pushed_image :: "int \<Rightarrow> string \<Rightarrow> string \<Rightarrow> int \<Rightarrow> image_row" where
  "pushed_image rid tag digest sz =
     image_zero\<lparr>im_repo := rid, im_tag := tag, im_digest := digest, im_size := sz\<rparr>"

text \<open>The image row of the push, in the repository row it creates when there is none.\<close>

definition synced :: "int \<Rightarrow> 'r client \<Rightarrow> string \<Rightarrow> string \<Rightarrow> string \<Rightarrow> 'r \<Rightarrow> store \<Rightarrow> store" where
  "synced now c repo ref digest r s =
     (case resolveRepo now repo s of (found, s1) \<Rightarrow>
        (let rid = (case found of Inl _ \<Rightarrow> 0 | Inr i \<Rightarrow> i);
             sz = (case Manifest c repo digest r of
                     Inl _ \<Rightarrow> 0 | Inr m \<Rightarrow> imageSize c repo (rm_payload m) r)
         in if rid > 0 then snd (SyncImage now (pushed_image rid ref digest sz) s1) else s1))"

definition after_push :: "int \<Rightarrow> 'r client \<Rightarrow> string \<Rightarrow> string \<Rightarrow> string \<Rightarrow> 'r world \<Rightarrow> 'r world" where
  "after_push now c repo ref digest w =
     (let w1 = fireWebhookEvent ''push'' repo ref digest w in
      if digest = [] then w1
      else w1\<lparr>w_store := snd (DeletePendingGCByRepoRef repo ref
             (synced now c repo ref digest (w_reg w1) (w_store w1)))\<rparr>)"

definition rewrite_location :: "string \<Rightarrow> target \<Rightarrow> wire_resp \<Rightarrow> wire_resp" where
  "rewrite_location origin t resp =
     (let loc = ws_header resp ''Location'';
          set_loc = (\<lambda>prefix. resp\<lparr>ws_header := (ws_header resp)(''Location'' := origin @ TrimPrefix loc prefix)\<rparr>)
      in if loc = [] then resp
         else if HasPrefix loc (''http://'' @ tg_host t) then set_loc (''http://'' @ tg_host t)
         else if HasPrefix loc (''https://'' @ tg_host t) then set_loc (''https://'' @ tg_host t)
         else resp)"

definition ModifyResponse ::
    "int \<Rightarrow> 'r client \<Rightarrow> string \<Rightarrow> target \<Rightarrow> request \<Rightarrow> wire_resp \<Rightarrow> 'r world \<Rightarrow> wire_resp \<times> 'r world" where
  "ModifyResponse now c origin t rq resp w =
     (let resp1 = filter_catalog c rq (w_store w) resp;
          w1 = (if ok_status (ws_status resp) \<and> rq_method rq = ''PUT'' then
                  (case manifest_ref (rq_path rq) of
                     None \<Rightarrow> w
                   | Some (repo, ref) \<Rightarrow>
                       after_push now c repo ref (ws_header resp ''Docker-Content-Digest'') w)
                else w)
      in (rewrite_location origin t resp1, w1))"

section \<open>Snapshots before forwarding\<close>

definition snapshot_overwritten :: "int \<Rightarrow> 'r client \<Rightarrow> string \<Rightarrow> string \<Rightarrow> 'r world \<Rightarrow> 'r world" where
  "snapshot_overwritten now c repo ref w =
     (case resolveOverwriteAction repo (w_store w) of (action, s1) \<Rightarrow>
        (if action \<noteq> ''recycle'' then w\<lparr>w_store := s1\<rparr>
         else case ManifestRaw c repo ref (w_reg w) of
           Inl _ \<Rightarrow> w\<lparr>w_store := s1\<rparr>
         | Inr raw \<Rightarrow>
             if rm_digest raw = [] then w\<lparr>w_store := s1\<rparr>
             else w\<lparr>w_store := snd (AddRecycleItem now
               (new_recycle repo ref (rm_digest raw) (rm_ctype raw) (rm_body raw) 0 None) s1)\<rparr>))"

definition snapshot_digest :: "'r client \<Rightarrow> string \<Rightarrow> string \<Rightarrow> 'r \<Rightarrow> string" where
  "snapshot_digest c repo ref r =
     (if HasPrefix ref ''sha256:'' then ref
      else case Digest c repo ref r of
        Inl _ \<Rightarrow> ref | Inr (d, _) \<Rightarrow> if d \<noteq> [] then d else ref)"

definition snapshot_before :: "int \<Rightarrow> 'r client \<Rightarrow> request \<Rightarrow> 'r world \<Rightarrow> 'r world" where
  "snapshot_before now c rq w =
     (case manifest_ref (rq_path rq) of
        None \<Rightarrow> w
      | Some (repo, ref) \<Rightarrow>
          if rq_method rq = ''PUT'' then snapshot_overwritten now c repo ref w
          else if rq_method rq = ''DELETE'' then
            w\<lparr>w_store := snd (snapshotRecycleItems now c repo (snapshot_digest c repo ref (w_reg w))
                 (w_reg w) (w_store w))\<rparr>
          else w)"

section \<open>The handler\<close>

definition forward ::
    "int \<Rightarrow> 'r client \<Rightarrow> string \<Rightarrow> string \<Rightarrow> target \<Rightarrow> 'r transport \<Rightarrow> request \<Rightarrow> string \<Rightarrow> 'r world
     \<Rightarrow> wire_resp reply \<times> 'r world" where
  "forward now c mode origin t transport rq body w =
     (case transport t (director mode (cl_cfg c) t rq) body (w_reg w) of
        (Inl _, r1) \<Rightarrow> (Fail 502, w\<lparr>w_reg := r1\<rparr>)
      | (Inr resp, r1) \<Rightarrow>
          (case ModifyResponse now c origin t rq resp (w\<lparr>w_reg := r1\<rparr>) of
             (resp1, w1) \<Rightarrow> (Reply (ws_status resp1) resp1, w1)))"

definition newV2Proxy ::
    "int \<Rightarrow> 'r client \<Rightarrow> string \<Rightarrow> string \<Rightarrow> target option \<Rightarrow> 'r transport \<Rightarrow> gate \<Rightarrow> request \<Rightarrow> string
     \<Rightarrow> 'r world \<Rightarrow> wire_resp reply \<times> 'r world" where
  "newV2Proxy now c mode external trg transport g rq body w =
     (if rq_method rq \<noteq> ''GET'' \<and> rq_method rq \<noteq> ''HEAD'' \<and> gt_running g then (Fail 503, w)
      else case put_checks c rq w of
        (Some status, w1) \<Rightarrow> (Fail status, w1)
      | (None, w1) \<Rightarrow>
          (let w2 = w1\<lparr>w_store := track_stats now rq (w_store w1)\<rparr> in
           case trg of
             None \<Rightarrow> (Fail 503, w2)
           | Some t \<Rightarrow> forward now c mode (externalOrigin external rq) t transport rq body
                         (snapshot_before now c rq w2)))"

section \<open>Stores reached\<close>

lemma exec_fault: "s_fault (exec_op op s) = s_fault s"
proof (cases op)
  case (SettingsOp x)
  then show ?thesis by (cases x) (auto simp: settings_op_defs split: option.split sum.split)
next
  case (RepoOp x)
  then show ?thesis
    by (cases x) (auto simp: repo_op_defs DeleteNamespace_def DeleteRepository_def Let_def delete_images_def
        split: option.split sum.split prod.split)
next
  case (HistoryOp x)
  then show ?thesis by (cases x) (auto simp: history_op_defs Let_def split: option.split sum.split)
next
  case (UserOp x)
  then show ?thesis
    by (cases x) (auto simp: user_op_defs Let_def split: option.split sum.split bool.split prod.split)
next
  case (MiscOp x)
  then show ?thesis by (cases x) (auto simp: misc_op_defs Let_def)
qed

lemma run_fault: "s_fault (run_ops ops s) = s_fault s"
  by (induction ops arbitrary: s) (simp_all add: exec_fault)

lemma reaches_fault: "reaches s s' \<Longrightarrow> s_fault s' = s_fault s"
  by (auto simp: reaches_def run_fault)

lemma setting_reads_reach:
  "reaches s (snd (repo_setting key repo s))" "reaches s (snd (GetSettingBool k d s))"
  "reaches s (snd (GetSettingInt k n s))"
  using reaches_ops(2)[of s]
  by (auto simp: repo_setting_snd GetSettingBool_def GetSettingInt_def split_beta Let_def split: option.split)

lemma string_policy_reaches: "reaches s (snd (string_policy key d repo s))"
proof -
  obtain v s1 where r: "repo_setting key repo s = (v, s1)" by fastforce
  have "reaches s s1" using setting_reads_reach(1)[of s key repo] r by simp
  then show ?thesis using r reaches_trans[OF _ reaches_ops(2)[of s1 key]]
    by (auto simp: string_policy_def split_beta split: option.split)
qed

lemma policy_reaches:
  "reaches s (snd (pushCreateAllowed repo s))" "reaches s (snd (resolveProtectionMode repo s))"
  "reaches s (snd (resolveOverwriteAction repo s))"
proof -
  have "reaches s (snd (case repo_setting k repo s of (Some v, s1) \<Rightarrow> (v = ''true'', s1)
      | (None, s1) \<Rightarrow> GetSettingBool k b s1))" for k b
  proof -
    obtain v s1 where r: "repo_setting k repo s = (v, s1)" by fastforce
    have "reaches s s1" using setting_reads_reach(1)[of s k repo] r by simp
    then show ?thesis using r reaches_trans[OF _ setting_reads_reach(2)[of s1 k b]] by (cases v) auto
  qed
  then show "reaches s (snd (pushCreateAllowed repo s))"
    by (auto simp: pushCreateAllowed_def split: sum.split)
  show "reaches s (snd (resolveProtectionMode repo s))" "reaches s (snd (resolveOverwriteAction repo s))"
    using string_policy_reaches by (auto simp: resolveProtectionMode_def resolveOverwriteAction_def split: sum.split)
qed

lemma put_checks_reaches:
  assumes "put_checks c rq w = (x, w1)"
  shows "reaches (w_store w) (w_store w1) \<and> w_reg w1 = w_reg w \<and> w_events w1 = w_events w"
proof -
  have p: "reaches s (snd (push_create_refused repo s))" for repo s
    using policy_reaches(1)[of s repo] by (auto simp: push_create_refused_def split: prod.split bool.split sum.split)
  have i: "reaches s (snd (immutable_refused c repo ref r s))" for repo ref r s
    using policy_reaches(2)[of s repo] by (auto simp: immutable_refused_def split: prod.split)
  show ?thesis
  proof (cases "rq_method rq = ''PUT'' \<and> manifest_ref (rq_path rq) \<noteq> None")
    case True
    then obtain repo ref where m: "manifest_ref (rq_path rq) = Some (repo, ref)" by auto
    obtain b s1 where b: "push_create_refused repo (w_store w) = (b, s1)" by fastforce
    obtain no s2 where n: "immutable_refused c repo ref (w_reg w) s1 = (no, s2)" by fastforce
    have "reaches (w_store w) s1" "reaches s1 s2"
      using p[of "w_store w" repo] b i[of s1 repo ref "w_reg w"] n by simp_all
    then show ?thesis using assms True m b n reaches_trans[of "w_store w" s1 s2]
      by (cases b) (auto simp: put_checks_def)
  qed (use assms in \<open>auto simp: put_checks_def split: option.splits\<close>)
qed

lemma track_stats_reaches: "reaches s (track_stats now rq s)"
  by (auto simp: track_stats_def Let_def intro: reaches_after(24) reaches_trans split: option.split)

lemma snapshot_before_reaches:
  "reaches (w_store w) (w_store (snapshot_before now c rq w))" "w_reg (snapshot_before now c rq w) = w_reg w"
proof -
  have "reaches (w_store w) (w_store (snapshot_overwritten now c repo ref w))" for repo ref
    using policy_reaches(3)[of "w_store w" repo]
    by (auto simp: snapshot_overwritten_def intro: reaches_after split: prod.split sum.split)
  then show "reaches (w_store w) (w_store (snapshot_before now c rq w))"
    using snapshotRecycleItems_reaches
    by (auto simp: snapshot_before_def split: option.split)
  show "w_reg (snapshot_before now c rq w) = w_reg w"
    by (auto simp: snapshot_before_def snapshot_overwritten_def split: option.split prod.split sum.split)
qed

lemma synced_reaches: "reaches s (synced now c repo ref digest r s)"
proof -
  obtain found s1 where f: "resolveRepo now repo s = (found, s1)" by fastforce
  have "reaches s s1" using resolveRepo_reaches[of s now repo] f by simp
  then show ?thesis using reaches_trans[of s s1 "snd (SyncImage now im s1)" for im]
    by (simp add: synced_def f Let_def)
qed

lemma after_push_store:
  "w_store (after_push now c repo ref digest w) =
     (if digest = [] then w_store w
      else snd (DeletePendingGCByRepoRef repo ref (synced now c repo ref digest (w_reg w) (w_store w))))"
  by (simp add: after_push_def fireWebhookEvent_def Let_def)

lemma after_push_reaches: "reaches (w_store w) (w_store (after_push now c repo ref digest w))"
  by (simp add: after_push_store reaches_trans[OF synced_reaches reaches_ops(22)])

lemma ModifyResponse_store:
  "w_store (snd (ModifyResponse now c origin t rq resp w)) =
     (case manifest_ref (rq_path rq) of
        Some (repo, ref) \<Rightarrow>
          if ok_status (ws_status resp) \<and> rq_method rq = ''PUT''
          then w_store (after_push now c repo ref (ws_header resp ''Docker-Content-Digest'') w) else w_store w
      | None \<Rightarrow> w_store w)"
  by (auto simp: ModifyResponse_def Let_def split: option.split)

lemma modified_header:
  "ws_header (fst (ModifyResponse now c origin t rq resp w)) ''Docker-Content-Digest'' =
     ws_header resp ''Docker-Content-Digest''"
  "ws_status (fst (ModifyResponse now c origin t rq resp w)) = ws_status resp"
  by (auto simp: ModifyResponse_def filter_catalog_def rewrite_location_def Let_def split: option.split)

text \<open>What has happened when an answer of the registry is passed on.\<close>

lemma proxied:
  assumes "newV2Proxy now c mode external trg transport g rq body w = (Reply st resp, w')"
  obtains t resp0 w1 w3 r1 where "trg = Some t" "put_checks c rq w = (None, w1)"
    "w3 = snapshot_before now c rq (w1\<lparr>w_store := track_stats now rq (w_store w1)\<rparr>)"
    "transport t (director mode (cl_cfg c) t rq) body (w_reg w3) = (Inr resp0, r1)"
    "ModifyResponse now c (externalOrigin external rq) t rq resp0 (w3\<lparr>w_reg := r1\<rparr>) = (resp, w')"
    "st = ws_status resp0" "reaches (w_store w) (w_store w3)" "w_reg w3 = w_reg w"
proof -
  obtain x w1 where p: "put_checks c rq w = (x, w1)" by fastforce
  define w2 where "w2 = w1\<lparr>w_store := track_stats now rq (w_store w1)\<rparr>"
  define w3 where "w3 = snapshot_before now c rq w2"
  have x: "x = None" using assms p by (auto simp: newV2Proxy_def split: if_splits option.splits)
  obtain t where t: "trg = Some t" using assms p x
    by (auto simp: newV2Proxy_def Let_def split: if_splits option.splits)
  have f: "forward now c mode (externalOrigin external rq) t transport rq body w3 = (Reply st resp, w')"
    using assms p x t by (auto simp: newV2Proxy_def Let_def w3_def w2_def split: if_splits)
  obtain resp0 r1 where tr: "transport t (director mode (cl_cfg c) t rq) body (w_reg w3) = (Inr resp0, r1)"
    and m: "ModifyResponse now c (externalOrigin external rq) t rq resp0 (w3\<lparr>w_reg := r1\<rparr>) = (resp, w')"
    and st: "st = ws_status resp"
    using f by (auto simp: forward_def split: prod.splits sum.splits)
  have "st = ws_status resp0" using modified_header(2)[of now c "externalOrigin external rq" t rq resp0] m st
    by (metis fst_conv)
  moreover have "reaches (w_store w) (w_store w3)"
    using put_checks_reaches[OF p] track_stats_reaches[of "w_store w1" now rq]
      snapshot_before_reaches(1)[of w2 now c rq]
    by (auto simp: w2_def w3_def intro: reaches_trans)
  moreover have "w_reg w3 = w_reg w" using put_checks_reaches[OF p] by (simp add: w3_def w2_def snapshot_before_reaches)
  ultimately show ?thesis using that t p x tr m by (simp add: w3_def w2_def)
qed

text \<open>
  C23. Overwriting a tag leaves nothing to restore: after every successful push of a manifest that
  the registry answers with a digest, the recycle bin holds no pending item for that repository
  and reference, although with \<^verbatim>\<open>overwrite_action=recycle\<close> the proxy had just put the old manifest
  there; the clean-up after the push deletes its own snapshot.
\<close>

theorem overwrite_leaves_no_snapshot:
  assumes "newV2Proxy now c mode external trg transport g rq body w = (Reply st resp, w')"
    and "manifest_ref (rq_path rq) = Some (repo, ref)" and "rq_method rq = ''PUT''"
    and "ok_status st" and "ws_header resp ''Docker-Content-Digest'' \<noteq> []" and "\<not> s_fault (w_store w) TRecycle"
    and "item \<in> set (trows (s_recycle (w_store w')))" and "rb_repo item = repo" and "rb_ref item = ref"
  shows "rb_status item \<noteq> PendingGC"
proof -
  obtain t resp0 w3 r1 where
    m: "ModifyResponse now c (externalOrigin external rq) t rq resp0 (w3\<lparr>w_reg := r1\<rparr>) = (resp, w')"
    and st: "st = ws_status resp0" and r: "reaches (w_store w) (w_store w3)"
    using proxied[OF assms(1)] by metis
  let ?d = "ws_header resp0 ''Docker-Content-Digest''" and ?w = "w3\<lparr>w_reg := r1\<rparr>"
  have d: "?d \<noteq> []"
    using modified_header(1)[of now c "externalOrigin external rq" t rq resp0 ?w] m assms(5) by simp
  have "w_store w' = snd (DeletePendingGCByRepoRef repo ref (synced now c repo ref ?d r1 (w_store w3)))"
    using ModifyResponse_store[of now c "externalOrigin external rq" t rq resp0 ?w] m assms(2-4) st d
    by (simp add: after_push_store)
  moreover have "reaches (w_store w) (synced now c repo ref ?d r1 (w_store w3))"
    by (rule reaches_trans[OF r synced_reaches])
  from reaches_fault[OF this] have "\<not> s_fault (synced now c repo ref ?d r1 (w_store w3)) TRecycle"
    using assms(6) by simp
  ultimately show ?thesis using assms(7-9)
    by (auto simp: DeletePendingGCByRepoRef_def delete_recycle_def table_simps)
qed

definition app_target :: target where
  "app_target = \<lparr>tg_scheme = ''http'', tg_host = ''registry:5000''\<rparr>"

text \<open>A registry that answers every manifest request with one stored manifest.\<close>

definition one_client :: "string client" where
  "one_client =
     \<lparr>cl_cfg = \<lparr>cc_url = ''u'', cc_user = [], cc_pass = [], cc_bearer = [], cc_delete = True\<rparr>,
      cl_up = \<lparr>up_get = (\<lambda>q r. Inr (demo_resp 200 r r)), up_mut = (\<lambda>q r. (Inr (demo_resp 202 [] []), r))\<rparr>,
      cl_json = (\<lambda>_. None), cl_float = (\<lambda>_. None), cl_query = (\<lambda>_. None)\<rparr>"

definition one_transport :: "string transport" where
  "one_transport t q body r = (Inr (demo_resp 201 body []), body)"

definition app_push :: request where
  "app_push = blank_request\<lparr>rq_method := ''PUT'', rq_path := ''/v2/app/manifests/v1''\<rparr>"

text \<open>Every setting cached as unset, so reading a policy leaves the store as it is.\<close>

definition warm_store :: store where
  "warm_store = empty_store\<lparr>s_cache := (\<lambda>_. Some [])\<rparr>"

definition app_world :: "string world" where
  "app_world = \<lparr>w_store = warm_store, w_reg = ''old'', w_events = []\<rparr>"

lemma app_push_ref: "manifest_ref ''/v2/app/manifests/v1'' = Some (''app'', ''v1'')"
  by code_simp

lemma one_raw: "ManifestRaw one_client repo ref r =
    Inr \<lparr>rm_digest = r, rm_ctype = [], rm_body = r, rm_payload = None\<rparr>" if "length r \<le> 100"
  using that by (simp add: ManifestRaw_def do_get_def read_resp_def one_client_def demo_resp_def ok_status_def
      maxResponseBytes_def)

lemma one_digest: "Digest one_client repo ref r = Inr (r, [])" if "length r \<le> 100"
  using that by (simp add: Digest_def do_get_def read_resp_def one_client_def demo_resp_def ok_status_def
      maxResponseBytes_def)

lemma warm_policy:
  "resolveOverwriteAction ''app'' warm_store = (''recycle'', warm_store)"
  "resolveProtectionMode ''app'' warm_store = (''rules'', warm_store)"
  "pushCreateAllowed ''app'' warm_store = (True, warm_store)"
proof -
  have "ns_parts ''app'' = None" by code_simp
  then show "resolveOverwriteAction ''app'' warm_store = (''recycle'', warm_store)"
    "resolveProtectionMode ''app'' warm_store = (''rules'', warm_store)"
    "pushCreateAllowed ''app'' warm_store = (True, warm_store)"
    by (simp_all add: warm_store_def resolveOverwriteAction_def resolveProtectionMode_def pushCreateAllowed_def
        string_policy_def repo_setting_def GetSetting_def GetSettingBool_def value_or_empty_def
        bool_of_setting_def TrimSpace_def ToLower_def)
qed

lemma app_fields:
  "rq_path app_push = ''/v2/app/manifests/v1''" "rq_method app_push = ''PUT''" "rq_user app_push = None"
  "w_store app_world = warm_store" "w_reg app_world = ''old''"
  by (simp_all add: app_push_def blank_request_def app_world_def)

lemma app_checks: "put_checks one_client app_push app_world = (None, app_world)"
proof -
  have "checkImmutableTag ''v1'' False warm_store = None"
    by (simp add: checkImmutableTag_def ListImmutableTagRules_def warm_store_def empty_store_def tempty_def Contains_iff)
  moreover have "\<not> HasPrefix ''v1'' ''sha256:''" by (simp add: HasPrefix_def)
  ultimately show ?thesis
    by (simp add: put_checks_def app_fields app_push_ref push_create_refused_def immutable_refused_def warm_policy
        one_digest)
qed

lemma app_push_answer:
  "\<exists>resp w'. newV2Proxy 5 one_client ''off'' [] (Some app_target) one_transport open_gate app_push ''new'' app_world =
     (Reply 201 resp, w') \<and> ws_header resp ''Docker-Content-Digest'' = ''new''"
proof -
  define w3 where "w3 = snapshot_before 5 one_client app_push
    (app_world\<lparr>w_store := track_stats 5 app_push (w_store app_world)\<rparr>)"
  have f: "newV2Proxy 5 one_client ''off'' [] (Some app_target) one_transport open_gate app_push ''new'' app_world =
      forward 5 one_client ''off'' (externalOrigin [] app_push) app_target one_transport app_push ''new'' w3"
    by (simp add: newV2Proxy_def app_checks open_gate_def app_fields w3_def Let_def)
  let ?m = "ModifyResponse 5 one_client (externalOrigin [] app_push) app_target app_push (demo_resp 201 ''new'' [])
    (w3\<lparr>w_reg := ''new''\<rparr>)"
  have "ws_status (fst ?m) = 201" "ws_header (fst ?m) ''Docker-Content-Digest'' = ''new''"
    unfolding modified_header by (simp_all add: demo_resp_def)
  then show ?thesis unfolding f by (auto simp: forward_def one_transport_def split: prod.split)
qed

theorem overwrite_leaves_no_snapshot_witness:
  "map rb_digest (trows (s_recycle (w_store (snapshot_before 5 one_client app_push app_world)))) = [''old''] \<and>
   (\<exists>resp w'. newV2Proxy 5 one_client ''off'' [] (Some app_target) one_transport open_gate app_push ''new'' app_world =
      (Reply 201 resp, w') \<and>
      (\<forall>item \<in> set (trows (s_recycle (w_store w'))). rb_repo item = ''app'' \<longrightarrow> rb_ref item = ''v1'' \<longrightarrow>
         rb_status item \<noteq> PendingGC))"
proof
  show "map rb_digest (trows (s_recycle (w_store (snapshot_before 5 one_client app_push app_world)))) = [''old'']"
    by (simp add: snapshot_before_def app_fields app_push_ref snapshot_overwritten_def warm_policy one_raw)
      (simp add: AddRecycleItem_def new_recycle_def warm_store_def empty_store_def tupsert_def thas_def tempty_def
        tinsert_def recycle_new_def recycle_key_def)
next
  obtain resp w' where a: "newV2Proxy 5 one_client ''off'' [] (Some app_target) one_transport open_gate app_push ''new'' app_world =
     (Reply 201 resp, w')" and d: "ws_header resp ''Docker-Content-Digest'' = ''new''"
    using app_push_answer by blast
  have p: "manifest_ref (rq_path app_push) = Some (''app'', ''v1'')" "rq_method app_push = ''PUT''"
    "ok_status 201" "ws_header resp ''Docker-Content-Digest'' \<noteq> []" "\<not> s_fault (w_store app_world) TRecycle"
    by (simp_all add: app_fields app_push_ref ok_status_def d warm_store_def empty_store_def)
  from overwrite_leaves_no_snapshot[OF a p] a
  show "\<exists>resp w'. newV2Proxy 5 one_client ''off'' [] (Some app_target) one_transport open_gate app_push ''new'' app_world =
      (Reply 201 resp, w') \<and>
      (\<forall>item \<in> set (trows (s_recycle (w_store w'))). rb_repo item = ''app'' \<longrightarrow> rb_ref item = ''v1'' \<longrightarrow>
         rb_status item \<noteq> PendingGC)" by blast
qed

section \<open>What a delete leaves in the recycle bin\<close>

definition pending_keys :: "store \<Rightarrow> (string \<times> string \<times> string) set" where
  "pending_keys s = recycle_key ` {item \<in> set (trows (s_recycle s)). rb_status item = PendingGC}"

lemma pending_keys_cong: "s_recycle s' = s_recycle s \<Longrightarrow> pending_keys s' = pending_keys s"
  by (simp add: pending_keys_def)

lemma AddRecycleItem_pending:
  assumes "AddRecycleItem now item s = (Inr (), s')"
  shows "insert (recycle_key item) (pending_keys s) \<subseteq> pending_keys s'"
proof -
  let ?k = "recycle_key item"
  have s': "s_recycle s' = tupsert (at_recycle ?k) (recycle_set (now, item)) (recycle_new ?k (now, item)) (s_recycle s)"
    using assms by (auto simp: AddRecycleItem_def split: if_splits)
  have set: "recycle_key (recycle_set (now, item) r) = recycle_key r"
    "rb_status (recycle_set (now, item) r) = PendingGC" for r
    by (simp_all add: recycle_set_def recycle_key_def)
  have new: "recycle_key (recycle_new ?k (now, item) i) = ?k" "rb_status (recycle_new ?k (now, item) i) = PendingGC" for i
    by (simp_all add: recycle_new_def recycle_key_def)
  let ?f = "\<lambda>r. if recycle_key r = ?k then recycle_set (now, item) r else r"
  show ?thesis
  proof (cases "thas (at_recycle ?k) (s_recycle s)")
    case True
    then have rows: "trows (s_recycle s') = map ?f (trows (s_recycle s))"
      by (simp add: s' tupsert_def table_simps)
    have f: "recycle_key (?f r) = recycle_key r" "rb_status r = PendingGC \<Longrightarrow> rb_status (?f r) = PendingGC" for r
      by (simp_all add: set)
    have "recycle_key r \<in> pending_keys s'" if "r \<in> set (trows (s_recycle s))" "rb_status r = PendingGC" for r
      using that f[of r] unfolding pending_keys_def rows by (intro image_eqI[of _ _ "?f r"]) auto
    moreover obtain r where "r \<in> set (trows (s_recycle s))" "recycle_key r = ?k" using True by (auto simp: thas_iff)
    then have "?k \<in> pending_keys s'"
      unfolding pending_keys_def rows by (intro image_eqI[of _ _ "?f r"]) (auto simp: set)
    ultimately show ?thesis by (auto simp: pending_keys_def[of s])
  next
    case False
    then have "trows (s_recycle s') = trows (s_recycle s) @ [recycle_new ?k (now, item) (tseq (s_recycle s) + 1)]"
      by (simp add: s' tupsert_def table_simps)
    moreover from this have "?k \<in> pending_keys s'"
      unfolding pending_keys_def by (intro image_eqI[of _ _ "recycle_new ?k (now, item) (tseq (s_recycle s) + 1)"])
        (simp_all add: new)
    ultimately show ?thesis by (auto simp: pending_keys_def)
  qed
qed

lemma resolveRepo_recycle: "s_recycle (snd (resolveRepo now name s)) = s_recycle s"
  by (auto simp: resolveRepo_def UpsertNamespace_def UpsertRepository_def Let_def
      split: option.split prod.split sum.split)

lemma snapshot_image_recycle:
  assumes "snapshot_image now repo tag s = (img, s1)"
  shows "s_recycle s1 = s_recycle s" "s_fault s1 = s_fault s"
    "case img of None \<Rightarrow> True | Some i \<Rightarrow> thas (\<lambda>im. im_id im = i) (s_images s1)"
proof -
  obtain x s2 where r: "resolveRepo now repo s = (x, s2)" by fastforce
  have "s1 = s2" using assms r by (auto simp: snapshot_image_def split: sum.splits)
  then show "s_recycle s1 = s_recycle s" "s_fault s1 = s_fault s"
    using resolveRepo_recycle[of now repo s] reaches_fault[OF resolveRepo_reaches[of s now repo]] r by simp_all
  show "case img of None \<Rightarrow> True | Some i \<Rightarrow> thas (\<lambda>im. im_id im = i) (s_images s1)"
    using assms r
    by (auto simp: snapshot_image_def GetImageByRepoTag_def thas_iff dest: tfind_SomeD split: sum.splits if_splits option.splits)
qed

text \<open>The registry serves the manifest of every tag, under its own digest or none.\<close>

definition serves_tags :: "'r client \<Rightarrow> string \<Rightarrow> ('r \<Rightarrow> string \<rightharpoonup> string) \<Rightarrow> bool" where
  "serves_tags c name T \<longleftrightarrow> (\<forall>r t d. T r t = Some d \<longrightarrow>
     (\<exists>raw. ManifestRaw c name t r = Inr raw \<and> (rm_digest raw = [] \<or> rm_digest raw = d)))"

lemma AddAudit_recycle: "s_recycle (snd (AddAudit now u a rp rf d st dt s)) = s_recycle s"
  by (simp add: AddAudit_def)

lemma snapshot_loop_pending:
  assumes laws: "registry_laws c name T hash" and serves: "serves_tags c name T"
  shows "\<not> s_fault s TRecycle \<Longrightarrow> \<forall>t \<in> seen. (name, t, digest) \<in> pending_keys s \<Longrightarrow>
    snapshot_loop now c name digest r tags seen count s = (n, s') \<Longrightarrow>
    pending_keys s \<subseteq> pending_keys s' \<and>
    (\<forall>t \<in> set tags. T r t = Some digest \<longrightarrow> (name, t, digest) \<in> pending_keys s')"
proof (induction tags arbitrary: seen count s)
  case Nil
  then show ?case by simp
next
  case (Cons tag tags)
  have D: "(\<exists>e. Digest c name tag r = Inl e) \<and> T r tag = None \<or>
      (\<exists>d ct. Digest c name tag r = Inr (d, ct) \<and> T r tag = Some d)"
    using laws unfolding registry_laws_def by (metis option.exhaust)
  show ?case
  proof (cases "T r tag = Some digest \<and> tag \<notin> seen")
    case False
    then have "snapshot_loop now c name digest r tags seen count s = (n, s')" using Cons.prems(3) D by auto
    from Cons.IH[OF Cons.prems(1,2) this] show ?thesis using False Cons.prems(2) by auto
  next
    case True
    then obtain ct raw where d: "Digest c name tag r = Inr (digest, ct)" and raw: "ManifestRaw c name tag r = Inr raw"
      and rd: "rm_digest raw = [] \<or> rm_digest raw = digest"
      using D serves unfolding serves_tags_def by fastforce
    obtain img s1 where im: "snapshot_image now name tag s = (img, s1)" by fastforce
    note k = snapshot_image_recycle[OF im]
    let ?item = "new_recycle name tag digest (rm_ctype raw) (rm_body raw) (snapshot_size c name (rm_body raw) r) img"
    obtain s2 where a: "AddRecycleItem now ?item s1 = (Inr (), s2)"
      using k Cons.prems(1) by (auto simp: AddRecycleItem_def new_recycle_def split: option.splits)
    have "recycle_key ?item = (name, tag, digest)" by (simp add: recycle_key_def new_recycle_def)
    then have p: "insert (name, tag, digest) (pending_keys s) \<subseteq> pending_keys s2"
      using AddRecycleItem_pending[OF a] pending_keys_cong[OF k(1)] by simp
    have "s_fault s2 = s_fault s" using k(2) a by (auto simp: AddRecycleItem_def split: if_splits)
    then have f: "\<not> s_fault s2 TRecycle" using Cons.prems(1) by simp
    have "snapshot_loop now c name digest r tags (insert tag seen) (count + 1) s2 = (n, s')"
      using Cons.prems(3) True d raw rd im a by (auto simp: Let_def)
    from Cons.IH[OF f _ this] show ?thesis using p Cons.prems(2) by auto
  qed
qed

lemma snapshotRecycleItems_pending:
  assumes "registry_laws c name T hash" "serves_tags c name T" "\<not> s_fault s TRecycle"
    and "T r t = Some digest"
  shows "(name, t, digest) \<in> pending_keys (snd (snapshotRecycleItems now c name digest r s))"
proof -
  obtain tags where tags: "Tags c name r = Inr tags" "set tags = dom (T r)"
    using registry_lawsD(1)[OF assms(1)] by blast
  obtain n s' where l: "snapshot_loop now c name digest r tags {} 0 s = (n, s')" by fastforce
  from snapshot_loop_pending[OF assms(1-3) _ l] tags assms(4) l
  show ?thesis by (auto simp: snapshotRecycleItems_def)
qed

text \<open>
  C22. The safety net under DELETE, for a path the proxy recognises as a manifest path (a name with a
  component \<^verbatim>\<open>manifests\<close> is not, and is forwarded without a snapshot), a registry that keeps its laws
  and serves its tags, and a recycle table that can be written: when the proxy passes on an answer
  to the deletion of a manifest, by digest or by tag, every tag of the repository that pointed at
  that digest has a pending item in the recycle bin with its name and digest. Where one of these
  fails the code ignores the error and forwards the request all the same.
\<close>

theorem proxied_delete_is_snapshotted:
  assumes "newV2Proxy now c mode external trg transport g rq body w = (Reply st resp, w')"
    and "manifest_ref (rq_path rq) = Some (repo, ref)" and "rq_method rq = ''DELETE''"
    and "registry_laws c repo T hash" and "serves_tags c repo T" and "\<not> s_fault (w_store w) TRecycle"
    and "if HasPrefix ref ''sha256:'' then digest = ref else T (w_reg w) ref = Some digest"
    and "T (w_reg w) t = Some digest"
  shows "(repo, t, digest) \<in> pending_keys (w_store w')"
proof -
  obtain tg resp0 w1 w3 r1 where p: "put_checks c rq w = (None, w1)"
    and w3: "w3 = snapshot_before now c rq (w1\<lparr>w_store := track_stats now rq (w_store w1)\<rparr>)"
    and m: "ModifyResponse now c (externalOrigin external rq) tg rq resp0 (w3\<lparr>w_reg := r1\<rparr>) = (resp, w')"
    using proxied[OF assms(1)] by metis
  have [simp]: "w1 = w" using p assms(3) by (simp add: put_checks_def)
  have d: "snapshot_digest c repo ref (w_reg w) = digest"
  proof (cases "HasPrefix ref ''sha256:''")
    case False
    then have "T (w_reg w) ref = Some digest" using assms(7) by simp
    with assms(4) obtain ct where "Digest c repo ref (w_reg w) = Inr (digest, ct)" "digest \<noteq> []"
      unfolding registry_laws_def by blast
    then show ?thesis using False by (simp add: snapshot_digest_def)
  qed (use assms(7) in \<open>simp add: snapshot_digest_def\<close>)
  have "\<not> s_fault (track_stats now rq (w_store w)) TRecycle"
    using reaches_fault[OF track_stats_reaches[of "w_store w" now rq]] assms(6) by simp
  then have "(repo, t, digest) \<in> pending_keys (w_store w3)"
    using snapshotRecycleItems_pending[where s = "track_stats now rq (w_store w)", OF assms(4,5) _ assms(8)] d assms(2,3)
    by (simp add: w3 snapshot_before_def)
  moreover have "w_store w' = w_store w3"
    using ModifyResponse_store[of now c "externalOrigin external rq" tg rq resp0 "w3\<lparr>w_reg := r1\<rparr>"] m assms(2,3) by simp
  ultimately show ?thesis by simp
qed

text \<open>The demonstration registry, serving manifests by tag as well, and then with the digest in the header.\<close>

definition kind_get :: "wire_req \<Rightarrow> (string \<times> string) list \<Rightarrow> string + wire_resp" where
  "kind_get q r =
     (let ref = demo_ref ''app'' (wq_url q) in
      if wq_method q = ''GET'' \<and> wq_url q \<noteq> ''u'' @ tags_path ''app'' then
        (if ref \<in> snd ` set (demo_norm r) then Inr (demo_resp 200 [] ref)
         else case demo_tags r ref of None \<Rightarrow> Inr (demo_resp 404 [] []) | Some d \<Rightarrow> Inr (demo_resp 200 d d))
      else demo_get ''app'' q r)"

definition kind_client :: "(string \<times> string) list client" where
  "kind_client = (demo_client ''app'')\<lparr>cl_up := \<lparr>up_get = kind_get, up_mut = demo_mut ''app''\<rparr>\<rparr>"

lemma kind_ops:
  "Tags kind_client ''app'' r = Tags (demo_client ''app'') ''app'' r"
  "Digest kind_client ''app'' t r = Digest (demo_client ''app'') ''app'' t r"
  "DeleteManifest kind_client ''app'' d r = DeleteManifest (demo_client ''app'') ''app'' d r"
  "PutManifest kind_client ''app'' t ct b r = PutManifest (demo_client ''app'') ''app'' t ct b r"
proof -
  have g: "do_get kind_client ''HEAD'' p a r = do_get (demo_client ''app'') ''HEAD'' p a r"
    "do_get kind_client m (tags_path ''app'') a r = do_get (demo_client ''app'') m (tags_path ''app'') a r" for m p a
    by (simp_all add: do_get_def kind_client_def kind_get_def demo_client_def mk_req_def Let_def)
  have j: "cl_json kind_client = cl_json (demo_client ''app'')" by (simp add: kind_client_def)
  show "Tags kind_client ''app'' r = Tags (demo_client ''app'') ''app'' r"
    "Digest kind_client ''app'' t r = Digest (demo_client ''app'') ''app'' t r"
    unfolding Tags_def Digest_def j g by (rule refl)+
  show "DeleteManifest kind_client ''app'' d r = DeleteManifest (demo_client ''app'') ''app'' d r"
    "PutManifest kind_client ''app'' t ct b r = PutManifest (demo_client ''app'') ''app'' t ct b r"
    by (simp_all add: DeleteManifest_def PutManifest_def do_mut_def kind_client_def demo_client_def mk_req_def)
qed

lemma kind_raw:
  assumes "ref \<in> snd ` set (demo_norm r) \<or> demo_tags r ref \<noteq> None"
  shows "\<exists>raw. ManifestRaw kind_client ''app'' ref r = Inr raw \<and>
    (if ref \<in> snd ` set (demo_norm r) then rm_body raw = ref \<and> rm_digest raw = []
     else demo_tags r ref = Some (rm_digest raw))"
proof -
  have small: "\<not> length d > maxResponseBytes" if "d \<in> snd ` set (demo_norm r)" for d
    using that demo_norm_bounds(3)[of _ r] by (fastforce simp: maxResponseBytes_def)
  have "d \<in> snd ` set (demo_norm r)" if "demo_tags r ref = Some d" for d
    using that by (force simp: demo_tags_def dest: map_of_SomeD)
  with small assms show ?thesis
    by (auto simp: ManifestRaw_def do_get_def kind_client_def kind_get_def demo_client_def demo_resp_def
        read_resp_def mk_req_def ok_status_def manifest_not_tags Let_def demo_ref_path split: option.split)
qed

lemma kind_laws: "registry_laws kind_client ''app'' demo_tags (\<lambda>body. body)"
proof -
  have "rm_body raw = d"
    if "d \<in> ran (demo_tags r)" "ManifestRaw kind_client ''app'' d r = Inr raw" for d raw r
  proof -
    from that(1) have "d \<in> snd ` set (demo_norm r)" by (force simp: demo_tags_def ran_def dest: map_of_SomeD)
    then show ?thesis using kind_raw[of d r] that(2) by auto
  qed
  then show ?thesis
    using demo_laws[of "''app''"] unfolding registry_laws_def kind_ops by blast
qed

lemma kind_serves: "serves_tags kind_client ''app'' demo_tags"
  unfolding serves_tags_def
proof (intro allI impI)
  fix r t d
  assume "demo_tags r t = Some d"
  then show "\<exists>raw. ManifestRaw kind_client ''app'' t r = Inr raw \<and> (rm_digest raw = [] \<or> rm_digest raw = d)"
    using kind_raw[of t r] by (auto split: if_splits)
qed

definition app_delete :: request where
  "app_delete = blank_request\<lparr>rq_method := ''DELETE'', rq_path := ''/v2/app/manifests/v1''\<rparr>"

definition drop_transport :: "(string \<times> string) list transport" where
  "drop_transport t q body r = (Inr (demo_resp 202 [] []), [])"

definition tagged_world :: "(string \<times> string) list world" where
  "tagged_world = \<lparr>w_store = empty_store, w_reg = [(''v1'', ''a''), (''v2'', ''a'')], w_events = []\<rparr>"

lemma app_delete_answer:
  "\<exists>resp w'. newV2Proxy 5 kind_client ''off'' [] (Some app_target) drop_transport open_gate app_delete [] tagged_world =
     (Reply 202 resp, w')"
proof -
  have "rq_method app_delete = ''DELETE''" by (simp add: app_delete_def)
  then show ?thesis
    by (auto simp: newV2Proxy_def open_gate_def put_checks_def forward_def drop_transport_def modified_header(2)
        Let_def demo_resp_def split: prod.split dest: arg_cong[where f = fst]
        intro!: modified_header(2)[THEN trans, rotated])
      (metis fst_conv modified_header(2) wire_resp.select_convs(1))+
qed

theorem proxied_delete_is_snapshotted_witness:
  "\<exists>resp w'. newV2Proxy 5 kind_client ''off'' [] (Some app_target) drop_transport open_gate app_delete [] tagged_world =
     (Reply 202 resp, w') \<and> (''app'', ''v1'', ''a'') \<in> pending_keys (w_store w') \<and>
     (''app'', ''v2'', ''a'') \<in> pending_keys (w_store w')"
proof -
  obtain resp w' where a: "newV2Proxy 5 kind_client ''off'' [] (Some app_target) drop_transport open_gate app_delete [] tagged_world =
     (Reply 202 resp, w')" using app_delete_answer by blast
  have f: "manifest_ref (rq_path app_delete) = Some (''app'', ''v1'')" "rq_method app_delete = ''DELETE''"
    by (simp_all add: app_delete_def app_push_ref)
  have T: "demo_tags (w_reg tagged_world) ''v1'' = Some ''a''" "demo_tags (w_reg tagged_world) ''v2'' = Some ''a''"
    by (simp_all add: tagged_world_def demo_tags_def demo_norm_def demo_small_def)
  have nf: "\<not> s_fault (w_store tagged_world) TRecycle" by (simp add: tagged_world_def empty_store_def)
  have d: "if HasPrefix ''v1'' ''sha256:'' then ''a'' = ''v1'' else demo_tags (w_reg tagged_world) ''v1'' = Some ''a''"
    by (simp add: T HasPrefix_def)
  show ?thesis
    using proxied_delete_is_snapshotted[OF a f kind_laws kind_serves nf d T(1)]
      proxied_delete_is_snapshotted[OF a f kind_laws kind_serves nf d T(2)] a by blast
qed

section \<open>What the proxy refuses, and what slips past it\<close>

text \<open>
  While a collection is inside, the proxy answers 503 to every method but GET and HEAD and
  touches neither the store nor the registry; a GET or HEAD is served as if no collection ran.
\<close>

theorem gc_blocks_writes:
  assumes "gc_steps gc_start gs" and "gs_phase gs i = Inside"
  shows "newV2Proxy now c mode external trg transport (gs_gate gs) rq body w =
    (if rq_method rq \<in> {''GET'', ''HEAD''}
     then newV2Proxy now c mode external trg transport open_gate rq body w else (Fail 503, w))"
proof -
  have "gt_running (gs_gate gs)" using gate_ok_reachable[OF assms(1)] assms(2) by (auto simp: gate_ok_def)
  then show ?thesis by (auto simp: newV2Proxy_def)
qed

theorem gc_blocks_writes_witness:
  "newV2Proxy 5 one_client ''off'' [] (Some app_target) one_transport
     (gs_gate (gc_start\<lparr>gs_gate := \<lparr>gt_busy = True, gt_running = True\<rparr>, gs_phase := (\<lambda>_. Outside)(0 := Inside)\<rparr>))
     app_push ''new'' app_world = (Fail 503, app_world)"
  using gc_blocks_writes[OF gc_started, of 0 5 one_client "''off''" "[]" "Some app_target" one_transport app_push "''new''" app_world]
  by (simp add: app_fields)

text \<open>A repository with a row may always be pushed to, and its row decides on immutability.\<close>

lemma row_same_data: "same_data s s' \<Longrightarrow> policy_row repo s = Some r \<Longrightarrow> policy_row repo s' = Some r"
  using same_data_fields[of s s']
  by (auto simp: policy_row_def repo_join_fault_def repo_by_names_def split: option.splits if_splits)

lemma push_create_row:
  assumes "policy_row repo s = Some r"
  shows "\<exists>s1. push_create_refused repo s = (False, s1) \<and> same_data s s1"
proof -
  obtain b s1 where p: "pushCreateAllowed repo s = (b, s1)" by fastforce
  then have sd: "same_data s s1" using policy_same_data(1)[of s repo] by simp
  from row_same_data[OF sd assms] obtain a n where "ns_parts repo = Some (a, n)"
    "GetRepositoryByNamespacedName a n s1 = Inr r"
    by (auto simp: policy_row_def GetRepositoryByNamespacedName_def split: option.splits if_splits)
  then show ?thesis using p sd by (cases b) (auto simp: push_create_refused_def)
qed

lemma immutable_row:
  assumes "policy_row repo s = Some r" "rp_prot r = ProtectionModeImmutable"
  shows "resolveProtectionMode repo s = (''immutable'', s)"
  unfolding resolveProtectionMode_def repo_getter_defs policy_column_cases
  using assms by (simp add: policy_code_defs ProtectionCodeToString_def)

text \<open>
  C21. An immutable repository keeps its tags. For a repository whose name has a namespace and that
  has a row, on a registry that keeps its laws (it answers the HEAD of an existing tag), with the
  gate of garbage collection open and a path the proxy recognises as a manifest path of that
  repository (no component of the name is \<^verbatim>\<open>manifests\<close>): after its tag policy has been set to
  \<^verbatim>\<open>immutable\<close>, a push to an existing tag is answered 409 whatever rules and settings exist, no
  request changes the registry, and the store is as before apart from its settings cache.
\<close>

theorem immutable_policy_blocks_overwrite:
  assumes "policy_state name r s" and "rq_path put = ''/api/repositories/'' @ name @ ''/tag-policy''"
    and "rq_method put = ''PUT''" and "pq_protection req = ''immutable''"
    and "w_store w = snd (handleRepoTagPolicy put (Some req) s)"
    and "manifest_ref (rq_path rq) = Some (name, ref)" and "rq_method rq = ''PUT''"
    and "ref \<noteq> []" and "\<not> Contains ref '':''" and "\<not> gt_running g"
    and "registry_laws c name T hash" and "T (w_reg w) ref = Some d"
  shows "\<exists>w'. newV2Proxy now c mode external trg transport g rq body w = (Fail 409, w') \<and>
    w_reg w' = w_reg w \<and> same_data (w_store w) (w_store w')"
proof -
  have path: "TrimSuffix (TrimPrefix (rq_path put) ''/api/repositories/'') ''/tag-policy'' = name"
    by (simp only: assms(2) TrimPrefix_append TrimSuffix_append)
  have "w_store w = policy_put req name s"
    unfolding assms(5) handleRepoTagPolicy_def path Let_def assms(3) by simp
  then have row: "policy_row name (w_store w) = Some (policy_after req r)"
    using policy_put_row[OF assms(1)] by (simp add: policy_state_def)
  have prot: "rp_prot (policy_after req r) = ProtectionModeImmutable"
    by (simp add: policy_after_def assms(4) ProtectionStringToCode_def policy_code_defs)
  obtain s1 where s1: "push_create_refused name (w_store w) = (False, s1)" "same_data (w_store w) s1"
    using push_create_row[OF row] by blast
  obtain ct where dig: "Digest c name ref (w_reg w) = Inr (d, ct)"
    using assms(11,12) unfolding registry_laws_def by blast
  have "\<not> HasPrefix ref ''sha256:''"
    using assms(9) unfolding HasPrefix_iff Contains_iff
    by (metis append.assoc append_Cons append_Nil)
  then have "immutable_refused c name ref (w_reg w) s1 = (True, s1)"
    using immutable_row[OF row_same_data[OF s1(2) row] prot] dig assms(8,9)
    by (simp add: immutable_refused_def checkImmutableTag_def)
  then have "put_checks c rq w = (Some 409, w\<lparr>w_store := s1\<rparr>)"
    using s1(1) assms(6,7) by (simp add: put_checks_def)
  then have "newV2Proxy now c mode external trg transport g rq body w = (Fail 409, w\<lparr>w_store := s1\<rparr>)"
    using assms(10) by (simp add: newV2Proxy_def)
  then show ?thesis using s1(2) by simp
qed

definition nginx_freeze :: request where
  "nginx_freeze = blank_request\<lparr>rq_method := ''PUT'', rq_path := ''/api/repositories/library/nginx/tag-policy''\<rparr>"

definition nginx_push :: request where
  "nginx_push = blank_request\<lparr>rq_method := ''PUT'', rq_path := ''/v2/library/nginx/manifests/v1''\<rparr>"

definition frozen :: policy_req where
  "frozen = \<lparr>pq_protection = ''immutable'', pq_overwrite = [], pq_keep = 0, pq_anon = None, pq_create = None\<rparr>"

definition frozen_world :: "(string \<times> string) list world" where
  "frozen_world = \<lparr>w_store = snd (handleRepoTagPolicy nginx_freeze (Some frozen) nginx_store),
     w_reg = [(''v1'', ''a'')], w_events = []\<rparr>"

theorem immutable_policy_blocks_overwrite_witness:
  "fst (newV2Proxy 5 (demo_client ''library/nginx'') ''off'' [] (Some app_target) drop_transport open_gate nginx_push
     ''new'' frozen_world) = Fail 409"
proof -
  obtain r where r: "policy_state ''library/nginx'' r nginx_store" using nginx_state by blast
  have f: "rq_path nginx_freeze = ''/api/repositories/'' @ ''library/nginx'' @ ''/tag-policy''"
    "rq_method nginx_freeze = ''PUT''" "pq_protection frozen = ''immutable''"
    "w_store frozen_world = snd (handleRepoTagPolicy nginx_freeze (Some frozen) nginx_store)"
    by (simp_all add: nginx_freeze_def frozen_def frozen_world_def)
  have g: "manifest_ref (rq_path nginx_push) = Some (''library/nginx'', ''v1'')" "rq_method nginx_push = ''PUT''"
    "''v1'' \<noteq> []" "\<not> Contains ''v1'' '':''" "\<not> gt_running open_gate"
    by code_simp+
  have T: "demo_tags (w_reg frozen_world) ''v1'' = Some ''a''"
    by (simp add: frozen_world_def demo_tags_def demo_norm_def demo_small_def)
  show ?thesis
    using immutable_policy_blocks_overwrite[OF r f g demo_laws T, of 5 "''off''" "[]" "Some app_target"
        drop_transport "''new''"] by auto
qed

text \<open>
  A repository whose name contains the word \<^verbatim>\<open>manifests\<close> as a component escapes every check of
  the proxy: its manifest paths split into more than two parts, so neither the push-create policy
  nor immutability is consulted, nothing is counted or audited and nothing is put into the recycle
  bin; the request goes straight to the registry.
\<close>

theorem manifests_in_name_bypasses:
  assumes "length (Split (rq_path rq) ''/manifests/'') \<noteq> 2" and "\<not> gt_running g"
  shows "newV2Proxy now c mode external (Some t) transport g rq body w =
    forward now c mode (externalOrigin external rq) t transport rq body w"
proof -
  have "manifest_ref (rq_path rq) = None"
    using assms(1) by (auto simp: manifest_ref_def split: list.split)
  then show ?thesis using assms(2)
    by (simp add: newV2Proxy_def put_checks_def track_stats_def snapshot_before_def Let_def)
qed

definition odd_push :: request where
  "odd_push = blank_request\<lparr>rq_method := ''PUT'', rq_path := ''/v2/a/manifests/b/manifests/v1''\<rparr>"

theorem manifests_in_name_bypasses_witness:
  "extractV2RepoPath (rq_path odd_push) = ''a/manifests/b'' \<and>
   newV2Proxy 5 one_client ''off'' [] (Some app_target) one_transport open_gate odd_push ''new'' app_world =
   forward 5 one_client ''off'' (externalOrigin [] odd_push) app_target one_transport odd_push ''new'' app_world"
proof -
  have "length (Split (rq_path odd_push) ''/manifests/'') \<noteq> 2"
    "extractV2RepoPath (rq_path odd_push) = ''a/manifests/b''" "\<not> gt_running open_gate"
    by code_simp+
  then show ?thesis using manifests_in_name_bypasses by blast
qed

lemma basic_not_bearer: "\<not> HasPrefix (basic_header u p) ''Bearer ''" "basic_header u p \<noteq> []"
  by (simp_all add: basic_header_def HasPrefix_def)

text \<open>The Authorization header of each mode, and the headers that go as they are.\<close>

lemma upstream_auth_other: "k \<noteq> ''Authorization'' \<Longrightarrow> upstream_auth mode cfg h k = h k"
  unfolding upstream_auth_def ApplyAuth_def Let_def by (simp split: auth.split)

lemma upstream_auth_header:
  "mode \<in> {''ui'', ''basic'', ''same''} \<Longrightarrow> upstream_auth mode cfg h ''Authorization'' =
     (let own = (if HasPrefix (h ''Authorization'') ''Bearer '' then [] else h ''Authorization'')
      in if own = [] \<and> cc_user cfg \<noteq> [] \<and> cc_pass cfg \<noteq> [] then basic_header (cc_user cfg) (cc_pass cfg) else own)"
  "upstream_auth ''off'' cfg h ''Authorization'' = []"
  unfolding upstream_auth_def by (simp_all add: Let_def)

lemma director_headers_at:
  "k \<noteq> ''Accept'' \<Longrightarrow> director_headers mode cfg path h k =
     upstream_auth mode cfg (h(''X-Forwarded-Proto'' := [], ''X-Forwarded-Host'' := [], ''X-Forwarded-Port'' := [])) k"
  unfolding director_headers_def Let_def by simp

lemma director_auth:
  "mode \<in> {''ui'', ''basic'', ''same''} \<Longrightarrow>
     \<not> HasPrefix (director_headers mode cfg path h ''Authorization'') ''Bearer '' \<and>
     (cc_user cfg \<noteq> [] \<and> cc_pass cfg \<noteq> [] \<longrightarrow> director_headers mode cfg path h ''Authorization'' \<noteq> [])"
  by (simp add: director_headers_at upstream_auth_header Let_def basic_not_bearer del: insert_iff)
    (simp add: HasPrefix_def)

lemma director_other:
  "k \<notin> {''X-Forwarded-Proto'', ''X-Forwarded-Host'', ''X-Forwarded-Port'', ''Authorization'', ''Accept''} \<Longrightarrow>
     director_headers mode cfg path h k = h k"
  "director_headers mode cfg path h ''X-Forwarded-Proto'' = []"
  "director_headers mode cfg path h ''X-Forwarded-Host'' = []"
  "director_headers mode cfg path h ''X-Forwarded-Port'' = []"
  by (simp_all add: director_headers_at upstream_auth_other)

text \<open>
  What goes upstream: the three forwarding headers never do; in the modes in which this server
  authenticates, no Bearer token of its own does and a request without credentials gets the
  configured ones; in mode \<^verbatim>\<open>off\<close> no Authorization header at all; and the director leaves every
  header other than these and Accept as it is.
\<close>

theorem upstream_headers:
  "director_headers mode cfg path h ''X-Forwarded-Proto'' = [] \<and>
   director_headers mode cfg path h ''X-Forwarded-Host'' = [] \<and>
   director_headers mode cfg path h ''X-Forwarded-Port'' = [] \<and>
   (mode \<in> {''ui'', ''basic'', ''same''} \<longrightarrow>
      \<not> HasPrefix (director_headers mode cfg path h ''Authorization'') ''Bearer '' \<and>
      (cc_user cfg \<noteq> [] \<and> cc_pass cfg \<noteq> [] \<longrightarrow> director_headers mode cfg path h ''Authorization'' \<noteq> [])) \<and>
   (mode = ''off'' \<longrightarrow> director_headers mode cfg path h ''Authorization'' = []) \<and>
   (\<forall>k. k \<notin> {''X-Forwarded-Proto'', ''X-Forwarded-Host'', ''X-Forwarded-Port'', ''Authorization'', ''Accept''} \<longrightarrow>
      director_headers mode cfg path h k = h k)"
  using director_auth[of mode cfg path h] director_other(1)[of _ mode cfg path h]
  by (simp add: director_other(2-4) director_headers_at upstream_auth_header del: insert_iff)

theorem upstream_headers_witness:
  "\<not> HasPrefix (director_headers ''ui'' (cl_cfg one_client) ''/v2/app/manifests/v1''
      (\<lambda>k. if k = ''Authorization'' then ''Bearer ru_secret'' else []) ''Authorization'') ''Bearer ''"
  using upstream_headers[of "''ui''" "cl_cfg one_client" "''/v2/app/manifests/v1''"
      "\<lambda>k. if k = ''Authorization'' then ''Bearer ru_secret'' else []"] by simp

end
