(* ===== verification/Recycle_Bin.thy ===== *)
theory Recycle_Bin
  imports V2_Proxy
begin

text \<open>
  The handlers of the recycle bin (\<^verbatim>\<open>recycle.go\<close>): listing, discarding an item and putting its manifest
  back into the registry.
\<close>

section \<open>Listing\<close>

definition bin_limit :: "string \<Rightarrow> int" where
  "bin_limit text = (case Atoi text of
     (n, None) \<Rightarrow> if 0 < n \<and> n \<le> 500 then n else 100 | (_, Some _) \<Rightarrow> 100)"

definition handleRecycle :: "request \<Rightarrow> store \<Rightarrow> recycle_row list reply" where
  "handleRecycle rq s =
     (if rq_method rq \<noteq> ''GET'' then Fail 405
      else case ListRecycleItems (rq_query rq ''includeRestored'' = ''true'') (bin_limit (rq_query rq ''limit'')) s of
        Inl _ \<Rightarrow> Fail 500
      | Inr items \<Rightarrow> Reply 200 (filter (\<lambda>item. userCanAccessRepo rq (rb_repo item) s) items))"

section \<open>Discarding\<close>

datatype bin_view = Discarded | NotPending recycle_status | Expired recycle_row | RestoredItem recycle_row

definition discardItem :: "int \<Rightarrow> request \<Rightarrow> int \<Rightarrow> store \<Rightarrow> bin_view reply \<times> store" where
  "discardItem now rq i s =
     (case GetRecycleItem i s of
        Inl _ \<Rightarrow> (Fail 404, s)
      | Inr item \<Rightarrow>
          if \<not> userCanAccessRepo rq (rb_repo item) s then (Fail 403, s)
          else if \<not> userCanWriteRepo rq (rb_repo item) s then (Fail 403, s)
          else case DeleteRecycleItem i s of
            (Inl _, s1) \<Rightarrow> (Fail 500, s1)
          | (Inr _, s1) \<Rightarrow>
              (Reply 200 Discarded,
               snd (AddAuditWithImage now (currentUserID rq) ''recycle.delete'' (rb_repo item) (rb_ref item)
                 (rb_digest item) ''ok'' (''permanently deleted recycle item '' @ Itoa i) (rb_image item)
                 (rb_repo item @ '':'' @ rb_ref item) s1)))"

section \<open>Restoring\<close>

text \<open>A tag that has meanwhile been given to another manifest is snapshotted before it is overwritten.\<close>

definition snapshot_current :: "int \<Rightarrow> 'r client \<Rightarrow> recycle_row \<Rightarrow> 'r \<Rightarrow> store \<Rightarrow> store" where
  "snapshot_current now c item r s =
     (case Digest c (rb_repo item) (rb_ref item) r of
        Inl _ \<Rightarrow> s
      | Inr (d, _) \<Rightarrow>
          if d = [] \<or> d = rb_digest item then s
          else case ManifestRaw c (rb_repo item) (rb_ref item) r of
            Inl _ \<Rightarrow> s
          | Inr raw \<Rightarrow>
              if rm_digest raw = [] then s
              else snd (AddRecycleItem now (new_recycle (rb_repo item) (rb_ref item) (rm_digest raw)
                     (rm_ctype raw) (rm_body raw) 0 None) s))"

text \<open>The row of a restored image.\<close>

definition restored_image :: "int \<Rightarrow> recycle_row \<Rightarrow> image_row" where
  "restored_image rid item =
     image_zero\<lparr>im_repo := rid, im_tag := rb_ref item, im_digest := rb_digest item, im_ctype := rb_ctype item,
       im_size := rb_size item\<rparr>"

definition sync_restored :: "int \<Rightarrow> recycle_row \<Rightarrow> store \<Rightarrow> store" where
  "sync_restored now item s =
     (case resolveRepo now (rb_repo item) s of
        (Inr rid, s1) \<Rightarrow> if rid > 0 then snd (SyncImage now (restored_image rid item) s1) else s1
      | (Inl _, s1) \<Rightarrow> s1)"

definition shown_item :: "recycle_row \<Rightarrow> recycle_status \<Rightarrow> recycle_row" where
  "shown_item item status =
     \<lparr>rb_id = rb_id item, rb_repo = rb_repo item, rb_ref = rb_ref item, rb_digest = rb_digest item,
      rb_ctype = rb_ctype item, rb_body = [], rb_status = status, rb_image = None, rb_size = 0,
      rb_attempts = 0, rb_error = [], rb_deleted = rb_deleted item, rb_restored = None\<rparr>"

definition audit_restore ::
    "int \<Rightarrow> request \<Rightarrow> recycle_row \<Rightarrow> string \<Rightarrow> string \<Rightarrow> store \<Rightarrow> unit sres \<times> store" where
  "audit_restore now rq item status detail =
     AddAudit now (currentUserID rq) ''recycle.restore'' (rb_repo item) (rb_ref item) (rb_digest item) status detail"

definition push_back ::
    "int \<Rightarrow> 'r client \<Rightarrow> request \<Rightarrow> int \<Rightarrow> recycle_row \<Rightarrow> 'r world \<Rightarrow> bin_view reply \<times> 'r world" where
  "push_back now c rq i item w =
     (case PutManifest c (rb_repo item) (rb_ref item) (rb_ctype item) (rb_body item) (w_reg w) of
        (Some e, r1) \<Rightarrow>
          (let w1 = on_store (audit_restore now rq item ''error'' (error_text e)) (w\<lparr>w_reg := r1\<rparr>)
           in if Contains (error_text e) ''MANIFEST_BLOB_UNKNOWN''
              then (Reply 410 (Expired (shown_item item GCExpired)), on_store (MarkRecycleGCExpired i) w1)
              else (Fail 502, w1))
      | (None, r1) \<Rightarrow>
          (case MarkRecycleRestored now i (w_store w) of
             (Inl _, s1) \<Rightarrow> (Fail 500, w\<lparr>w_reg := r1, w_store := s1\<rparr>)
           | (Inr _, s1) \<Rightarrow>
               (Reply 200 (RestoredItem (shown_item item Restored)),
                on_store (audit_restore now rq item ''ok'' ''tag restored from recycle bin before GC'')
                  (fireWebhookEvent ''restore'' (rb_repo item) (rb_ref item) (rb_digest item)
                    (w\<lparr>w_reg := r1, w_store := sync_restored now item s1\<rparr>)))))"

definition restoreItem ::
    "int \<Rightarrow> 'r client \<Rightarrow> request \<Rightarrow> int \<Rightarrow> 'r world \<Rightarrow> bin_view reply \<times> 'r world" where
  "restoreItem now c rq i w =
     (case GetRecycleItem i (w_store w) of
        Inl _ \<Rightarrow> (Fail 404, w)
      | Inr item \<Rightarrow>
          if \<not> userCanAccessRepo rq (rb_repo item) (w_store w) then (Fail 403, w)
          else if \<not> userCanWriteRepo rq (rb_repo item) (w_store w) then (Fail 403, w)
          else if rb_status item \<noteq> PendingGC then (Reply 409 (NotPending (rb_status item)), w)
          else push_back now c rq i item
                 (w\<lparr>w_store := snapshot_current now c item (w_reg w) (w_store w)\<rparr>))"

definition handleRecycleByID ::
    "int \<Rightarrow> 'r client \<Rightarrow> request \<Rightarrow> 'r world \<Rightarrow> bin_view reply \<times> 'r world" where
  "handleRecycleByID now c rq w =
     (let parts = Split (TrimPrefix (rq_path rq) ''/api/recycle/'') ''/'' in
      if parts = [] \<or> hd parts = [] then (Fail 404, w)
      else case Atoi (hd parts) of
        (_, Some _) \<Rightarrow> (Fail 404, w)
      | (i, None) \<Rightarrow>
          if length parts = 1 \<and> rq_method rq = ''DELETE'' then
            (case discardItem now rq i (w_store w) of (rep, s1) \<Rightarrow> (rep, w\<lparr>w_store := s1\<rparr>))
          else if length parts \<noteq> 2 \<or> parts ! 1 \<noteq> ''restore'' \<or> rq_method rq \<noteq> ''POST'' then (Fail 404, w)
          else restoreItem now c rq i w)"

section \<open>What a restore does\<close>

lemma sync_restored_recycle: "s_recycle (sync_restored now item s) = s_recycle s"
proof -
  obtain x s1 where r: "resolveRepo now (rb_repo item) s = (x, s1)" by fastforce
  have "s_recycle s1 = s_recycle s" using resolveRepo_recycle[of now "rb_repo item" s] r by simp
  then show ?thesis
    by (cases x) (simp_all add: sync_restored_def r SyncImage_def)
qed

lemma AddRecycleItem_row:
  assumes "row \<in> set (trows (s_recycle s))"
  shows "\<exists>row' \<in> set (trows (s_recycle (snd (AddRecycleItem now it s)))).
    rb_id row' = rb_id row \<and> recycle_key row' = recycle_key row"
proof -
  let ?k = "recycle_key it" and ?f = "\<lambda>r. if recycle_key r = recycle_key it then recycle_set (now, it) r else r"
  have f: "rb_id (?f r) = rb_id r" "recycle_key (?f r) = recycle_key r" for r
    by (simp_all add: recycle_set_def recycle_key_def)
  have "?f row \<in> set (trows (tupdate (at_recycle ?k) (recycle_set (now, it)) (s_recycle s)))"
    using assms by (simp add: tupdate_simps)
  moreover have "row \<in> set (trows (tinsert mk (s_recycle s)))" for mk using assms by (simp add: tinsert_simps)
  ultimately show ?thesis using assms f[of row]
    by (auto simp: AddRecycleItem_def tupsert_def split: option.split)
qed

lemma snapshot_current_row:
  assumes "history_ok s" "GetRecycleItem i s = Inr item"
  shows "history_ok (snapshot_current now c item r s)"
    "\<exists>row \<in> set (trows (s_recycle (snapshot_current now c item r s))). rb_id row = i \<and> recycle_key row = recycle_key item"
proof -
  have "item \<in> set (trows (s_recycle s))" "rb_id item = i"
    using assms(2) by (auto simp: GetRecycleItem_def dest!: tfind_SomeD split: if_splits)
  then show "\<exists>row \<in> set (trows (s_recycle (snapshot_current now c item r s))). rb_id row = i \<and> recycle_key row = recycle_key item"
    using AddRecycleItem_row[of item s now] by (auto simp: snapshot_current_def split: sum.split)
  show "history_ok (snapshot_current now c item r s)"
    using assms(1) AddRecycleItem_history_ok by (auto simp: snapshot_current_def split: sum.split)
qed

text \<open>Every row of the item's id has the item's key, so marking it restored leaves other keys pending.\<close>

lemma restored_rows:
  assumes "history_ok s" "row \<in> set (trows (s_recycle s))" "rb_id row = i" "MarkRecycleRestored now i s = (Inr (), s')"
  shows "\<exists>q \<in> set (trows (s_recycle s')). rb_id q = i \<and> rb_status q = Restored \<and> recycle_key q = recycle_key row"
    "k \<in> pending_keys s \<Longrightarrow> k \<noteq> recycle_key row \<Longrightarrow> k \<in> pending_keys s'"
proof -
  let ?g = "\<lambda>r. r\<lparr>rb_status := Restored, rb_restored := Some now\<rparr>"
  have rows: "trows (s_recycle s') = map (\<lambda>r. if rb_id r = i then ?g r else r) (trows (s_recycle s))"
    using assms(4) by (auto simp: MarkRecycleRestored_def update_recycle_def tupdate_simps split: if_splits)
  have "?g row \<in> set (trows (s_recycle s'))" unfolding rows using assms(2,3) by (auto intro!: image_eqI[of _ _ row])
  then show "\<exists>q \<in> set (trows (s_recycle s')). rb_id q = i \<and> rb_status q = Restored \<and> recycle_key q = recycle_key row"
    using assms(3) by (intro bexI[of _ "?g row"]) (simp_all add: recycle_key_def)
  assume "k \<in> pending_keys s" "k \<noteq> recycle_key row"
  then obtain q where q: "q \<in> set (trows (s_recycle s))" "rb_status q = PendingGC" "recycle_key q = k" "q \<noteq> row"
    by (auto simp: pending_keys_def)
  then have "rb_id q \<noteq> i"
    using table_ok_same_id[of rb_id "s_recycle s" q row] assms(1-3) by (auto simp: history_ok_def)
  then have "q \<in> set (trows (s_recycle s'))" unfolding rows using q(1) by (auto intro!: image_eqI[of _ _ q])
  then show "k \<in> pending_keys s'" using q(2,3) by (force simp: pending_keys_def)
qed

lemma snapshot_current_pending:
  assumes "T r (rb_ref item) = Some d" "registry_laws c (rb_repo item) T hash" "d \<noteq> rb_digest item"
    and "ManifestRaw c (rb_repo item) (rb_ref item) r = Inr raw" "rm_digest raw = d" "\<not> s_fault s TRecycle"
  shows "(rb_repo item, rb_ref item, d) \<in> pending_keys (snapshot_current now c item r s)"
proof -
  let ?it = "new_recycle (rb_repo item) (rb_ref item) d (rm_ctype raw) (rm_body raw) 0 None"
  obtain ct where D: "Digest c (rb_repo item) (rb_ref item) r = Inr (d, ct)" "d \<noteq> []"
    using assms(1,2) unfolding registry_laws_def by blast
  obtain s1 where a: "AddRecycleItem now ?it s = (Inr (), s1)"
    using assms(6) by (auto simp: AddRecycleItem_def new_recycle_def)
  then show ?thesis
    using AddRecycleItem_pending[OF a] D assms(3-5)
    by (simp add: snapshot_current_def recycle_key_def new_recycle_def)
qed

text \<open>
  C20. Restoring puts things back, on a registry that keeps its laws, in a store that satisfies the
  invariant and for an item whose stored manifest hashes to its digest: when a restore answers 200,
  the item was pending and the user may write to its repository; the tag now has the digest of the
  item in the registry and no other tag has moved; the row is marked restored. When the tag had
  meanwhile been given to another manifest and the registry serves that manifest by the tag with its
  digest in the header, it is itself pending in the bin; when the registry does not, the code
  restores without a snapshot.
\<close>

theorem restore_brings_back:
  assumes "restoreItem now c rq i w = (Reply 200 view, w')" and "GetRecycleItem i (w_store w) = Inr item"
    and "registry_laws c (rb_repo item) T hash" and "hash (rb_body item) = rb_digest item"
    and "store_ok (w_store w)"
  shows "rb_status item = PendingGC \<and> userCanWriteRepo rq (rb_repo item) (w_store w) \<and>
    T (w_reg w') = (T (w_reg w))(rb_ref item \<mapsto> rb_digest item) \<and>
    (\<exists>row \<in> set (trows (s_recycle (w_store w'))). rb_id row = i \<and> rb_status row = Restored \<and>
       recycle_key row = recycle_key item) \<and>
    (\<forall>d raw. T (w_reg w) (rb_ref item) = Some d \<and> d \<noteq> rb_digest item \<and>
       ManifestRaw c (rb_repo item) (rb_ref item) (w_reg w) = Inr raw \<and> rm_digest raw = d \<longrightarrow>
       (rb_repo item, rb_ref item, d) \<in> pending_keys (w_store w'))"
proof -
  let ?s0 = "snapshot_current now c item (w_reg w) (w_store w)"
  have pre: "rb_status item = PendingGC" "userCanWriteRepo rq (rb_repo item) (w_store w)"
    and pb: "push_back now c rq i item (w\<lparr>w_store := ?s0\<rparr>) = (Reply 200 view, w')"
    using assms(1,2) by (auto simp: restoreItem_def split: if_splits)
  obtain e r1 where p: "PutManifest c (rb_repo item) (rb_ref item) (rb_ctype item) (rb_body item) (w_reg w) = (e, r1)"
    by fastforce
  have e: "e = None" using pb p by (cases e) (auto simp: push_back_def Let_def split: if_splits)
  obtain x s1 where m: "MarkRecycleRestored now i ?s0 = (x, s1)" by fastforce
  have x: "x = Inr ()" using pb p e m by (cases x) (auto simp: push_back_def)
  have w': "w_reg w' = r1" "s_recycle (w_store w') = s_recycle s1"
    using pb p e m x
    by (auto simp: push_back_def on_store_def fireWebhookEvent_def audit_restore_def AddAudit_def sync_restored_recycle)
  have h: "history_ok (w_store w)" using assms(5) by (simp add: store_ok_def)
  note k = snapshot_current_row[OF h assms(2), of now c "w_reg w"]
  obtain row where row: "row \<in> set (trows (s_recycle ?s0))" "rb_id row = i" "recycle_key row = recycle_key item"
    using k(2) by blast
  note rr = restored_rows[OF k(1) row(1,2) m[unfolded x]]
  have nf: "\<not> s_fault (w_store w) TRecycle" using assms(2) by (auto simp: GetRecycleItem_def split: if_splits)
  have "(rb_repo item, rb_ref item, d) \<in> pending_keys (w_store w')"
    if "T (w_reg w) (rb_ref item) = Some d" "d \<noteq> rb_digest item"
      "ManifestRaw c (rb_repo item) (rb_ref item) (w_reg w) = Inr raw" "rm_digest raw = d" for d raw
    using rr(2)[OF snapshot_current_pending[OF that(1) assms(3) that(2-4) nf]] that(2) row(3) w'(2)
    by (simp add: recycle_key_def pending_keys_def)
  moreover have "T r1 = (T (w_reg w))(rb_ref item \<mapsto> rb_digest item)"
    using registry_lawsD(7)[OF assms(3) p[unfolded e]] assms(4) by simp
  ultimately show ?thesis using pre rr(1) row(3) w' by auto
qed

definition binned :: recycle_row where
  "binned = \<lparr>rb_id = 1, rb_repo = ''app'', rb_ref = ''v1'', rb_digest = ''a'', rb_ctype = [], rb_body = ''a'',
     rb_status = PendingGC, rb_image = None, rb_size = 0, rb_attempts = 0, rb_error = [], rb_deleted = 3,
     rb_restored = None\<rparr>"

definition binned_world :: "(string \<times> string) list world" where
  "binned_world = \<lparr>w_store = snd (AddRecycleItem 3 (new_recycle ''app'' ''v1'' ''a'' [] ''a'' 0 None) empty_store),
     w_reg = [(''v1'', ''b''), (''v2'', ''b'')], w_events = []\<rparr>"

definition undo :: request where
  "undo = blank_request\<lparr>rq_method := ''POST'', rq_path := ''/api/recycle/1/restore''\<rparr>"

lemma binned_item: "GetRecycleItem 1 (w_store binned_world) = Inr binned"
  by (simp add: binned_world_def GetRecycleItem_def AddRecycleItem_def new_recycle_def empty_store_def tupsert_def
      thas_iff tinsert_def tempty_def tfind_def recycle_new_def recycle_key_def binned_def)

lemma binned_fields:
  "rb_repo binned = ''app''" "rb_ref binned = ''v1''" "rb_digest binned = ''a''" "rb_ctype binned = []"
  "rb_body binned = ''a''" "rb_status binned = PendingGC"
  by (simp_all add: binned_def)

lemma replaced_served:
  "\<exists>raw. ManifestRaw kind_client ''app'' ''v1'' (w_reg binned_world) = Inr raw \<and> rm_digest raw = ''b''"
  using kind_raw[of "''v1''" "w_reg binned_world"]
  by (auto simp: binned_world_def demo_norm_def demo_small_def demo_tags_def)

lemma undo_answer: "\<exists>view w'. restoreItem 9 kind_client undo 1 binned_world = (Reply 200 view, w')"
proof -
  let ?r = "w_reg binned_world"
  have n: "demo_norm ?r = [(''v1'', ''b''), (''v2'', ''b'')]"
    by (simp add: binned_world_def demo_norm_def demo_small_def)
  let ?s = "snapshot_current 9 kind_client binned ?r (w_store binned_world)"
  obtain r1 where put: "PutManifest kind_client ''app'' ''v1'' [] ''a'' ?r = (None, r1)"
    by (simp add: kind_ops demo_PutManifest n demo_small_def)
  have "\<not> s_fault (w_store binned_world) TRecycle"
    by (simp add: binned_world_def AddRecycleItem_def empty_store_def new_recycle_def)
  then have "\<not> s_fault ?s TRecycle"
    by (simp add: snapshot_current_def AddRecycleItem_def split: sum.split prod.split)
  moreover have "rq_user undo = None" by (simp add: undo_def blank_request_def)
  ultimately show ?thesis
    unfolding restoreItem_def binned_item using put
    by (simp add: push_back_def userCanAccessRepo_def userCanWriteRepo_def MarkRecycleRestored_def
        update_recycle_def binned_fields)
qed

theorem restore_brings_back_witness:
  "\<exists>w'. snd (restoreItem 9 kind_client undo 1 binned_world) = w' \<and>
     demo_tags (w_reg w') ''v1'' = Some ''a'' \<and> demo_tags (w_reg w') ''v2'' = Some ''b'' \<and>
     (''app'', ''v1'', ''b'') \<in> pending_keys (w_store w')"
proof -
  obtain view w' where a: "restoreItem 9 kind_client undo 1 binned_world = (Reply 200 view, w')"
    using undo_answer by blast
  have b: "rb_repo binned = ''app''" "rb_body binned = rb_digest binned" "rb_ref binned = ''v1''" "rb_digest binned = ''a''"
    by (simp_all add: binned_def)
  have ok: "store_ok (w_store binned_world)"
    unfolding binned_world_def by (simp add: reaches_store_ok[OF reaches_ops(21) store_ok_empty])
  have tags: "demo_tags (w_reg binned_world) ''v1'' = Some ''b''" "demo_tags (w_reg binned_world) ''v2'' = Some ''b''"
    by (simp_all add: binned_world_def demo_tags_def demo_norm_def demo_small_def)
  note t = restore_brings_back[OF a binned_item, of demo_tags "\<lambda>x. x", unfolded b, OF kind_laws refl ok]
  have "demo_tags (w_reg w') = (demo_tags (w_reg binned_world))(''v1'' \<mapsto> ''a'')" using t by blast
  moreover have "(''app'', ''v1'', ''b'') \<in> pending_keys (w_store w')"
    using t tags(1) replaced_served by auto
  ultimately show ?thesis using a tags(2) by simp
qed

end
