(* ===== verification/Retention.thy ===== *)
theory Retention
  imports Delete_Tags "HOL-Library.Multiset"
begin

text \<open>
  Retention (\<^verbatim>\<open>retentionCandidates\<close>, \<^verbatim>\<open>handleRetentionPreview\<close>, \<^verbatim>\<open>handleRetentionRun\<close> of
  \<^verbatim>\<open>server.go\<close>): the images of a repository are grouped by digest, the newest \<open>keep\<close> groups
  stay and the tags of the others are deleted. The code collects the groups from a Go map, whose
  iteration order the language leaves open: it is the argument \<open>order\<close>, any function that returns
  a permutation. Lemmas: exactly \<open>keep\<close> groups survive and no deleted group is newer than a kept
  one; on a lawful registry a run touches no tag of a kept group; ties are decided by the order.
\<close>

section \<open>Candidates\<close>

record tag_group =
  tg_digest :: string
  tg_tags :: "string list"
  tg_latest :: int

text \<open>The zero \<^verbatim>\<open>time.Time\<close>, 1 January of year 1, in Unix seconds.\<close>

definition zero_time :: int where "zero_time = -62135596800"

definition add_image :: "image_row \<Rightarrow> tag_group list \<Rightarrow> tag_group list" where
  "add_image img groups =
     (let grown = (\<lambda>g. g\<lparr>tg_tags := tg_tags g @ [im_tag img], tg_latest := max (tg_latest g) (im_created img)\<rparr>)
      in if im_digest img \<in> tg_digest ` set groups
         then map (\<lambda>g. if tg_digest g = im_digest img then grown g else g) groups
         else groups @ [grown \<lparr>tg_digest = im_digest img, tg_tags = [], tg_latest = zero_time\<rparr>])"

fun group_images :: "string set \<Rightarrow> image_row list \<Rightarrow> tag_group list \<Rightarrow> tag_group list" where
  "group_images live [] groups = groups"
| "group_images live (img # imgs) groups =
     group_images live imgs
       (if im_digest img = [] \<or> im_tag img \<notin> live then groups else add_image img groups)"

definition retentionCandidates ::
    "(tag_group list \<Rightarrow> tag_group list) \<Rightarrow> image_row list \<Rightarrow> int \<Rightarrow> string set \<Rightarrow> tag_group list" where
  "retentionCandidates order images keepCount registryTags =
     (if keepCount \<le> 0 then []
      else let groups = group_images registryTags images []
           in if int (length groups) \<le> keepCount then []
              else drop (nat keepCount) (sort_key (\<lambda>g. - tg_latest g) (order groups)))"

section \<open>Preview and run\<close>

record preview_body =
  rp_keepCount :: int
  rp_totalImages :: int
  rp_candidates :: "tag_group list"

definition images_or_none :: "int \<Rightarrow> store \<Rightarrow> image_row list" where
  "images_or_none rid s = (case ListImagesByRepo rid s of Inl _ \<Rightarrow> [] | Inr imgs \<Rightarrow> imgs)"

definition handleRetentionPreview ::
    "int \<Rightarrow> (tag_group list \<Rightarrow> tag_group list) \<Rightarrow> 'r client \<Rightarrow> request \<Rightarrow> 'r world
     \<Rightarrow> preview_body reply \<times> 'r world" where
  "handleRetentionPreview now order c rq w =
     (let name = TrimSuffix (TrimPrefix (rq_path rq) ''/api/repositories/'') ''/retention-preview'';
          q = rq_query rq ''keepCount'';
          (keep, s1) = (if q \<noteq> [] then (fst (Atoi q), w_store w) else repoKeepCount name (w_store w));
          w1 = w\<lparr>w_store := s1\<rparr>
      in if keep \<le> 0
         then (Reply 200 \<lparr>rp_keepCount = keep, rp_totalImages = 0, rp_candidates = []\<rparr>, w1)
         else case Tags c name (w_reg w) of
           Inl _ \<Rightarrow> (Fail 502, w1)
         | Inr tags \<Rightarrow>
             (case resolveRepo now name s1 of (found, s2) \<Rightarrow>
                (let rid = (case found of Inl _ \<Rightarrow> 0 | Inr i \<Rightarrow> i)
                 in (Reply 200 \<lparr>rp_keepCount = keep, rp_totalImages = int (length (remdups tags)),
                       rp_candidates = (if rid > 0
                         then retentionCandidates order (images_or_none rid s2) keep (set tags) else [])\<rparr>,
                     w1\<lparr>w_store := s2\<rparr>))))"

definition handleRetentionRun ::
    "int \<Rightarrow> (tag_group list \<Rightarrow> tag_group list) \<Rightarrow> 'r client \<Rightarrow> request \<Rightarrow> int option \<Rightarrow> 'r world
     \<Rightarrow> (tag_result list \<times> int) reply \<times> 'r world" where
  "handleRetentionRun now order c rq body w =
     (let name = TrimSuffix (TrimPrefix (rq_path rq) ''/api/repositories/'') ''/retention-run'' in
      case body of
        None \<Rightarrow> (Fail 400, w)
      | Some keep \<Rightarrow>
          if keep \<le> 0 then (Reply 200 ([], 0), w)
          else case Tags c name (w_reg w) of
            Inl _ \<Rightarrow> (Fail 502, w)
          | Inr tags \<Rightarrow>
              (case resolveRepo now name (w_store w) of (found, s1) \<Rightarrow>
                 (let rid = (case found of Inl _ \<Rightarrow> 0 | Inr i \<Rightarrow> i);
                      w1 = w\<lparr>w_store := s1\<rparr>;
                      candidates = (if rid > 0
                        then concat (map tg_tags (retentionCandidates order (images_or_none rid s1) keep (set tags)))
                        else [])
                  in case (if candidates = [] then ([], 0, w1)
                           else deleteTagsAware now c rq name candidates w1) of
                       (results, n, w2) \<Rightarrow>
                         (Reply 200 (results, n),
                          on_store (AddAudit now (currentUserID rq) ''retention.run'' name [] [] ''ok''
                            (''keepCount='' @ Itoa keep @ '', deleted='' @ Itoa (int (length results)))) w2))))"

section \<open>Groups\<close>

text \<open>The groups partition the eligible images by digest and date each group by its newest image.\<close>

definition eligible :: "string set \<Rightarrow> image_row \<Rightarrow> bool" where
  "eligible live img \<longleftrightarrow> im_digest img \<noteq> [] \<and> im_tag img \<in> live"

definition groups_of :: "image_row list \<Rightarrow> tag_group list \<Rightarrow> bool" where
  "groups_of imgs groups \<longleftrightarrow> distinct (map tg_digest groups) \<and>
     tg_digest ` set groups = im_digest ` set imgs \<and>
     (\<forall>g \<in> set groups. tg_tags g = map im_tag (filter (\<lambda>i. im_digest i = tg_digest g) imgs) \<and>
        tg_latest g = Max (insert zero_time (im_created ` {i \<in> set imgs. im_digest i = tg_digest g})))"

text \<open>One group at a time: what an added image does to the group of its digest and to the others.\<close>

definition describes :: "image_row list \<Rightarrow> tag_group \<Rightarrow> bool" where
  "describes imgs g \<longleftrightarrow> tg_tags g = map im_tag (filter (\<lambda>i. im_digest i = tg_digest g) imgs) \<and>
     tg_latest g = Max (insert zero_time (im_created ` {i \<in> set imgs. im_digest i = tg_digest g}))"

lemma groups_of_describes:
  "groups_of imgs groups \<longleftrightarrow> distinct (map tg_digest groups) \<and> tg_digest ` set groups = im_digest ` set imgs \<and>
     (\<forall>g \<in> set groups. describes imgs g)"
  by (simp add: groups_of_def describes_def)

definition grow_group :: "image_row \<Rightarrow> tag_group \<Rightarrow> tag_group" where
  "grow_group img g = g\<lparr>tg_tags := tg_tags g @ [im_tag img], tg_latest := max (tg_latest g) (im_created img)\<rparr>"

lemma grow_group_digest [simp]: "tg_digest (grow_group img g) = tg_digest g"
  by (simp add: grow_group_def)

lemma describes_grown:
  assumes "describes imgs g" "im_digest img = tg_digest g"
  shows "describes (imgs @ [img]) (grow_group img g)"
proof -
  let ?S = "{i \<in> set imgs. im_digest i = tg_digest g}"
  have "{i \<in> set (imgs @ [img]). im_digest i = tg_digest g} = insert img ?S" using assms(2) by auto
  then have "insert zero_time (im_created ` {i \<in> set (imgs @ [img]). im_digest i = tg_digest g}) =
      insert (im_created img) (insert zero_time (im_created ` ?S))" by auto
  then have "Max (insert zero_time (im_created ` {i \<in> set (imgs @ [img]). im_digest i = tg_digest g})) =
      max (im_created img) (Max (insert zero_time (im_created ` ?S)))" by (simp only:) (subst Max_insert, auto)
  then show ?thesis using assms by (simp add: describes_def grow_group_def max.commute)
qed

lemma describes_other:
  assumes "describes imgs g" "im_digest img \<noteq> tg_digest g"
  shows "describes (imgs @ [img]) g"
proof -
  have "{i \<in> set (imgs @ [img]). im_digest i = tg_digest g} = {i \<in> set imgs. im_digest i = tg_digest g}"
    using assms(2) by auto
  then show ?thesis using assms by (simp add: describes_def)
qed

lemma describes_empty:
  "d \<notin> im_digest ` set imgs \<Longrightarrow> describes imgs \<lparr>tg_digest = d, tg_tags = [], tg_latest = zero_time\<rparr>"
  by (auto simp: describes_def filter_empty_conv image_iff) (metis (mono_tags, lifting) Collect_empty_eq Max_singleton image_empty)

lemma add_image_groups:
  assumes "groups_of imgs groups"
  shows "groups_of (imgs @ [img]) (add_image img groups)"
proof -
  have dist: "distinct (map tg_digest groups)" and digs: "tg_digest ` set groups = im_digest ` set imgs"
    and rows: "\<And>g. g \<in> set groups \<Longrightarrow> describes imgs g"
    using assms unfolding groups_of_describes by blast+
  show ?thesis
  proof (cases "im_digest img \<in> tg_digest ` set groups")
    case True
    let ?f = "\<lambda>g. if tg_digest g = im_digest img then grow_group img g else g"
    have eq: "add_image img groups = map ?f groups"
      using True by (simp add: add_image_def Let_def grow_group_def)
    have keys: "map tg_digest (map ?f groups) = map tg_digest groups" by simp
    then have "tg_digest ` set (map ?f groups) = im_digest ` set (imgs @ [img])"
      using digs True unfolding list.set_map[symmetric] keys by auto
    moreover have "\<forall>g \<in> set (map ?f groups). describes (imgs @ [img]) g"
      using rows describes_grown describes_other by auto
    ultimately show ?thesis using dist unfolding groups_of_describes eq keys by blast
  next
    case False
    let ?e = "\<lparr>tg_digest = im_digest img, tg_tags = [], tg_latest = zero_time\<rparr>"
    have eq: "add_image img groups = groups @ [grow_group img ?e]"
      using False by (simp add: add_image_def Let_def grow_group_def)
    have "describes (imgs @ [img]) (grow_group img ?e)"
      using describes_grown[OF describes_empty] False digs by auto
    moreover have "describes (imgs @ [img]) g" if "g \<in> set groups" for g
      using describes_other[OF rows[OF that]] False that by auto
    ultimately show ?thesis using dist digs False unfolding groups_of_describes eq by auto
  qed
qed

lemma group_images_groups:
  "groups_of done groups \<Longrightarrow>
   groups_of (done @ filter (eligible live) imgs) (group_images live imgs groups)"
proof (induction imgs arbitrary: "done" groups)
  case Nil
  then show ?case by simp
next
  case (Cons img imgs)
  show ?case
  proof (cases "eligible live img")
    case True
    with Cons.IH[OF add_image_groups[OF Cons.prems, of img]] show ?thesis
      by (simp add: eligible_def)
  next
    case False
    with Cons.IH[OF Cons.prems] show ?thesis by (auto simp: eligible_def)
  qed
qed

lemma group_images_spec: "groups_of (filter (eligible live) imgs) (group_images live imgs [])"
  using group_images_groups[of "[]" "[]" live imgs] by (simp add: groups_of_def)

section \<open>Who is kept\<close>

lemma groups_of_perm: "mset gs = mset hs \<Longrightarrow> groups_of imgs gs = groups_of imgs hs"
proof -
  assume m: "mset gs = mset hs"
  then have "set gs = set hs" by (rule mset_eq_setD)
  moreover from m have "mset (map tg_digest gs) = mset (map tg_digest hs)" by (simp only: mset_map)
  then have "distinct (map tg_digest gs) = distinct (map tg_digest hs)" by (rule mset_eq_imp_distinct_iff)
  ultimately show ?thesis unfolding groups_of_def by simp
qed

lemma retention_split:
  fixes images :: "image_row list" and live :: "string set"
  assumes perm: "\<And>gs. mset (order gs) = mset gs" and keep: "0 < keep"
  defines "groups \<equiv> group_images live images []"
  shows "\<exists>kept. mset (kept @ retentionCandidates order images keep live) = mset groups \<and>
    int (length kept) = min keep (int (length groups)) \<and>
    (\<forall>c \<in> set (retentionCandidates order images keep live). \<forall>k \<in> set kept. tg_latest c \<le> tg_latest k)"
proof (cases "int (length groups) \<le> keep")
  case True
  then have "retentionCandidates order images keep live = []"
    by (simp add: retentionCandidates_def groups_def Let_def)
  with True show ?thesis by (intro exI[of _ groups]) simp
next
  case False
  let ?sorted = "sort_key (\<lambda>g. - tg_latest g) (order groups)"
  have cands: "retentionCandidates order images keep live = drop (nat keep) ?sorted"
    using False keep by (simp add: retentionCandidates_def groups_def Let_def)
  have m: "mset ?sorted = mset groups" by (simp add: perm)
  have len: "length ?sorted = length groups" using m by (rule mset_eq_length)
  have "sorted (map (\<lambda>g. - tg_latest g) ?sorted)" by simp
  then have "sorted (map (\<lambda>g. - tg_latest g) (take (nat keep) ?sorted @ drop (nat keep) ?sorted))"
    by (simp only: append_take_drop_id)
  then have "\<forall>x \<in> set (map (\<lambda>g. - tg_latest g) (take (nat keep) ?sorted)).
      \<forall>y \<in> set (map (\<lambda>g. - tg_latest g) (drop (nat keep) ?sorted)). x \<le> y"
    unfolding map_append sorted_append by blast
  then have "\<forall>c \<in> set (drop (nat keep) ?sorted). \<forall>k \<in> set (take (nat keep) ?sorted). tg_latest c \<le> tg_latest k"
    by simp
  moreover have "mset (take (nat keep) ?sorted @ drop (nat keep) ?sorted) = mset groups"
    using m by (simp only: append_take_drop_id)
  moreover have "int (length (take (nat keep) ?sorted)) = min keep (int (length groups))"
    using len False keep by simp
  ultimately show ?thesis unfolding cands by blast
qed

text \<open>A group with at most \<open>keep\<close> groups as new as itself is never a candidate.\<close>

lemma tag_in_one_group:
  assumes "groups_of imgs groups" "distinct (map im_tag imgs)" "g \<in> set groups" "h \<in> set groups"
    and "t \<in> set (tg_tags g)" "t \<in> set (tg_tags h)"
  shows "g = h"
proof -
  have rows: "\<And>g. g \<in> set groups \<Longrightarrow> tg_tags g = map im_tag (filter (\<lambda>i. im_digest i = tg_digest g) imgs)"
    and dist: "distinct (map tg_digest groups)"
    using assms(1) unfolding groups_of_def by blast+
  from assms(5) rows[OF assms(3)] obtain i where i: "i \<in> set imgs" "im_tag i = t" "im_digest i = tg_digest g"
    by auto
  from assms(6) rows[OF assms(4)] obtain j where j: "j \<in> set imgs" "im_tag j = t" "im_digest j = tg_digest h"
    by auto
  have "i = j" using distinct_map_inj_eq[OF assms(2) i(1) j(1)] i j by simp
  with i j have "tg_digest g = tg_digest h" by simp
  then show ?thesis using distinct_map_inj_eq[OF dist assms(3,4)] by simp
qed

lemma images_distinct_tags:
  assumes "store_ok s"
  shows "distinct (map im_tag (images_or_none rid s))"
proof -
  have u: "distinct (map img_key (trows (s_images s)))"
    using repos_okD(6)[of s] assms by (simp add: store_ok_def key_unique_def)
  let ?rows = "tselect (\<lambda>im. im_repo im = rid \<and> \<not> im_deleted im) (s_images s)"
  have "distinct (map img_key ?rows)" using u by (simp add: tselect_def distinct_map_filter)
  moreover have "\<forall>im \<in> set ?rows. im_repo im = rid" by (simp add: tselect_def)
  ultimately have "distinct (map im_tag ?rows)"
    by (auto simp: distinct_map inj_on_def img_key_def)
  then have "distinct (map im_tag (newest_first im_created ?rows))"
    by (auto simp: newest_first_def distinct_map inj_on_def)
  then show ?thesis by (simp add: images_or_none_def ListImagesByRepo_def)
qed

lemma retention_partition:
  assumes "\<And>gs. mset (order gs) = mset gs" and "0 < keep"
  shows "\<exists>kept. groups_of (filter (eligible live) images) (kept @ retentionCandidates order images keep live) \<and>
    int (length kept) = min keep (int (card (im_digest ` set (filter (eligible live) images)))) \<and>
    (\<forall>c \<in> set (retentionCandidates order images keep live). \<forall>k \<in> set kept. tg_latest c \<le> tg_latest k)"
proof -
  let ?groups = "group_images live images []"
  note spec = group_images_spec[of live images]
  have "length ?groups = card (tg_digest ` set ?groups)"
    using spec unfolding groups_of_def by (metis distinct_card length_map set_map)
  also have "\<dots> = card (im_digest ` set (filter (eligible live) images))"
    using spec unfolding groups_of_def by simp
  finally have len: "length ?groups = card (im_digest ` set (filter (eligible live) images))" .
  obtain kept where k: "mset (kept @ retentionCandidates order images keep live) = mset ?groups"
    "int (length kept) = min keep (int (length ?groups))"
    "\<forall>c \<in> set (retentionCandidates order images keep live). \<forall>k \<in> set kept. tg_latest c \<le> tg_latest k"
    using retention_split[where order = order, OF assms, of images live] by blast
  from groups_of_perm[OF k(1)] spec k(2,3) len show ?thesis by (intro exI[of _ kept]) simp
qed

section \<open>Properties\<close>

text \<open>
  C10. Retention keeps exactly the \<open>keep\<close> newest digests (all of them when there are no more),
  whatever order the map is iterated in: kept groups and candidates together partition the
  images whose tag is in the registry, and no candidate is newer than a kept group.
\<close>

theorem retention_keeps_newest:
  assumes "\<And>gs. mset (order gs) = mset gs" and "0 < keep"
  shows "\<exists>kept. groups_of (filter (eligible live) images) (kept @ retentionCandidates order images keep live) \<and>
    int (length kept) = min keep (int (card (im_digest ` set (filter (eligible live) images)))) \<and>
    (\<forall>c \<in> set (retentionCandidates order images keep live). \<forall>k \<in> set kept. tg_latest c \<le> tg_latest k)"
  using retention_partition[OF assms] .

definition demo_image :: "int \<Rightarrow> string \<Rightarrow> string \<Rightarrow> int \<Rightarrow> image_row" where
  "demo_image i tag digest born =
     image_zero\<lparr>im_id := i, im_repo := 1, im_tag := tag, im_digest := digest, im_created := born\<rparr>"

definition demo_images :: "image_row list" where
  "demo_images = [demo_image 3 ''c'' ''d2'' 30, demo_image 2 ''b'' ''d1'' 20, demo_image 1 ''a'' ''d1'' 10]"

theorem retention_keeps_newest_witness:
  "\<exists>kept. groups_of (filter (eligible {''a'', ''b'', ''c''}) demo_images)
      (kept @ retentionCandidates rev demo_images 1 {''a'', ''b'', ''c''}) \<and>
    int (length kept) = 1 \<and>
    (\<forall>c \<in> set (retentionCandidates rev demo_images 1 {''a'', ''b'', ''c''}). \<forall>k \<in> set kept. tg_latest c \<le> tg_latest k)"
proof -
  have "card (im_digest ` set (filter (eligible {''a'', ''b'', ''c''}) demo_images)) = 2"
    by (simp add: demo_images_def demo_image_def image_zero_def eligible_def)
  then show ?thesis
    using retention_keeps_newest[of rev 1 "{''a'', ''b'', ''c''}" demo_images] by simp
qed

text \<open>
  Between digests of the same age the choice is the iteration order's: two orders of the
  same map make the code delete different images, although its comment promises determinism.
\<close>

theorem retention_ties_undetermined:
  "map tg_tags (retentionCandidates (\<lambda>gs. gs) [demo_image 1 ''a'' ''d1'' 10, demo_image 2 ''b'' ''d2'' 10] 1 {''a'', ''b''}) = [[''b'']] \<and>
   map tg_tags (retentionCandidates rev [demo_image 1 ''a'' ''d1'' 10, demo_image 2 ''b'' ''d2'' 10] 1 {''a'', ''b''}) = [[''a'']]"
  by (simp add: retentionCandidates_def add_image_def demo_image_def image_zero_def zero_time_def Let_def)

lemma retention_run_effect:
  assumes laws: "registry_laws c name T hash"
    and path: "rq_path rq = ''/api/repositories/'' @ name @ ''/retention-run''"
    and run: "handleRetentionRun now order c rq (Some keep) w = (Reply 200 (results, n), w')"
    and warn: "\<forall>x \<in> set results. tr_warning x = []"
    and res: "resolveRepo now name (w_store w) = (Inr rid, s1)"
    and moved: "T (w_reg w') t \<noteq> T (w_reg w) t"
  shows "0 < keep \<and> (\<exists>g \<in> set (retentionCandidates order (images_or_none rid s1) keep (dom (T (w_reg w)))).
    t \<in> set (tg_tags g))"
proof -
  have name: "TrimSuffix (TrimPrefix (rq_path rq) ''/api/repositories/'') ''/retention-run'' = name"
    by (simp only: path TrimPrefix_append TrimSuffix_append)
  obtain tags where tags: "Tags c name (w_reg w) = Inr tags" "set tags = dom (T (w_reg w))"
    using registry_lawsD(1)[OF laws] by blast
  let ?cands = "if rid > 0 then concat (map tg_tags
    (retentionCandidates order (images_or_none rid s1) keep (set tags))) else []"
  let ?w1 = "w\<lparr>w_store := s1\<rparr>"
  have keep: "0 < keep" using run moved by (auto simp: handleRetentionRun_def Let_def split: if_splits)
  show ?thesis
  proof (cases "?cands = []")
    case True
    with run keep have "w_reg w' = w_reg w"
      by (auto simp: handleRetentionRun_def Let_def name tags(1) res split: if_splits prod.splits)
    with moved show ?thesis by simp
  next
    case False
    obtain res1 k w2 where del: "deleteTagsAware now c rq name ?cands ?w1 = (res1, k, w2)"
      by (metis prod_cases3)
    have eqs: "results = res1" "w_reg w' = w_reg w2"
      using run keep False del by (auto simp: handleRetentionRun_def Let_def name tags(1) res split: if_splits)
    have "T (w_reg w2) = (\<lambda>t. if \<exists>x \<in> set res1. tr_ok x \<and> tr_tag x = t then None else T (w_reg ?w1) t) \<and>
      tr_tag ` set res1 = set ?cands - {[]}"
      by (rule delete_tags_effect[OF laws del]) (use warn eqs in simp)
    then have "t \<in> set ?cands" using moved eqs(2) by (auto split: if_splits)
    with keep tags(2) show ?thesis by (auto split: if_splits)
  qed
qed

text \<open>
  C11. Running retention on a repository that can be resolved, on a lawful registry, in a store that
  satisfies the invariant and for any iteration order: the digest groups split into the candidates
  and exactly \<open>keep\<close> kept groups (all of them when there are no more), none of which is
  older than a candidate, and when no result of the run carries a warning only tags of candidates
  change in the registry: every tag of every kept group, groups that tie with a candidate included,
  still points at its digest, and so does every tag that is in no group. (A warning says that a
  re-push failed; then a kept tag can be lost.)
\<close>

theorem retention_run_spares_newest:
  assumes "registry_laws c name T hash" and "\<And>gs. mset (order gs) = mset gs" and "store_ok (w_store w)"
    and "rq_path rq = ''/api/repositories/'' @ name @ ''/retention-run''" and "0 < keep"
    and "handleRetentionRun now order c rq (Some keep) w = (Reply 200 (results, n), w')"
    and "\<forall>x \<in> set results. tr_warning x = []"
    and "resolveRepo now name (w_store w) = (Inr rid, s1)"
    and "imgs = images_or_none rid s1" and "live = dom (T (w_reg w))"
    and "cands = retentionCandidates order imgs keep live"
  shows "\<exists>kept. groups_of (filter (eligible live) imgs) (kept @ cands) \<and>
    int (length kept) = min keep (int (card (im_digest ` set (filter (eligible live) imgs)))) \<and>
    (\<forall>c \<in> set cands. \<forall>k \<in> set kept. tg_latest c \<le> tg_latest k) \<and>
    (\<forall>k \<in> set kept. \<forall>t \<in> set (tg_tags k). T (w_reg w') t = T (w_reg w) t) \<and>
    (\<forall>t. (\<forall>g \<in> set (kept @ cands). t \<notin> set (tg_tags g)) \<longrightarrow> T (w_reg w') t = T (w_reg w) t)"
proof -
  obtain kept where part: "groups_of (filter (eligible live) imgs) (kept @ cands)"
      "int (length kept) = min keep (int (card (im_digest ` set (filter (eligible live) imgs))))"
      "\<forall>c \<in> set cands. \<forall>k \<in> set kept. tg_latest c \<le> tg_latest k"
    using retention_partition[where order = order, OF assms(2,5), of live imgs] unfolding assms(11) by blast
  have only: "\<exists>g \<in> set cands. t \<in> set (tg_tags g)" if "T (w_reg w') t \<noteq> T (w_reg w) t" for t
    using retention_run_effect[OF assms(1,4,6,7,8) that] by (simp add: assms(9-11))
  have "store_ok s1" using assms(3,8) resolveRepo_reaches[of "w_store w" now name] reaches_store_ok by simp
  then have tags: "distinct (map im_tag (filter (eligible live) imgs))"
    using images_distinct_tags[of s1 rid] by (simp add: distinct_map_filter assms(9))
  have "distinct (map tg_digest (kept @ cands))" using part(1) by (simp add: groups_of_def)
  then have apart: "set kept \<inter> set cands = {}" by (auto dest: distinct_map_inj_eq simp: distinct_map)
  have "T (w_reg w') t = T (w_reg w) t" if k: "k \<in> set kept" "t \<in> set (tg_tags k)" for k t
    using only[of t] tag_in_one_group[OF part(1) tags, of k _ t] k apart by fastforce
  with part only show ?thesis by (intro exI[of _ kept]) fastforce
qed

text \<open>A store with two images of \<^verbatim>\<open>app\<close>, and the run that keeps the newer one.\<close>

definition app_image :: "string \<Rightarrow> string \<Rightarrow> image_row" where
  "app_image tag digest = image_zero\<lparr>im_repo := 1, im_tag := tag, im_digest := digest\<rparr>"

definition app_store :: store where
  "app_store = run_ops [RepoOp (OpUpsertNamespace 5 []), RepoOp (OpUpsertRepository 5 1 ''app''),
     RepoOp (OpSyncImage 10 (app_image ''v1'' ''a'')), RepoOp (OpSyncImage 20 (app_image ''v2'' ''b''))] empty_store"

definition app_rows :: "image_row list" where
  "app_rows = [app_image ''v1'' ''a''\<lparr>im_id := 1, im_created := 10, im_updated := 10\<rparr>,
               app_image ''v2'' ''b''\<lparr>im_id := 2, im_created := 20, im_updated := 20\<rparr>]"

lemma app_store_eq:
  "app_store = empty_store
     \<lparr>s_namespaces := \<lparr>trows = [\<lparr>ns_id = 1, ns_name = [], ns_created = 5\<rparr>], tseq = 1\<rparr>,
      s_repos := \<lparr>trows = [new_repo 5 1 ''app'' 1], tseq = 1\<rparr>,
      s_images := \<lparr>trows = app_rows, tseq = 2\<rparr>\<rparr>"
  by (simp add: app_store_def app_rows_def app_image_def image_zero_def UpsertNamespace_def
      UpsertRepository_def SyncImage_def empty_store_def tupsert_def tinsert_def thas_def tempty_def
      new_repo_def image_key_def Let_def)

lemma app_resolve: "resolveRepo now ''app'' app_store = (Inr 1, app_store)"
  by (simp add: app_store_eq resolveRepo_def ns_parts_def UpsertNamespace_def UpsertRepository_def
      GetNamespace_def ns_by_name_def GetRepositoryByNamespaceAndName_def empty_store_def tupsert_def
      tupdate_def thas_def tfind_def new_repo_def row_or_norows_def Let_def HasPrefix_def
      numeral_2_eq_2)

lemma app_images: "images_or_none 1 app_store = rev app_rows"
  by (simp add: images_or_none_def ListImagesByRepo_def newest_first_def tselect_def app_store_eq
      app_rows_def app_image_def image_zero_def empty_store_def)

lemma app_groups:
  "group_images {''v1'', ''v2''} (rev app_rows) [] =
     [\<lparr>tg_digest = ''b'', tg_tags = [''v2''], tg_latest = 20\<rparr>,
      \<lparr>tg_digest = ''a'', tg_tags = [''v1''], tg_latest = 10\<rparr>]"
  by (simp add: app_rows_def app_image_def image_zero_def add_image_def zero_time_def Let_def)

theorem retention_run_spares_newest_witness:
  "\<exists>results n w'. handleRetentionRun 30 rev (demo_client ''app'')
      (blank_request\<lparr>rq_path := ''/api/repositories/'' @ ''app'' @ ''/retention-run''\<rparr>) (Some 1)
      \<lparr>w_store = app_store, w_reg = [(''v1'', ''a''), (''v2'', ''b'')], w_events = []\<rparr> =
      (Reply 200 (results, n), w') \<and>
    results = [tagged ''delete'' True [] [] ''v1''] \<and> demo_tags (w_reg w') ''v2'' = Some ''b''"
proof -
  let ?c = "demo_client ''app''" and ?r = "[(''v1'', ''a''), (''v2'', ''b'')]"
  define rq where "rq = blank_request\<lparr>rq_path := ''/api/repositories/'' @ ''app'' @ ''/retention-run''\<rparr>"
  let ?w = "\<lparr>w_store = app_store, w_reg = ?r, w_events = []\<rparr>"
  have path: "rq_path rq = ''/api/repositories/'' @ ''app'' @ ''/retention-run''" by (simp add: rq_def)
  have name: "TrimSuffix (TrimPrefix (rq_path rq) ''/api/repositories/'') ''/retention-run'' = ''app''"
    unfolding path TrimPrefix_append TrimSuffix_append ..
  have small: "demo_norm ?r = ?r" by (simp add: demo_norm_def demo_small_def)
  have dom: "dom (demo_tags ?r) = {''v1'', ''v2''}" by (auto simp: demo_tags_def small)
  have cands: "retentionCandidates rev (images_or_none 1 app_store) 1 {''v1'', ''v2''} =
      [\<lparr>tg_digest = ''a'', tg_tags = [''v1''], tg_latest = 10\<rparr>]"
    unfolding app_images retentionCandidates_def app_groups by (simp add: Let_def)
  obtain results n w' where del: "deleteTagsAware 30 ?c rq ''app'' [''v1''] ?w = (results, n, w')"
    by (metis prod_cases3)
  have results: "results = [tagged ''delete'' True [] [] ''v1'']"
    using del
    by (simp add: deleteTagsAware_def Let_def demo_Tags small digestOf_def demo_Digest demo_tags_def
        add_group_def delete_last_def demo_DeleteManifest split_beta)
  have tags: "Tags ?c ''app'' ?r = Inr [''v1'', ''v2'']" by (simp add: demo_Tags small)
  let ?final = "on_store (AddAudit 30 (currentUserID rq) ''retention.run'' ''app'' [] [] ''ok''
    (''keepCount='' @ Itoa 1 @ '', deleted='' @ Itoa (int (length results)))) w'"
  have set: "set [''v1'', ''v2''] = {''v1'', ''v2''}" by simp
  have run: "handleRetentionRun 30 rev ?c rq (Some 1) ?w = (Reply 200 (results, n), ?final)"
    unfolding handleRetentionRun_def name by (simp add: Let_def tags app_resolve cands set del)
  let ?cands = "[\<lparr>tg_digest = ''a'', tg_tags = [''v1''], tg_latest = 10\<rparr>]"
  have "\<exists>kept. groups_of (filter (eligible (dom (demo_tags (w_reg ?w)))) (images_or_none 1 app_store)) (kept @ ?cands) \<and>
    int (length kept) = min 1 (int (card (im_digest `
       set (filter (eligible (dom (demo_tags (w_reg ?w)))) (images_or_none 1 app_store))))) \<and>
    (\<forall>c \<in> set ?cands. \<forall>k \<in> set kept. tg_latest c \<le> tg_latest k) \<and>
    (\<forall>k \<in> set kept. \<forall>t \<in> set (tg_tags k). demo_tags (w_reg ?final) t = demo_tags (w_reg ?w) t) \<and>
    (\<forall>t. (\<forall>g \<in> set (kept @ ?cands). t \<notin> set (tg_tags g)) \<longrightarrow>
       demo_tags (w_reg ?final) t = demo_tags (w_reg ?w) t)"
  proof (rule retention_run_spares_newest[OF demo_laws _ _ path _ run])
    show "mset (rev gs) = mset gs" for gs :: "tag_group list" by simp
    have "store_ok app_store" unfolding app_store_def by (rule run_store_ok[OF store_ok_empty])
    then show "store_ok (w_store ?w)" by simp
    show "\<forall>x \<in> set results. tr_warning x = []" by (simp add: results tagged_def)
    show "resolveRepo 30 ''app'' (w_store ?w) = (Inr 1, app_store)" by (simp add: app_resolve)
    show "?cands = retentionCandidates rev (images_or_none 1 app_store) 1 (dom (demo_tags (w_reg ?w)))"
      using cands dom by simp
  qed simp_all
  then obtain kept where k: "\<forall>k \<in> set kept. \<forall>t \<in> set (tg_tags k). demo_tags (w_reg ?final) t = demo_tags (w_reg ?w) t"
    and none: "\<And>t. \<forall>g \<in> set (kept @ ?cands). t \<notin> set (tg_tags g) \<Longrightarrow>
      demo_tags (w_reg ?final) t = demo_tags (w_reg ?w) t" by blast
  have "demo_tags (w_reg ?final) ''v2'' = demo_tags (w_reg ?w) ''v2''"
    using k none[of "''v2''"] by (cases "\<exists>g \<in> set kept. ''v2'' \<in> set (tg_tags g)") auto
  then have "demo_tags (w_reg ?final) ''v2'' = Some ''b''" by (simp add: demo_tags_def small)
  with run results show ?thesis unfolding rq_def by blast
qed

end
