(* ===== verification/Repo_Handlers.thy ===== *)
theory Repo_Handlers
  imports Recycle_Bin Retention
begin

text \<open>
  The handlers under \<^verbatim>\<open>/api/repositories/\<close> and the statistics of \<^verbatim>\<open>server.go\<close>: the dispatch with its
  permission checks, manifests, tags, deletion of a digest, the synchronisation of the images table
  with the registry, health and disk usage. Decoded bodies are arguments; a background refresh is
  returned as a job and run by \<open>sync_tags\<close>. JSON keys are matched as written.
\<close>

section \<open>Health, disk usage, statistics\<close>

record health_view =
  hv_ok :: bool
  hv_status :: int
  hv_version :: string
  hv_repos :: int
  hv_tags :: int
  hv_body :: string

definition counts_or_zero :: "store \<Rightarrow> int \<times> int" where
  "counts_or_zero s = (case GetGlobalImageStats s of Inl _ \<Rightarrow> (0, 0) | Inr (repos, tags, _) \<Rightarrow> (repos, tags))"

definition handleHealth :: "'r client \<Rightarrow> request \<Rightarrow> 'r world \<Rightarrow> health_view reply" where
  "handleHealth c rq w =
     (if rq_method rq \<noteq> ''GET'' then Fail 405
      else case Health c (w_reg w) of
        Inl _ \<Rightarrow> Fail 502
      | Inr resp \<Rightarrow>
          Reply 200 \<lparr>hv_ok = ok_status (ws_status resp), hv_status = ws_status resp,
            hv_version = ws_header resp ''Docker-Distribution-Api-Version'',
            hv_repos = fst (counts_or_zero (w_store w)), hv_tags = snd (counts_or_zero (w_store w)),
            hv_body = ws_body resp\<rparr>)"

record usage_view =
  uv_registry :: int
  uv_total :: int
  uv_repos :: int
  uv_tags :: int
  uv_pending :: int
  uv_pending_size :: int

definition pending_or_zero :: "(int \<times> int) sres \<Rightarrow> int \<times> int" where
  "pending_or_zero r = (case r of Inl _ \<Rightarrow> (0, 0) | Inr p \<Rightarrow> p)"

text \<open>The two trees are the registry's data directory and the server's.\<close>

definition handleDiskUsage :: "node option \<Rightarrow> node option \<Rightarrow> store \<Rightarrow> usage_view reply" where
  "handleDiskUsage registry_tree whole_tree s =
     (let (repos, tags) = counts_or_zero s; (n, sz) = pending_or_zero (GetPendingGCStats s)
      in Reply 200 \<lparr>uv_registry = dirSizeBytes registry_tree, uv_total = dirSizeBytes whole_tree,
           uv_repos = repos, uv_tags = tags, uv_pending = n, uv_pending_size = sz\<rparr>)"

record repo_stats_view =
  sv_tags :: int
  sv_size :: int
  sv_protection :: string
  sv_overwrite :: string
  sv_keep :: int
  sv_pending :: int
  sv_pending_size :: int
  sv_anon :: bool
  sv_create :: bool

definition handleRepoStatsByRepo :: "'r client \<Rightarrow> request \<Rightarrow> 'r world \<Rightarrow> repo_stats_view reply \<times> 'r world" where
  "handleRepoStatsByRepo c rq w =
     (let name = TrimSuffix (TrimPrefix (rq_path rq) ''/api/repositories/'') ''/stats'';
          (n0, sz) = pending_or_zero (GetRepoStats name (w_store w));
          n = (if n0 = 0 then (case Tags c name (w_reg w) of Inl _ \<Rightarrow> 0 | Inr tags \<Rightarrow> int (length tags)) else n0);
          (pm, s1) = resolveProtectionMode name (w_store w);
          (oa, s2) = resolveOverwriteAction name s1;
          (kc, s3) = repoKeepCount name s2;
          (pn, psz) = pending_or_zero (GetRepoPendingGCStats name s3);
          (an, s4) = isAnonymousPullAllowed name s3;
          (pc, s5) = pushCreateAllowed name s4
      in (Reply 200 \<lparr>sv_tags = n, sv_size = sz, sv_protection = pm, sv_overwrite = oa, sv_keep = kc,
            sv_pending = pn, sv_pending_size = psz, sv_anon = an, sv_create = pc\<rparr>, w\<lparr>w_store := s5\<rparr>))"

section \<open>Synchronising the images table\<close>

text \<open>The row of one tag, and the sizes already resolved, by digest.\<close>

definition tag_image :: "int \<Rightarrow> string \<Rightarrow> string \<Rightarrow> int \<Rightarrow> image_row" where
  "tag_image rid tag digest sz =
     image_zero\<lparr>im_repo := rid, im_tag := tag, im_digest := digest, im_size := sz\<rparr>"

definition size_of :: "'r client \<Rightarrow> string \<Rightarrow> 'r \<Rightarrow> raw_manifest \<Rightarrow> (string \<rightharpoonup> int) \<Rightarrow> int" where
  "size_of c name r m sizes =
     (case sizes (rm_digest m) of Some sz \<Rightarrow> sz | None \<Rightarrow> imageSize c name (rm_payload m) r)"

text \<open>
  \<^verbatim>\<open>syncTagsAsync\<close> gives its goroutine two minutes; \<open>sync_tags\<close> is the refresh that ends within them.
\<close>

fun sync_loop ::
    "int \<Rightarrow> 'r client \<Rightarrow> string \<Rightarrow> int \<Rightarrow> 'r \<Rightarrow> string list \<Rightarrow> (string \<rightharpoonup> int) \<Rightarrow> store \<Rightarrow> store" where
  "sync_loop now c name rid r [] sizes s = s"
| "sync_loop now c name rid r (tag # tags) sizes s =
     (case Manifest c name tag r of
        Inl _ \<Rightarrow> sync_loop now c name rid r tags sizes s
      | Inr m \<Rightarrow>
          (let sz = size_of c name r m sizes
           in sync_loop now c name rid r tags (sizes(rm_digest m \<mapsto> sz))
                (snd (SyncImage now (tag_image rid tag (rm_digest m) sz) s))))"

definition sync_tags :: "int \<Rightarrow> 'r client \<Rightarrow> string \<Rightarrow> string list \<Rightarrow> 'r \<Rightarrow> store \<Rightarrow> store" where
  "sync_tags now c name tags r s =
     (case resolveRepo now name s of
        (Inl _, s1) \<Rightarrow> s1
      | (Inr rid, s1) \<Rightarrow> if rid = 0 then s1 else sync_loop now c name rid r tags Map.empty s1)"

text \<open>At most one refresh of a repository at a time: whether one starts, and the running ones.\<close>

definition syncTagsAsync :: "string \<Rightarrow> string list \<Rightarrow> string set \<Rightarrow> bool \<times> string set" where
  "syncTagsAsync name tags running =
     (if tags = [] \<or> name \<in> running then (False, running) else (True, insert name running))"

definition sync_done :: "string \<Rightarrow> string set \<Rightarrow> string set" where
  "sync_done name running = running - {name}"

text \<open>
  \<^verbatim>\<open>SyncAll\<close> resolves the repository again for every tag; the counters are those it logs. It runs
  under a context with a deadline (ten minutes in \<^verbatim>\<open>main.go\<close>), which every call of the client and
  of the store observes. Where the deadline falls is the argument \<open>k\<close>: so many calls are answered
  before it, and every later one fails with the error of the context and has no effect. The
  requests of a size resolution count one by one; one that the deadline cuts short gives some
  size, which is not stored any more, because the call of the store that follows fails.
\<close>

definition deadline_exceeded :: rerr where
  "deadline_exceeded = TransportError ''context deadline exceeded''"

definition timed :: "nat \<Rightarrow> rerr + 'a \<Rightarrow> (rerr + 'a) \<times> nat" where
  "timed k answer = (if k = 0 then (Inl deadline_exceeded, 0) else (answer, k - 1))"

definition timed_store :: "nat \<Rightarrow> (store \<Rightarrow> 'a sres \<times> store) \<Rightarrow> store \<Rightarrow> 'a sres \<times> store \<times> nat" where
  "timed_store k call s =
     (if k = 0 then (Inl IOError, s, 0) else case call s of (x, s1) \<Rightarrow> (x, s1, k - 1))"

definition size_requests :: "'r client \<Rightarrow> string \<Rightarrow> 'r \<Rightarrow> raw_manifest \<Rightarrow> (string \<rightharpoonup> int) \<Rightarrow> nat" where
  "size_requests c name r m sizes =
     (case sizes (rm_digest m) of Some _ \<Rightarrow> 0 | None \<Rightarrow> imageSize_requests c name (rm_payload m) r)"

fun sync_all_tags ::
    "int \<Rightarrow> 'r client \<Rightarrow> string \<Rightarrow> 'r \<Rightarrow> string list \<Rightarrow> (string \<rightharpoonup> int) \<Rightarrow> int \<Rightarrow> store \<Rightarrow> nat \<Rightarrow> int \<times> store \<times> nat" where
  "sync_all_tags now c name r [] sizes n s k = (n, s, k)"
| "sync_all_tags now c name r (tag # tags) sizes n s k =
     (case timed k (Manifest c name tag r) of
        (Inl _, k1) \<Rightarrow> sync_all_tags now c name r tags sizes n s k1
      | (Inr m, k1) \<Rightarrow>
          (case timed_store k1 (resolveRepo now name) s of
             (Inl _, s1, k2) \<Rightarrow> sync_all_tags now c name r tags sizes n s1 k2
           | (Inr rid, s1, k2) \<Rightarrow>
               if rid = 0 then sync_all_tags now c name r tags sizes n s1 k2
               else let sz = size_of c name r m sizes; k3 = k2 - size_requests c name r m sizes in
                 case timed_store k3 (SyncImage now (tag_image rid tag (rm_digest m) sz)) s1 of
                   (Inl _, s2, k4) \<Rightarrow> sync_all_tags now c name r tags (sizes(rm_digest m \<mapsto> sz)) n s2 k4
                 | (Inr _, s2, k4) \<Rightarrow> sync_all_tags now c name r tags (sizes(rm_digest m \<mapsto> sz)) (n + 1) s2 k4))"

fun sync_page ::
    "int \<Rightarrow> 'r client \<Rightarrow> 'r \<Rightarrow> string list \<Rightarrow> int \<times> int \<Rightarrow> store \<Rightarrow> nat \<Rightarrow> (int \<times> int) \<times> store \<times> nat" where
  "sync_page now c r [] counts s k = (counts, s, k)"
| "sync_page now c r (name # names) counts s k =
     (case timed k (Tags c name r) of
        (Inl _, k1) \<Rightarrow> sync_page now c r names (fst counts + 1, snd counts) s k1
      | (Inr tags, k1) \<Rightarrow>
          (case sync_all_tags now c name r tags Map.empty (snd counts) s k1 of
             (n, s1, k2) \<Rightarrow> sync_page now c r names (fst counts + 1, n) s1 k2))"

text \<open>No call gives time back.\<close>

lemma timed_le: "timed k x = (y, k1) \<Longrightarrow> k1 \<le> k \<and> k \<le> Suc k1" "timed k x = (Inr v, k1) \<Longrightarrow> x = Inr v \<and> k = Suc k1"
  by (auto simp: timed_def split: if_splits)

lemma timed_store_le: "timed_store k f s = (y, s1, k1) \<Longrightarrow> k1 \<le> k \<and> k \<le> Suc k1"
  by (auto simp: timed_store_def split: if_splits prod.splits)

text \<open>
  The calls of one page at most: one for the tags of a repository, and for every tag its manifest,
  two calls of the store and the size, which takes at most 4368 requests.
\<close>

definition page_cost :: "'r client \<Rightarrow> 'r \<Rightarrow> string list \<Rightarrow> nat" where
  "page_cost c r names =
     sum_list (map (\<lambda>name. 1 + (case Tags c name r of Inl _ \<Rightarrow> 0 | Inr tags \<Rightarrow> 4371 * length tags)) names)"

lemma page_cost_simps [simp]:
  "page_cost c r [] = 0"
  "page_cost c r (name # names) =
     1 + (case Tags c name r of Inl _ \<Rightarrow> 0 | Inr tags \<Rightarrow> 4371 * length tags) + page_cost c r names"
  by (simp_all add: page_cost_def)

lemma size_requests_le: "size_requests c name r m sizes \<le> 4368"
  using requests_once[of "cl_float c" "fetch_manifest c name r" "rm_payload m"]
  by (simp add: size_requests_def imageSize_requests_def split: option.split)

lemma sync_all_tags_le: "sync_all_tags now c name r tags sizes n s k = (n1, s1, k1) \<Longrightarrow>
   k1 \<le> k \<and> k \<le> k1 + 4371 * length tags"
proof (induction tags arbitrary: sizes n s k)
  case Nil
  then show ?case by simp
next
  case (Cons tag tags)
  obtain x ka where a: "timed k (Manifest c name tag r) = (x, ka)" by fastforce
  note la = timed_le(1)[OF a]
  show ?case
  proof (cases x)
    case (Inl e)
    then show ?thesis using Cons.IH[of sizes n s ka] Cons.prems a la by auto
  next
    case (Inr m)
    obtain y sb kb where b: "timed_store ka (resolveRepo now name) s = (y, sb, kb)" by (metis prod_cases3)
    note lb = timed_store_le[OF b]
    show ?thesis
    proof (cases "\<exists>rid. y = Inr rid \<and> rid \<noteq> 0")
      case False
      then have "sync_all_tags now c name r tags sizes n sb kb = (n1, s1, k1)"
        using Cons.prems a b Inr by (cases y) auto
      then have "k1 \<le> kb \<and> kb \<le> k1 + 4371 * length tags" by (rule Cons.IH)
      then show ?thesis using la lb by simp
    next
      case True
      then obtain rid where y: "y = Inr rid" "rid \<noteq> 0" by blast
      let ?sz = "size_of c name r m sizes" and ?k3 = "kb - size_requests c name r m sizes"
      obtain z sd kd where d: "timed_store ?k3 (SyncImage now (tag_image rid tag (rm_digest m) ?sz)) sb = (z, sd, kd)"
        by (metis prod_cases3)
      have "sync_all_tags now c name r tags (sizes(rm_digest m \<mapsto> ?sz)) (case z of Inl _ \<Rightarrow> n | Inr _ \<Rightarrow> n + 1) sd kd =
          (n1, s1, k1)"
        using Cons.prems a b d y Inr by (cases z) (simp_all add: Let_def)
      then have IH: "k1 \<le> kd" "kd \<le> k1 + 4371 * length tags" using Cons.IH by blast+
      have d': "kd \<le> kb" "kb \<le> kd + 4369"
        using timed_store_le[OF d] size_requests_le[of c name r m sizes] by linarith+
      show ?thesis using IH d' la lb by simp
    qed
  qed
qed

lemma sync_page_le: "sync_page now c r names counts s k = (counts1, s1, k1) \<Longrightarrow>
   k1 \<le> k \<and> k \<le> k1 + page_cost c r names \<and> fst counts1 = fst counts + int (length names)"
proof (induction names arbitrary: counts s k)
  case Nil
  then show ?case by simp
next
  case (Cons name names)
  obtain x ka where a: "timed k (Tags c name r) = (x, ka)" by fastforce
  show ?case
  proof (cases x)
    case (Inl e)
    then show ?thesis using Cons.IH[of "(fst counts + 1, snd counts)" s ka] Cons.prems a timed_le(1)[OF a]
      by (auto split: sum.split)
  next
    case (Inr tags)
    obtain n sb kb where b: "sync_all_tags now c name r tags Map.empty (snd counts) s ka = (n, sb, kb)"
      by (metis prod_cases3)
    then have "sync_page now c r names (fst counts + 1, n) sb kb = (counts1, s1, k1)"
      using Cons.prems a Inr by simp
    then have "k1 \<le> kb \<and> kb \<le> k1 + page_cost c r names \<and>
        fst counts1 = fst (fst counts + 1, n) + int (length names)" by (rule Cons.IH)
    moreover have "Tags c name r = Inr tags" using timed_le(2)[of k "Tags c name r" tags ka] a Inr by simp
    ultimately show ?thesis using sync_all_tags_le[OF b] timed_le(1)[OF a] by simp
  qed
qed

lemma sync_page_time: "snd (snd (sync_page now c r names counts s k)) \<le> k"
  using sync_page_le[of now c r names counts s k] by (metis prod.collapse)

text \<open>Every page takes one call of the time that is left.\<close>

function sync_from ::
    "int \<Rightarrow> 'r client \<Rightarrow> 'r \<Rightarrow> string \<Rightarrow> int \<times> int \<Rightarrow> store \<Rightarrow> nat \<Rightarrow> (rerr + int \<times> int) \<times> store" where
  "sync_from now c r lst counts s k =
     (case timed k (Catalog c ''100'' lst r) of
        (Inl e, k1) \<Rightarrow> (Inl e, s)
      | (Inr (repos, nxt), k1) \<Rightarrow>
          (case sync_page now c r repos counts s k1 of
             (counts1, s1, k2) \<Rightarrow>
               if nxt = [] then (Inr counts1, s1) else sync_from now c r nxt counts1 s1 k2))"
  by pat_completeness auto

termination
  by (relation "measure (\<lambda>(now, c, r, lst, counts, s, k). k)")
    (auto dest!: timed_le(2)[OF sym] simp: case_prod_beta less_Suc_eq_le sync_page_time)

declare sync_from.simps [simp del]

definition SyncAll :: "int \<Rightarrow> 'r client \<Rightarrow> 'r \<Rightarrow> nat \<Rightarrow> store \<Rightarrow> (rerr + int \<times> int) \<times> store" where
  "SyncAll now c r k s = sync_from now c r [] (0, 0) s k"

section \<open>Manifests\<close>

record image_config =
  ic_created :: string
  ic_arch :: string
  ic_os :: string
  ic_entrypoint :: "string list"
  ic_cmd :: "string list"
  ic_env :: "string list"
  ic_ports :: "string set"
  ic_volumes :: "string set"
  ic_labels :: "(string \<times> string) list"
  ic_workdir :: string

text \<open>Decoding a string field and a map field of a Go struct; None is a type mismatch.\<close>

definition string_field :: "json \<Rightarrow> string \<Rightarrow> string option" where
  "string_field j k =
     (case jget j k of None \<Rightarrow> Some [] | Some JNull \<Rightarrow> Some [] | Some (JStr s) \<Rightarrow> Some s | Some _ \<Rightarrow> None)"

definition keys_field :: "json \<Rightarrow> string \<Rightarrow> string set option" where
  "keys_field j k =
     (case jget j k of
        None \<Rightarrow> Some {} | Some JNull \<Rightarrow> Some {} | Some (JObj kvs) \<Rightarrow> Some (fst ` set kvs) | Some _ \<Rightarrow> None)"

fun string_pairs :: "(string \<times> json) list \<Rightarrow> (string \<times> string) list option" where
  "string_pairs [] = Some []"
| "string_pairs ((k, JStr v) # kvs) = map_option (\<lambda>r. (k, v) # r) (string_pairs kvs)"
| "string_pairs ((k, JNull) # kvs) = map_option (\<lambda>r. (k, []) # r) (string_pairs kvs)"
| "string_pairs (_ # kvs) = None"

definition labels_field :: "json \<Rightarrow> string \<Rightarrow> (string \<times> string) list option" where
  "labels_field j k =
     (case jget j k of
        None \<Rightarrow> Some [] | Some JNull \<Rightarrow> Some [] | Some (JObj kvs) \<Rightarrow> string_pairs kvs | Some _ \<Rightarrow> None)"

text \<open>The inner part: a value that does not decode leaves the outer fields alone.\<close>

definition inner_config :: "image_config \<Rightarrow> json \<Rightarrow> image_config" where
  "inner_config ic j =
     (if j \<noteq> JNull \<and> \<not> is_obj j then ic
      else case (string_list j ''Entrypoint'', string_list j ''Cmd'', string_list j ''Env'',
                 keys_field j ''ExposedPorts'', keys_field j ''Volumes'', labels_field j ''Labels'',
                 string_field j ''WorkingDir'') of
        (Some ep, Some cmd, Some env, Some ports, Some vols, Some labels, Some wd) \<Rightarrow>
          ic\<lparr>ic_entrypoint := ep, ic_cmd := cmd, ic_env := env, ic_ports := ports, ic_volumes := vols,
             ic_labels := labels, ic_workdir := wd\<rparr>
      | _ \<Rightarrow> ic)"

definition decode_config :: "json \<Rightarrow> image_config option" where
  "decode_config j =
     (if j \<noteq> JNull \<and> \<not> is_obj j then None
      else case (string_field j ''created'', string_field j ''architecture'', string_field j ''os'') of
        (Some cr, Some ar, Some os) \<Rightarrow>
          (let ic = \<lparr>ic_created = cr, ic_arch = ar, ic_os = os, ic_entrypoint = [], ic_cmd = [], ic_env = [],
                 ic_ports = {}, ic_volumes = {}, ic_labels = [], ic_workdir = []\<rparr>
           in Some (case jget j ''config'' of None \<Rightarrow> ic | Some inner \<Rightarrow> inner_config ic inner))
      | _ \<Rightarrow> None)"

definition fetchImageConfig :: "'r client \<Rightarrow> string \<Rightarrow> json option \<Rightarrow> 'r \<Rightarrow> image_config option" where
  "fetchImageConfig c repo payload r =
     (case Option.bind payload (\<lambda>m. jobj m ''config'') of
        None \<Rightarrow> None
      | Some cfg \<Rightarrow>
          if jstr cfg ''digest'' = [] then None
          else case Blob c repo (jstr cfg ''digest'') r of
            Inl _ \<Rightarrow> None
          | Inr (body, _) \<Rightarrow> if body = [] then None else Option.bind (cl_json c body) decode_config)"

record manifest_view =
  mv_name :: string
  mv_ref :: string
  mv_digest :: string
  mv_ctype :: string
  mv_size :: int
  mv_shared :: "string list"
  mv_config :: "image_config option"
  mv_atype :: string
  mv_payload :: "json option"

definition manifest_image :: "int \<Rightarrow> string \<Rightarrow> string \<Rightarrow> raw_manifest \<Rightarrow> int \<Rightarrow> image_row" where
  "manifest_image rid ref digest m sz =
     image_zero\<lparr>im_repo := rid, im_tag := ref, im_digest := digest, im_ctype := rm_ctype m, im_size := sz,
       im_atype := detectArtifactType (rm_ctype m) (rm_payload m)\<rparr>"

text \<open>Size, sibling tags and the store once the image row has been brought up to date.\<close>

definition sync_manifest ::
    "int \<Rightarrow> string \<Rightarrow> string \<Rightarrow> string \<Rightarrow> raw_manifest \<Rightarrow> int \<Rightarrow> store \<Rightarrow> int \<times> string list \<times> store" where
  "sync_manifest now name ref digest m sz s =
     (if digest = [] then (sz, [], s)
      else case resolveRepo now name s of
        (Inl _, s1) \<Rightarrow> (sz, [], s1)
      | (Inr rid, s1) \<Rightarrow>
          if rid > 0 then
            (let sz1 = (if sz = 0
                   then (case GetImageByRepoTag rid ref s1 of Inl _ \<Rightarrow> 0 | Inr im \<Rightarrow> im_size im) else sz);
                 s2 = snd (SyncImage now (manifest_image rid ref digest m sz1) s1)
             in (sz1, (case ListTagsByDigest rid digest ref s2 of Inl _ \<Rightarrow> [] | Inr tags \<Rightarrow> tags), s2))
          else (sz, [], s1))"

definition getManifest ::
    "int \<Rightarrow> 'r client \<Rightarrow> request \<Rightarrow> string \<Rightarrow> string \<Rightarrow> 'r world \<Rightarrow> manifest_view reply \<times> 'r world" where
  "getManifest now c rq name ref w =
     (case Manifest c name ref (w_reg w) of
        Inl _ \<Rightarrow> (Fail 502, w)
      | Inr m \<Rightarrow>
          (let digest = (if rm_digest m = []
                 then (case Digest c name ref (w_reg w) of Inl _ \<Rightarrow> [] | Inr (d, _) \<Rightarrow> d) else rm_digest m)
           in case sync_manifest now name ref digest m (imageSize c name (rm_payload m) (w_reg w)) (w_store w) of
                (sz, shared, s1) \<Rightarrow>
                  (Reply 200 \<lparr>mv_name = name, mv_ref = ref, mv_digest = rm_digest m, mv_ctype = rm_ctype m,
                     mv_size = sz, mv_shared = shared, mv_config = fetchImageConfig c name (rm_payload m) (w_reg w),
                     mv_atype = detectArtifactType (rm_ctype m) (rm_payload m), mv_payload = rm_payload m\<rparr>,
                   on_store (AddRecent now (currentUserID rq) name ref ''manifest'') (w\<lparr>w_store := s1\<rparr>))))"

definition headManifest :: "'r client \<Rightarrow> string \<Rightarrow> string \<Rightarrow> 'r \<Rightarrow> (string \<times> string) reply" where
  "headManifest c name ref r =
     (case Digest c name ref r of Inl _ \<Rightarrow> Fail 502 | Inr (d, ct) \<Rightarrow> Reply 200 (d, ct))"

text \<open>DELETE of a digest: everything that refers to it goes.\<close>

definition deleteDigest ::
    "int \<Rightarrow> 'r client \<Rightarrow> request \<Rightarrow> string \<Rightarrow> string \<Rightarrow> 'r world \<Rightarrow> int reply \<times> 'r world" where
  "deleteDigest now c rq name ref w =
     (case snapshotRecycleItems now c name ref (w_reg w) (w_store w) of (n, s1) \<Rightarrow>
        (case DeleteManifest c name ref (w_reg w) of
           (Some e, r1) \<Rightarrow>
             (Fail 502, on_store (AddAudit now (currentUserID rq) ''delete'' name ref ref ''error'' (error_text e))
                (w\<lparr>w_reg := r1, w_store := s1\<rparr>))
         | (None, r1) \<Rightarrow>
             (case resolveRepo now name s1 of (found, s2) \<Rightarrow>
                (let rid = (case found of Inl _ \<Rightarrow> 0 | Inr i \<Rightarrow> i);
                     s3 = (if rid > 0 then snd (SoftDeleteImageByDigest now rid ref s2) else s2);
                     s4 = snd (AddAuditWithImage now (currentUserID rq) ''delete'' name [] ref ''ok''
                        ''digest deleted; pending_gc snapshots can be restored before registry garbage-collect''
                        (image_of_digest ref s3) (name @ ''@'' @ ref) s3)
                 in (Reply 202 n, cleanup_if_empty c name
                       (fireWebhookEvent ''delete'' name [] ref (w\<lparr>w_reg := r1, w_store := s4\<rparr>)))))))"

definition deleteTag ::
    "int \<Rightarrow> 'r client \<Rightarrow> request \<Rightarrow> string \<Rightarrow> string \<Rightarrow> 'r world \<Rightarrow> (tag_result list \<times> int) reply \<times> 'r world" where
  "deleteTag now c rq name ref w =
     (case deleteTagsAware now c rq name [ref] w of (results, n, w1) \<Rightarrow>
        ((case results of
            [x] \<Rightarrow> if tr_ok x then Reply 202 (results, n) else Fail 502
          | _ \<Rightarrow> Fail 502), w1))"

section \<open>Tags\<close>

text \<open>The list, what the images table says when the registry has no such repository, and a refresh to run.\<close>

definition db_tags :: "int \<Rightarrow> store \<Rightarrow> string list option" where
  "db_tags rid s =
     (case ListImagesByRepo rid s of
        Inl _ \<Rightarrow> None
      | Inr imgs \<Rightarrow> Some (map im_tag (filter (\<lambda>im. \<not> im_deleted im \<and> im_tag im \<noteq> [] \<and> im_tag im \<noteq> ''_init'') imgs)))"

definition listTags ::
    "int \<Rightarrow> 'r client \<Rightarrow> request \<Rightarrow> string \<Rightarrow> 'r world
     \<Rightarrow> (string \<times> string list) reply \<times> 'r world \<times> (string \<times> string list) option" where
  "listTags now c rq name w =
     (case Tags c name (w_reg w) of
        Inr tags \<Rightarrow>
          (Reply 200 (name, tags), on_store (AddRecent now (currentUserID rq) name [] ''tags'') w, Some (name, tags))
      | Inl e \<Rightarrow>
          if \<not> IsStatus e 404 then (Fail 502, w, None)
          else (case resolveRepo now name (w_store w) of
             (Inl _, s1) \<Rightarrow> (Fail 502, w\<lparr>w_store := s1\<rparr>, None)
           | (Inr rid, s1) \<Rightarrow>
               (case (if rid > 0 then db_tags rid s1 else None) of
                  None \<Rightarrow> (Fail 502, w\<lparr>w_store := s1\<rparr>, None)
                | Some tags \<Rightarrow> (Reply 200 (name, tags), w\<lparr>w_store := s1\<rparr>, None))))"

section \<open>Dispatch\<close>

record repo_bodies =
  bd_policy :: "policy_req option"
  bd_tags :: "string list option"
  bd_keep :: "int option"

datatype repo_view =
  StatsV repo_stats_view
| PolicyV policy_body
| InitV string
| BatchV "tag_result list" int
| PreviewV preview_body
| RunV "tag_result list" int
| TagsV string "string list"
| ManifestV manifest_view
| HeadV string string
| DigestV int
| TagV "tag_result list" int

fun map_reply :: "('a \<Rightarrow> 'b) \<Rightarrow> 'a reply \<Rightarrow> 'b reply" where
  "map_reply f (Reply st x) = Reply st (f x)"
| "map_reply f (Fail st) = Fail st"
| "map_reply f Panic = Panic"

definition handleRepoInit :: "int \<Rightarrow> request \<Rightarrow> store \<Rightarrow> string reply \<times> store" where
  "handleRepoInit now rq s =
     (let name = TrimSuffix (TrimPrefix (rq_path rq) ''/api/repositories/'') ''/init'' in
      case resolveRepo now name s of (Inl _, s1) \<Rightarrow> (Fail 400, s1) | (Inr _, s1) \<Rightarrow> (Reply 200 name, s1))"

definition handleBatchDelete ::
    "int \<Rightarrow> 'r client \<Rightarrow> request \<Rightarrow> string list option \<Rightarrow> 'r world \<Rightarrow> (tag_result list \<times> int) reply \<times> 'r world" where
  "handleBatchDelete now c rq body w =
     (let name = TrimSuffix (TrimPrefix (rq_path rq) ''/api/repositories/'') ''/manifests/batch-delete'' in
      case body of
        None \<Rightarrow> (Fail 400, w)
      | Some tags \<Rightarrow> (case deleteTagsAware now c rq name tags w of (results, n, w1) \<Rightarrow> (Reply 200 (results, n), w1)))"

text \<open>Manifest routes: name and reference are cut at the last marker.\<close>

definition manifest_route ::
    "int \<Rightarrow> 'r client \<Rightarrow> request \<Rightarrow> string \<Rightarrow> 'r world \<Rightarrow> repo_view reply \<times> 'r world" where
  "manifest_route now c rq path w =
     (case LastIndex path ''/manifests/'' of
        None \<Rightarrow> (Fail 404, w)
      | Some i \<Rightarrow>
          (let name = take i path; ref = drop (i + length ''/manifests/'') path in
           if name = [] \<or> ref = [] then (Fail 404, w)
           else if rq_method rq = ''GET'' then
             (case getManifest now c rq name ref w of (rep, w1) \<Rightarrow> (map_reply ManifestV rep, w1))
           else if rq_method rq = ''HEAD'' then
             (map_reply (\<lambda>(d, ct). HeadV d ct) (headManifest c name ref (w_reg w)), w)
           else if rq_method rq = ''DELETE'' then
             (if HasPrefix ref ''sha256:''
              then (case deleteDigest now c rq name ref w of (rep, w1) \<Rightarrow> (map_reply DigestV rep, w1))
              else (case deleteTag now c rq name ref w of (rep, w1) \<Rightarrow> (map_reply (\<lambda>(x, n). TagV x n) rep, w1)))
           else (Fail 405, w)))"

definition repo_forbidden :: "request \<Rightarrow> string \<Rightarrow> store \<Rightarrow> bool" where
  "repo_forbidden rq repoName s \<longleftrightarrow>
     (repoName \<noteq> [] \<and> \<not> userCanAccessRepo rq repoName s) \<or>
     (isMutatingMethod (rq_method rq) \<and> (repoName = [] \<or> \<not> userCanWriteRepo rq repoName s))"

definition handleRepositorySubroutes ::
    "int \<Rightarrow> (tag_group list \<Rightarrow> tag_group list) \<Rightarrow> 'r client \<Rightarrow> request \<Rightarrow> repo_bodies \<Rightarrow> 'r world
     \<Rightarrow> repo_view reply \<times> 'r world \<times> (string \<times> string list) option" where
  "handleRepositorySubroutes now order c rq b w =
     (let path = TrimPrefix (rq_path rq) ''/api/repositories/''; m = rq_method rq;
          quiet = (\<lambda>(rep, w1). (rep, w1, None)) in
      if path = [] then (Fail 404, w, None)
      else if repo_forbidden rq (extractRepoNameFromPath path) (w_store w) then (Fail 403, w, None)
      else if HasSuffix path ''/stats'' \<and> m = ''GET'' then
        quiet (map_prod (map_reply StatsV) id (handleRepoStatsByRepo c rq w))
      else if HasSuffix path ''/tag-policy'' then
        quiet (map_prod (map_reply PolicyV) (\<lambda>s1. w\<lparr>w_store := s1\<rparr>) (handleRepoTagPolicy rq (bd_policy b) (w_store w)))
      else if HasSuffix path ''/init'' \<and> m = ''POST'' then
        quiet (map_prod (map_reply InitV) (\<lambda>s1. w\<lparr>w_store := s1\<rparr>) (handleRepoInit now rq (w_store w)))
      else if HasSuffix path ''/manifests/batch-delete'' \<and> m = ''POST'' then
        quiet (map_prod (map_reply (\<lambda>(x, n). BatchV x n)) id (handleBatchDelete now c rq (bd_tags b) w))
      else if HasSuffix path ''/retention-preview'' \<and> m = ''GET'' then
        quiet (map_prod (map_reply PreviewV) id (handleRetentionPreview now order c rq w))
      else if HasSuffix path ''/retention-run'' \<and> m = ''POST'' then
        quiet (map_prod (map_reply (\<lambda>(x, n). RunV x n)) id (handleRetentionRun now order c rq (bd_keep b) w))
      else if HasSuffix path ''/tags'' then
        (if m \<noteq> ''GET'' then (Fail 405, w, None)
         else case listTags now c rq (TrimSuffix path ''/tags'') w of
           (rep, w1, job) \<Rightarrow> (map_reply (\<lambda>(n, ts). TagsV n ts) rep, w1, job))
      else quiet (manifest_route now c rq path w))"

section \<open>The images table after a refresh\<close>

text \<open>What the table says of the live tags of a repository, and what a refresh should make of it.\<close>

definition live_digests :: "int \<Rightarrow> store \<Rightarrow> string \<rightharpoonup> string" where
  "live_digests rid s t =
     map_option im_digest (tfind (\<lambda>im. image_key rid t im \<and> \<not> im_deleted im) (s_images s))"

definition registry_view ::
    "'r client \<Rightarrow> string \<Rightarrow> 'r \<Rightarrow> string list \<Rightarrow> (string \<rightharpoonup> string) \<Rightarrow> string \<rightharpoonup> string" where
  "registry_view c name r tags m t =
     (if t \<in> set tags then (case Manifest c name t r of Inl _ \<Rightarrow> m t | Inr raw \<Rightarrow> Some (rm_digest raw)) else m t)"

lemma find_map_other:
  "(\<And>x. P (g x) = P x) \<Longrightarrow> (\<And>x. P x \<Longrightarrow> g x = x) \<Longrightarrow> List.find P (map g xs) = List.find P xs"
  by (induction xs) auto

lemma upsert_find_other:
  assumes "\<And>x. K x \<Longrightarrow> \<not> P x \<and> \<not> P (f x)" "\<And>i. \<not> P (mk i)"
  shows "tfind P (tupsert K f mk tb) = tfind P tb"
proof (cases "thas K tb")
  case True
  have "List.find P (map (\<lambda>x. if K x then f x else x) (trows tb)) = List.find P (trows tb)"
    by (rule find_map_other) (use assms(1) in auto)
  then show ?thesis using True by (simp add: tupsert_def tfind_def tupdate_simps)
qed (simp add: tupsert_def tfind_insert assms(2) split: option.split)

lemma upsert_find_same:
  assumes "\<And>x. K x \<Longrightarrow> P (f x) \<and> d (f x) = v" "\<And>x. P x \<Longrightarrow> K x" "\<And>i. P (mk i) \<and> d (mk i) = v"
    and "\<And>x. K x \<Longrightarrow> K (f x)"
  shows "map_option d (tfind P (tupsert K f mk tb)) = Some v"
proof (cases "thas K tb")
  case True
  let ?g = "\<lambda>x. if K x then f x else x"
  obtain x where x: "x \<in> set (trows tb)" "K x" using True by (auto simp: thas_iff)
  then have "thas P (tupdate K f tb)"
    unfolding thas_update using assms(1) by (intro bexI[of _ x]) simp_all
  then obtain y where y: "tfind P (tupdate K f tb) = Some y" using tfind_None by fastforce
  then have "y \<in> set (map ?g (trows tb))" "P y" by (auto dest!: tfind_SomeD simp: tupdate_simps)
  then have "d y = v" using assms(1,2) by (auto split: if_splits)
  then show ?thesis using True y by (simp add: tupsert_def)
next
  case False
  then have "tfind P tb = None" using assms(2) by (auto simp: tfind_None thas_iff)
  then show ?thesis using False assms(3) by (simp add: tupsert_def tfind_insert)
qed

lemma SyncImage_live:
  assumes "\<not> s_fault s TImages" "repo_exists s rid"
  shows "live_digests rid (snd (SyncImage now (tag_image rid tag d sz) s)) = (live_digests rid s)(tag \<mapsto> d)"
proof
  fix t
  have ok: "im_repo (tag_image rid tag d sz) = rid" "im_tag (tag_image rid tag d sz) = tag"
    "im_digest (tag_image rid tag d sz) = d" by (simp_all add: tag_image_def)
  show "live_digests rid (snd (SyncImage now (tag_image rid tag d sz) s)) t = ((live_digests rid s)(tag \<mapsto> d)) t"
  proof (cases "t = tag")
    case True
    then show ?thesis using assms
      by (simp add: SyncImage_def live_digests_def ok del: map_option_eq_Some)
        (rule upsert_find_same; auto simp: image_key_def ok)
  next
    case False
    then show ?thesis using assms
      by (simp add: SyncImage_def live_digests_def ok)
        (rule arg_cong[where f = "map_option im_digest"], rule upsert_find_other; auto simp: image_key_def ok)
  qed
qed

lemma SyncImage_keeps:
  "s_repos (snd (SyncImage now im s)) = s_repos s" "s_fault (snd (SyncImage now im s)) = s_fault s"
  by (simp_all add: SyncImage_def)

lemma sync_loop_live:
  "\<not> s_fault s TImages \<Longrightarrow> repo_exists s rid \<Longrightarrow>
   live_digests rid (sync_loop now c name rid r tags sizes s) = registry_view c name r tags (live_digests rid s)"
proof (induction tags arbitrary: sizes s)
  case Nil
  then show ?case by (simp add: registry_view_def fun_eq_iff)
next
  case (Cons tag tags)
  show ?case
  proof (cases "Manifest c name tag r")
    case (Inl e)
    then show ?thesis using Cons by (auto simp: registry_view_def fun_eq_iff)
  next
    case (Inr m)
    let ?s1 = "snd (SyncImage now (tag_image rid tag (rm_digest m) (size_of c name r m sizes)) s)"
    have "live_digests rid (sync_loop now c name rid r tags sizes' ?s1) = registry_view c name r tags (live_digests rid ?s1)"
      for sizes' by (rule Cons.IH) (simp_all add: SyncImage_keeps Cons.prems)
    then have "live_digests rid (sync_loop now c name rid r (tag # tags) sizes s) =
        registry_view c name r tags ((live_digests rid s)(tag \<mapsto> rm_digest m))"
      unfolding SyncImage_live[OF Cons.prems] by (simp only: sync_loop.simps Inr sum.case Let_def)
    then show ?thesis using Inr by (auto simp: registry_view_def fun_eq_iff simp del: sync_loop.simps split: sum.split)
  qed
qed

text \<open>
  C28. A background refresh that its deadline of two minutes does not cut short implements its
  specification: whatever the images table said before, after refreshing a repository the table has
  for every listed tag whose manifest the registry serves a live row with the registry's digest,
  restored if it was soft-deleted, and says of every other tag what it said before.
\<close>

theorem sync_refines_registry:
  assumes "resolveRepo now name s = (Inr rid, s1)" and "rid \<noteq> 0"
    and "repo_exists s1 rid" and "\<not> s_fault s TImages"
  shows "live_digests rid (sync_tags now c name tags r s) = registry_view c name r tags (live_digests rid s)"
proof -
  have im: "s_images s1 = s_images s"
    using assms(1) by (auto simp: resolveRepo_def UpsertNamespace_def UpsertRepository_def Let_def
        split: option.splits prod.splits sum.splits if_splits)
  have "s_fault s1 = s_fault s" using reaches_fault[OF resolveRepo_reaches[of s now name]] assms(1) by simp
  then have "\<not> s_fault s1 TImages" using assms(4) by simp
  from sync_loop_live[OF this assms(3)] show ?thesis
    using assms(1,2) im by (simp add: sync_tags_def live_digests_def[abs_def])
qed

theorem sync_refines_registry_witness:
  "live_digests 1 app_store ''v1'' = Some ''a'' \<and>
   live_digests 1 (sync_tags 30 one_client ''app'' [''v1'', ''v3''] ''b'' app_store) =
     (live_digests 1 app_store)(''v1'' \<mapsto> ''b'', ''v3'' \<mapsto> ''b'')"
proof -
  have app: "repo_exists app_store 1" "\<not> s_fault app_store TImages"
    by (simp_all add: app_store_eq new_repo_def empty_store_def thas_iff)
  have "Manifest one_client ''app'' t ''b'' =
      Inr \<lparr>rm_digest = ''b'', rm_ctype = [], rm_body = ''b'', rm_payload = None\<rparr>" for t
    unfolding Manifest_def by (rule one_raw) simp
  moreover have "live_digests 1 app_store ''v1'' = Some ''a''"
    by (simp add: live_digests_def app_store_eq app_rows_def app_image_def image_zero_def image_key_def tfind_def)
  ultimately show ?thesis
    using sync_refines_registry[OF app_resolve _ app, of 30 one_client "[''v1'', ''v3'']" "''b''"]
    by (auto simp: registry_view_def fun_eq_iff)
qed

section \<open>How the startup walk ends\<close>

text \<open>Following the cursors of the catalog: the pages read, and the cursor of the next one.\<close>

inductive reads :: "'r client \<Rightarrow> 'r \<Rightarrow> string \<Rightarrow> string list list \<Rightarrow> string \<Rightarrow> bool" where
  no_page: "reads c r lst [] lst"
| page: "Catalog c ''100'' lst r = Inr (repos, nxt) \<Longrightarrow> nxt \<noteq> [] \<Longrightarrow> reads c r nxt pages end \<Longrightarrow>
    reads c r lst (repos # pages) end"

lemma sync_from_outcome:
  "case sync_from now c r lst counts s k of
     (Inr counts1, _) \<Rightarrow> \<exists>pages end final. reads c r lst pages end \<and> Catalog c ''100'' end r = Inr (final, []) \<and>
        fst counts1 = fst counts + int (length (concat (pages @ [final]))) \<and> length pages < k
   | (Inl e, _) \<Rightarrow> \<exists>pages end. reads c r lst pages end \<and> length pages \<le> k \<and>
        (e = deadline_exceeded \<or> Catalog c ''100'' end r = Inl e)"
proof (induction now c r lst counts s k rule: sync_from.induct)
  case (1 now c r lst counts s k)
  show ?case
  proof (cases "k = 0")
    case True
    then have "fst (sync_from now c r lst counts s k) = Inl deadline_exceeded"
      by (subst sync_from.simps) (simp add: timed_def)
    then show ?thesis using reads.no_page[of c r lst]
      by (cases "sync_from now c r lst counts s k") (auto intro!: exI[of _ "[] :: string list list"])
  next
    case False
    show ?thesis
    proof (cases "Catalog c ''100'' lst r")
      case (Inl e)
      with False have "sync_from now c r lst counts s k = (Inl e, s)" by (subst sync_from.simps) (simp add: timed_def)
      with Inl show ?thesis using reads.no_page[of c r lst] by (auto intro!: exI[of _ "[] :: string list list"])
    next
      case (Inr q)
      obtain repos nxt where q: "q = (repos, nxt)" by fastforce
      obtain counts1 s1 k2 where p: "sync_page now c r repos counts s (k - 1) = (counts1, s1, k2)"
        by (metis prod_cases3)
      note le = sync_page_le[OF p]
      have t: "timed k (Catalog c ''100'' lst r) = (Inr (repos, nxt), k - 1)"
        using False Inr q by (simp add: timed_def)
      show ?thesis
      proof (cases "nxt = []")
        case True
        with t p have "sync_from now c r lst counts s k = (Inr counts1, s1)"
          by (subst sync_from.simps) simp
        then show ?thesis using True False le Inr q reads.no_page[of c r lst]
          by (auto intro!: exI[of _ "[] :: string list list"] exI[of _ lst])
      next
        case more: False
        have eq: "sync_from now c r lst counts s k = sync_from now c r nxt counts1 s1 k2"
          using t p more by (subst sync_from.simps) simp
        note IH = 1[OF t[symmetric] refl refl p[symmetric] refl more]
        note step = reads.page[OF Inr[unfolded q] more]
        obtain res s2 where res: "sync_from now c r nxt counts1 s1 k2 = (res, s2)" by fastforce
        show ?thesis
        proof (cases res)
          case (Inl e)
          with IH res obtain pages "end" where "reads c r nxt pages end" "length pages \<le> k2"
            "e = deadline_exceeded \<or> Catalog c ''100'' end r = Inl e" by auto
          with step[of pages "end"] Inl eq res le False show ?thesis
            by (auto intro!: exI[of _ "repos # pages"] exI[of _ "end"])
        next
          case (Inr counts2)
          with IH res obtain pages "end" final where "reads c r nxt pages end" "length pages < k2"
            "Catalog c ''100'' end r = Inr (final, [])"
            "fst counts2 = fst counts1 + int (length (concat (pages @ [final])))" by auto
          with step[of pages "end"] Inr eq res le False show ?thesis
            by (auto intro!: exI[of _ "repos # pages"] exI[of _ "end"] exI[of _ final])
        qed
      qed
    qed
  qed
qed

lemma sync_from_completes:
  assumes "reads c r lst pages end" "Catalog c ''100'' end r = Inr (final, [])"
    and "sum_list (map (\<lambda>repos. 1 + page_cost c r repos) (pages @ [final])) \<le> k"
  shows "\<exists>counts1. fst (sync_from now c r lst counts s k) = Inr counts1"
  using assms
proof (induction arbitrary: counts s k rule: reads.induct)
  case (no_page c r lst)
  then have "timed k (Catalog c ''100'' lst r) = (Inr (final, []), k - 1)" by (simp add: timed_def)
  then show ?case by (subst sync_from.simps) (simp split: prod.split)
next
  case (page c lst r repos nxt pages "end")
  then have t: "timed k (Catalog c ''100'' lst r) = (Inr (repos, nxt), k - 1)" by (simp add: timed_def)
  obtain counts1 s1 k2 where p: "sync_page now c r repos counts s (k - 1) = (counts1, s1, k2)"
    by (metis prod_cases3)
  have "sum_list (map (\<lambda>repos. 1 + page_cost c r repos) (pages @ [final])) \<le> k2"
    using conjunct1[OF conjunct2[OF sync_page_le[OF p]]] page.prems(2) by simp
  from page.IH[OF page.prems(1) this] t p page.hyps(2) show ?case by (subst sync_from.simps) simp
qed

text \<open>
  C29. The walk over the registry at startup always returns, because its context has a deadline; \<open>k\<close>
  is the number of calls answered before it. When the walk reports success it has followed the
  cursors, in fewer than \<open>k\<close> steps, to a page without a next cursor, and has been through the
  repositories of all these pages, each counted once. When it reports an error it has read at most
  \<open>k\<close> pages, and the error is the deadline or the answer of the catalog where the cursors led. And
  it does succeed when the cursors lead to a last page and the deadline leaves time for one call
  per page, one per repository and 4371 per tag.
\<close>

theorem sync_all_ends:
  "(\<forall>repos images s'. SyncAll now c r k s = (Inr (repos, images), s') \<longrightarrow>
      (\<exists>pages end final. reads c r [] pages end \<and> Catalog c ''100'' end r = Inr (final, []) \<and>
         repos = int (length (concat (pages @ [final]))) \<and> length pages < k)) \<and>
   (\<forall>e s'. SyncAll now c r k s = (Inl e, s') \<longrightarrow>
      (\<exists>pages end. reads c r [] pages end \<and> length pages \<le> k \<and>
         (e = deadline_exceeded \<or> Catalog c ''100'' end r = Inl e))) \<and>
   (\<forall>pages end final. reads c r [] pages end \<and> Catalog c ''100'' end r = Inr (final, []) \<and>
      sum_list (map (\<lambda>repos. 1 + page_cost c r repos) (pages @ [final])) \<le> k \<longrightarrow>
      (\<exists>counts. fst (SyncAll now c r k s) = Inr counts))"
proof (intro conjI allI impI)
  fix repos images s'
  assume "SyncAll now c r k s = (Inr (repos, images), s')"
  then show "\<exists>pages end final. reads c r [] pages end \<and> Catalog c ''100'' end r = Inr (final, []) \<and>
      repos = int (length (concat (pages @ [final]))) \<and> length pages < k"
    using sync_from_outcome[where now = now and c = c and r = r and lst = "[]" and counts = "(0, 0)" and s = s and k = k] by (simp add: SyncAll_def)
next
  fix e s'
  assume "SyncAll now c r k s = (Inl e, s')"
  then show "\<exists>pages end. reads c r [] pages end \<and> length pages \<le> k \<and>
      (e = deadline_exceeded \<or> Catalog c ''100'' end r = Inl e)"
    using sync_from_outcome[where now = now and c = c and r = r and lst = "[]" and counts = "(0, 0)" and s = s and k = k] by (simp add: SyncAll_def)
next
  fix pages "end" final
  assume "reads c r [] pages end \<and> Catalog c ''100'' end r = Inr (final, []) \<and>
    sum_list (map (\<lambda>repos. 1 + page_cost c r repos) (pages @ [final])) \<le> k"
  then show "\<exists>counts. fst (SyncAll now c r k s) = Inr counts"
    unfolding SyncAll_def by (blast intro: sync_from_completes)
qed

text \<open>A registry whose catalog has the two repositories \<^verbatim>\<open>app\<close> and \<^verbatim>\<open>web\<close>, without tags.\<close>

definition two_client :: "unit client" where
  "two_client = table_client (\<lambda>_. Some ([], []))
     (\<lambda>_. Some (JObj [(''repositories'', JArr [JStr ''app'', JStr ''web''])]))"

lemma two_answers:
  "Catalog two_client ''100'' [] () = Inr ([''app'', ''web''], [])" "Tags two_client name () = Inr []"
  by (simp_all add: Catalog_def Tags_def two_client_def table_client_def do_get_def read_resp_def mk_req_def
      ok_status_def maxResponseBytes_def string_list_def jget_def parseNextLast_def)

theorem sync_all_ends_witness:
  "\<exists>images. fst (SyncAll 5 two_client () 3 empty_store) = Inr (2, images)"
proof -
  note ends = sync_all_ends[where now = 5 and c = two_client and r = "()" and k = 3 and s = empty_store]
  have "reads two_client () [] [] []" by (rule reads.no_page)
  moreover have "sum_list (map (\<lambda>repos. 1 + page_cost two_client () repos) ([] @ [[''app'', ''web'']])) \<le> 3"
    by (simp add: two_answers)
  ultimately obtain counts where "fst (SyncAll 5 two_client () 3 empty_store) = Inr counts"
    using ends two_answers(1) by blast
  then obtain repos images s' where run: "SyncAll 5 two_client () 3 empty_store = (Inr (repos, images), s')"
    by (metis prod.collapse)
  then obtain pages "end" final where w: "reads two_client () [] pages end"
      "Catalog two_client ''100'' end () = Inr (final, [])" "repos = int (length (concat (pages @ [final])))"
    using ends by blast
  from w(1) have "pages = []" "end = []" by (cases; simp add: two_answers)+
  with w(2,3) two_answers(1) run show ?thesis by auto
qed

text \<open>
  A catalog that repeats its cursor keeps the walk busy for as long as the deadline lets it, and it
  then ends in the error of the deadline, never in success.
\<close>

lemma repeated_cursor_runs_out:
  assumes "\<And>lst. \<exists>repos. Catalog c ''100'' lst r = Inr (repos, cur)" and "cur \<noteq> []"
  shows "fst (SyncAll now c r k s) = Inl deadline_exceeded"
proof -
  obtain res s' where run: "SyncAll now c r k s = (res, s')" by fastforce
  have answer: "\<exists>repos. Catalog c ''100'' lst r = Inr (repos, cur)" for lst by (rule assms(1))
  show ?thesis
  proof (cases res)
    case (Inl e)
    then obtain "end" where "e = deadline_exceeded \<or> Catalog c ''100'' end r = Inl e"
      using run sync_from_outcome[where now = now and c = c and r = r and lst = "[]" and counts = "(0, 0)" and s = s and k = k] by (auto simp: SyncAll_def)
    then show ?thesis using run Inl answer[of "end"] by auto
  next
    case (Inr counts)
    then obtain "end" final where "Catalog c ''100'' end r = Inr (final, [])"
      using run sync_from_outcome[where now = now and c = c and r = r and lst = "[]" and counts = "(0, 0)" and s = s and k = k] by (auto simp: SyncAll_def)
    then show ?thesis using answer[of "end"] assms(2) by auto
  qed
qed

section \<open>Which name a deletion is checked on\<close>

lemma slash_suffix:
  assumes "CHR ''/'' \<notin> set ref" "CHR ''/'' \<notin> set v"
  shows "HasSuffix (x @ CHR ''/'' # ref) (CHR ''/'' # v) \<longleftrightarrow> ref = v"
proof
  assume "HasSuffix (x @ CHR ''/'' # ref) (CHR ''/'' # v)"
  then obtain t where "x @ CHR ''/'' # ref = t @ CHR ''/'' # v" by (auto simp: HasSuffix_iff)
  then have "rev ref @ CHR ''/'' # rev x = rev v @ CHR ''/'' # rev t"
    by (metis append.assoc append_Cons append_Nil rev.simps(2) rev_append)
  then have "takeWhile (\<lambda>c. c \<noteq> CHR ''/'') (rev ref @ CHR ''/'' # rev x) =
             takeWhile (\<lambda>c. c \<noteq> CHR ''/'') (rev v @ CHR ''/'' # rev t)" by simp
  moreover have "takeWhile (\<lambda>c. c \<noteq> CHR ''/'') (rev y @ CHR ''/'' # z) = rev y"
    if "CHR ''/'' \<notin> set y" for y z :: string
    using that by (subst takeWhile_append2) auto
  ultimately show "ref = v" using assms by simp
qed (auto simp: HasSuffix_iff)

lemma manifest_cut:
  assumes "CHR ''/'' \<notin> set ref"
  shows "LastIndex (repo @ ''/manifests/'' @ ref) ''/manifests/'' = Some (length repo)"
proof -
  let ?path = "repo @ CHR ''/'' # ''manifests'' @ CHR ''/'' # ref"
  have "occurs_at ?path ''/manifests/'' (length repo)" by (auto simp: occurs_at_def HasPrefix_iff)
  then obtain i where i: "LastIndex ?path ''/manifests/'' = Some i" "length repo \<le> i"
    using occurs_LastIndex by blast
  have "\<not> length repo < i"
    using occurs_after_name(2)[OF _ assms _ _ LastIndex_occurs[OF i(1)]] short_ref_no_marker[OF assms]
    by force
  with i show ?thesis by simp
qed

text \<open>
  C30. Deleting a tag over \<^verbatim>\<open>/api/repositories/repo/manifests/tag\<close> acts on the repository before the last
  \<^verbatim>\<open>/manifests/\<close>, and is refused with 403 before anything changes unless the user may read and write the
  name the permission check cuts out of the path. That name is the repository itself, except that a tag
  that begins like a reserved sub-path (\<^verbatim>\<open>tags\<close>, \<^verbatim>\<open>stats\<close>, \<^verbatim>\<open>init\<close> and the others) moves the check to
  \<^verbatim>\<open>repo/manifests\<close>.
\<close>

theorem delete_permission_checked_on:
  assumes path: "rq_path rq = ''/api/repositories/'' @ repo @ ''/manifests/'' @ ref"
    and del: "rq_method rq = ''DELETE''" and repo: "repo \<noteq> []"
    and ref: "ref \<noteq> []" "CHR ''/'' \<notin> set ref" "ref \<noteq> ''tags''" "ref \<noteq> ''tag-policy''" "\<not> HasPrefix ref ''sha256:''"
    and checked: "checked = (if list_ex (HasPrefix (''/'' @ ref)) apiRepoSubPathSuffixes
                             then repo @ ''/manifests'' else repo)"
  shows "handleRepositorySubroutes now order c rq b w =
         (if userCanAccessRepo rq checked (w_store w) \<and> userCanWriteRepo rq checked (w_store w)
          then (case deleteTag now c rq repo ref w of (rep, w1) \<Rightarrow> (map_reply (\<lambda>(x, n). TagV x n) rep, w1, None))
          else (Fail 403, w, None))"
proof -
  let ?path = "repo @ ''/manifests/'' @ ref"
  have trim: "TrimPrefix (rq_path rq) ''/api/repositories/'' = ?path"
    unfolding path by (rule TrimPrefix_append)
  have name: "extractRepoNameFromPath ?path = checked"
    using extractRepoName_manifest_path[OF repo ref(2)] checked by simp
  have "checked \<noteq> []" using checked repo by simp
  then have forbidden: "repo_forbidden rq checked (w_store w) \<longleftrightarrow>
      \<not> (userCanAccessRepo rq checked (w_store w) \<and> userCanWriteRepo rq checked (w_store w))"
    by (auto simp: repo_forbidden_def del isMutatingMethod_def)
  have suffix: "HasSuffix ?path (CHR ''/'' # v) \<longleftrightarrow> ref = v" if "CHR ''/'' \<notin> set v" for v
    using slash_suffix[OF ref(2) that, of "repo @ ''/manifests''"] by simp
  have "\<not> HasSuffix ?path ''/tag-policy''" "\<not> HasSuffix ?path ''/tags''"
    using ref(3,4) by (simp_all add: suffix del: append.simps)
  moreover have "manifest_route now c rq ?path w =
      (case deleteTag now c rq repo ref w of (rep, w1) \<Rightarrow> (map_reply (\<lambda>(x, n). TagV x n) rep, w1))"
    unfolding manifest_route_def manifest_cut[OF ref(2)] using repo ref(1,5) del
    by (simp add: Let_def)
  ultimately show ?thesis
    unfolding handleRepositorySubroutes_def trim Let_def name forbidden using repo
    by (simp add: del split_beta)
qed

text \<open>A user whose only grant is for \<^verbatim>\<open>app/manifests\<close>, deleting a tag \<^verbatim>\<open>init-2\<close> of \<^verbatim>\<open>app\<close>.\<close>

definition side_user :: user_row where
  "side_user = \<lparr>us_id = 7, us_name = ''eve'', us_hash = ''h'', us_admin = False, us_enabled = True,
     us_mustchange = False, us_created = 1, us_updated = 1\<rparr>"

definition side_store :: store where
  "side_store = empty_store\<lparr>s_perms := \<lparr>trows = [\<lparr>pm_id = 1, pm_user = 7, pm_pattern = ''app/manifests'',
     pm_read = True, pm_write = True, pm_created = 1\<rparr>], tseq = 1\<rparr>\<rparr>"

definition side_delete :: request where
  "side_delete = blank_request\<lparr>rq_method := ''DELETE'', rq_user := Some side_user,
     rq_path := ''/api/repositories/app/manifests/init-2''\<rparr>"

lemma side_grants:
  "\<not> userCanWriteRepo side_delete ''app'' side_store"
  "userCanAccessRepo side_delete ''app/manifests'' side_store"
  "userCanWriteRepo side_delete ''app/manifests'' side_store"
  by (simp_all add: userCanWriteRepo_def userCanAccessRepo_def side_delete_def side_user_def side_store_def
      ListUserPermissions_def tselect_def perm_covers_def HasPrefix_def empty_store_def)

theorem delete_permission_checked_on_witness:
  "\<not> userCanWriteRepo side_delete ''app'' side_store \<and>
   handleRepositorySubroutes 30 rev one_client side_delete \<lparr>bd_policy = None, bd_tags = None, bd_keep = None\<rparr>
      \<lparr>w_store = side_store, w_reg = ''a'', w_events = []\<rparr> =
    (case deleteTag 30 one_client side_delete ''app'' ''init-2'' \<lparr>w_store = side_store, w_reg = ''a'', w_events = []\<rparr> of
       (rep, w1) \<Rightarrow> (map_reply (\<lambda>(x, n). TagV x n) rep, w1, None))"
proof -
  have "rq_path side_delete = ''/api/repositories/'' @ ''app'' @ ''/manifests/'' @ ''init-2''" "rq_method side_delete = ''DELETE''"
    by (simp_all add: side_delete_def)
  moreover have "list_ex (HasPrefix (''/'' @ ''init-2'')) apiRepoSubPathSuffixes"
    by (simp add: apiRepoSubPathSuffixes_def HasPrefix_def)
  ultimately show ?thesis
    using delete_permission_checked_on[of side_delete "''app''" "''init-2''" "''app/manifests''" 30 rev one_client _
        "\<lparr>w_store = side_store, w_reg = ''a'', w_events = []\<rparr>"] side_grants
    by (simp add: HasPrefix_def)
qed

end
