(* ===== verification/Assets.thy ===== *)
theory Assets
  imports Auth "HOL-Library.Word"
begin

unbundle bit_operations_syntax

text \<open>
  The files the server hands out: the embedded user interface (\<^verbatim>\<open>static.go\<close>), uploaded logos and
  avatars (\<^verbatim>\<open>uploads.go\<close>), and the generated default avatar (\<^verbatim>\<open>user.go\<close>), with the parts of
  \<^verbatim>\<open>path\<close>, \<^verbatim>\<open>hash/fnv\<close> and \<^verbatim>\<open>html\<close> they use. The upload directory is the list of its entries in
  the order \<^verbatim>\<open>os.ReadDir\<close> gives them; the embedded files are a map.
\<close>

section \<open>Paths\<close>

definition last_element :: "string \<Rightarrow> string" where
  "last_element p = rev (takeWhile (\<lambda>c. c \<noteq> CHR ''/'') (rev p))"

definition Ext :: "string \<Rightarrow> string" where
  "Ext p =
     (let e = rev (last_element p) in
      if CHR ''.'' \<in> set e then CHR ''.'' # rev (takeWhile (\<lambda>c. c \<noteq> CHR ''.'') e) else [])"

definition Base :: "string \<Rightarrow> string" where
  "Base p =
     (let q = TrimRight p ''/'' in
      if p = [] then ''.'' else if q = [] then ''/'' else last_element q)"

section \<open>The embedded interface\<close>

definition contentTypeFor :: "string \<Rightarrow> string" where
  "contentTypeFor name =
     (if HasSuffix name ''.js'' then ''application/javascript; charset=utf-8''
      else if HasSuffix name ''.css'' then ''text/css; charset=utf-8''
      else if HasSuffix name ''.html'' then ''text/html; charset=utf-8''
      else if HasSuffix name ''.svg'' then ''image/svg+xml''
      else if HasSuffix name ''.png'' then ''image/png''
      else ''text/plain; charset=utf-8'')"

text \<open>\<^verbatim>\<open>fnv.New64a\<close>, and \<^verbatim>\<open>%x\<close>.\<close>

definition fnv_step :: "64 word \<Rightarrow> char \<Rightarrow> 64 word" where
  "fnv_step h c = (h XOR of_nat (of_char c)) * 0x100000001b3"

definition fnv64a :: "string \<Rightarrow> 64 word" where
  "fnv64a s = foldl fnv_step 0xcbf29ce484222325 s"

fun hex_digits :: "nat \<Rightarrow> string" where
  "hex_digits n = (if n < 16 then [hex_lower n] else hex_digits (n div 16) @ [hex_lower (n mod 16)])"

declare hex_digits.simps [simp del]

definition staticETag :: "string \<Rightarrow> string \<Rightarrow> string" where
  "staticETag name body = [CHR 0x22] @ Base name @ ''-'' @ hex_digits (unat (fnv64a body)) @ [CHR 0x22]"

record static_view =
  st_name :: string
  st_etag :: string
  st_ctype :: string
  st_length :: int
  st_body :: string

definition serve_asset :: "request \<Rightarrow> string \<Rightarrow> string \<Rightarrow> static_view reply" where
  "serve_asset rq name body =
     (let etag = staticETag name body; match = rq_header rq ''If-None-Match'' in
      if match \<noteq> [] \<and> Contains match etag
      then Reply 304 \<lparr>st_name = name, st_etag = etag, st_ctype = [], st_length = 0, st_body = []\<rparr>
      else Reply 200 \<lparr>st_name = name, st_etag = etag, st_ctype = contentTypeFor name, st_length = int (length body),
             st_body = (if rq_method rq = ''HEAD'' then [] else body)\<rparr>)"

definition asset_path :: "string \<Rightarrow> string" where
  "asset_path p = (let clean = Clean p in if clean = ''/'' \<or> clean = ''.'' then ''/index.html'' else clean)"

definition handleStatic :: "(string \<rightharpoonup> string) \<Rightarrow> request \<Rightarrow> static_view reply" where
  "handleStatic files rq =
     (if rq_method rq \<noteq> ''GET'' \<and> rq_method rq \<noteq> ''HEAD'' then Fail 405
      else let clean = asset_path (rq_path rq) in
        if Contains clean ''..'' then Fail 404
        else case files (''static'' @ clean) of
          Some body \<Rightarrow> serve_asset rq (''static'' @ clean) body
        | None \<Rightarrow>
            if Ext clean \<noteq> [] then Fail 404
            else case files ''static/index.html'' of
              None \<Rightarrow> Fail 404
            | Some body \<Rightarrow> serve_asset rq ''static/index.html'' body)"

section \<open>Uploads\<close>

record upload =
  ue_name :: string
  ue_dir :: bool
  ue_info :: bool
  ue_mtime :: int
  ue_body :: string

definition maxLogoUploadBytes :: nat where
  "maxLogoUploadBytes = 2 * 1024 * 1024"

definition allowedLogoContentTypes :: "string \<rightharpoonup> string" where
  "allowedLogoContentTypes = map_of
     [(''image/png'', ''.png''), (''image/jpeg'', ''.jpg''), (''image/gif'', ''.gif''),
      (''image/webp'', ''.webp''), (''image/svg+xml'', ''.svg'')]"

text \<open>
  \<^verbatim>\<open>http.DetectContentType\<close>, as far as the allowed types go: the signatures of PNG, JPEG, GIF and
  WebP start with bytes no other signature starts with. Anything else is not in the table.
\<close>

definition DetectContentType :: "string \<Rightarrow> string" where
  "DetectContentType b =
     (if HasPrefix b ''GIF87a'' \<or> HasPrefix b ''GIF89a'' then ''image/gif''
      else if HasPrefix b ''RIFF'' \<and> HasPrefix (drop 8 b) ''WEBPVP'' then ''image/webp''
      else if HasPrefix b [CHR 0x89, CHR ''P'', CHR ''N'', CHR ''G'', CHR 0x0D, CHR 0x0A, CHR 0x1A, CHR 0x0A] then ''image/png''
      else if HasPrefix b [CHR 0xFF, CHR 0xD8, CHR 0xFF] then ''image/jpeg''
      else ''application/octet-stream'')"

text \<open>
  What happens around an upload: the directory can be made, the multipart parser finds the field in
  the first bytes of the body (file name and contents), 16 random bytes, the file can be created, the
  number of bytes after which writing fails, and the time.
\<close>

record upload_env =
  ev_mkdir :: bool
  ev_form :: "string \<Rightarrow> string \<Rightarrow> (string \<times> string) option"
  ev_random :: "string option"
  ev_open :: bool
  ev_write :: "nat option"
  ev_now :: int

definition stored_at :: "string \<Rightarrow> upload list \<Rightarrow> upload option" where
  "stored_at name dir = List.find (\<lambda>e. ue_name e = name) dir"

definition store_upload :: "upload_env \<Rightarrow> string \<Rightarrow> string \<Rightarrow> upload list \<Rightarrow> bool \<times> upload list" where
  "store_upload ev name body dir =
     (if \<not> ev_open ev \<or> stored_at name dir \<noteq> None then (False, dir)
      else let e = \<lparr>ue_name = name, ue_dir = False, ue_info = True, ue_mtime = ev_now ev,
                ue_body = (case ev_write ev of None \<Rightarrow> body | Some n \<Rightarrow> take n body)\<rparr>
        in (ev_write ev = None, insort_key ue_name e dir))"

text \<open>\<^verbatim>\<open>handleImageUpload\<close>: URL and content type, or the status of the answer already written.\<close>

definition handleImageUpload ::
    "upload_env \<Rightarrow> request \<Rightarrow> string \<Rightarrow> string \<Rightarrow> string \<Rightarrow> upload list \<Rightarrow> (int + string \<times> string) \<times> upload list" where
  "handleImageUpload ev rq body field prefix dir =
     (if rq_method rq \<noteq> ''POST'' then (Inl 405, dir)
      else if \<not> ev_mkdir ev then (Inl 500, dir)
      else case ev_form ev field (take maxLogoUploadBytes body) of
        None \<Rightarrow> (Inl 400, dir)
      | Some (filename, content) \<Rightarrow>
          (let ct = (if HasSuffix (ToLower filename) ''.svg'' then ''image/svg+xml'' else DetectContentType (take 512 content)) in
           case allowedLogoContentTypes ct of
             None \<Rightarrow> (Inl 400, dir)
           | Some ext \<Rightarrow>
               (case ev_random ev of
                  None \<Rightarrow> (Inl 500, dir)
                | Some bytes \<Rightarrow>
                    (let name = prefix @ ''-'' @ HexEncode bytes @ ext in
                     case store_upload ev name content dir of
                       (False, dir1) \<Rightarrow> (Inl 500, dir1)
                     | (True, dir1) \<Rightarrow> (Inr (''/uploads/'' @ name, ct), dir1)))))"

definition handleLogoUpload ::
    "upload_env \<Rightarrow> request \<Rightarrow> string \<Rightarrow> upload list \<Rightarrow> store \<Rightarrow> (string \<times> string) reply \<times> upload list \<times> store" where
  "handleLogoUpload ev rq body dir s =
     (case handleImageUpload ev rq body ''logo'' ''logo'' dir of
        (Inl st, dir1) \<Rightarrow> (Fail st, dir1, s)
      | (Inr (url, ct), dir1) \<Rightarrow> (Reply 201 (url, ct), dir1, snd (SetSetting ''appLogo'' url s)))"

definition avatarSettingKey :: "string \<Rightarrow> string" where
  "avatarSettingKey username = ''userAvatar:'' @ (if username = [] then DefaultAdminUsername else username)"

definition handleAvatarUpload ::
    "upload_env \<Rightarrow> request \<Rightarrow> string \<Rightarrow> upload list \<Rightarrow> store \<Rightarrow> (string \<times> string) reply \<times> upload list \<times> store" where
  "handleAvatarUpload ev rq body dir s =
     (case handleImageUpload ev rq body ''avatar'' ''avatar'' dir of
        (Inl st, dir1) \<Rightarrow> (Fail st, dir1, s)
      | (Inr (url, ct), dir1) \<Rightarrow>
          (Reply 201 (url, ct), dir1, snd (SetSetting (avatarSettingKey (currentUsername rq)) url s)))"

text \<open>The newest logo, the first in directory order among equals.\<close>

definition latest_logo :: "upload list \<Rightarrow> upload option" where
  "latest_logo dir = foldl (\<lambda>best e.
     if \<not> HasPrefix (ToLower (ue_name e)) ''logo-'' \<or> ue_dir e \<or> \<not> ue_info e then best
     else case best of None \<Rightarrow> Some e | Some b \<Rightarrow> if ue_mtime e > ue_mtime b then Some e else best) None dir"

text \<open>
  A file of the upload directory as it is served: the headers the handler sets. \<^verbatim>\<open>http.ServeFile\<close>
  answers 404 for a missing file, lists a directory, and redirects paths that end in \<^verbatim>\<open>/index.html\<close>.
\<close>

datatype uploaded = UploadedFile upload | UploadedDir

record upload_view =
  up_file :: uploaded
  up_nosniff :: bool
  up_csp :: "string option"
  up_disposition :: "string option"

definition handleUploads :: "request \<Rightarrow> upload list \<Rightarrow> upload_view reply" where
  "handleUploads rq dir =
     (if rq_method rq \<noteq> ''GET'' \<and> rq_method rq \<noteq> ''HEAD'' then Fail 405
      else let name = TrimPrefix (rq_path rq) ''/uploads/'' in
        if name = [] \<or> Contains name ''/'' \<or> Contains name ''..'' then Fail 404
        else let file = (if ToLower name = ''logo.png''
                   then (case latest_logo dir of None \<Rightarrow> name | Some e \<Rightarrow> ue_name e) else name);
                 svg = HasSuffix (ToLower file) ''.svg'' in
          if HasSuffix (rq_path rq) ''/index.html'' then Fail 301
          else case (if file = ''.'' then Some UploadedDir
                     else map_option (\<lambda>e. if ue_dir e then UploadedDir else UploadedFile e) (stored_at file dir)) of
            None \<Rightarrow> Fail 404
          | Some f \<Rightarrow> Reply 200 \<lparr>up_file = f, up_nosniff = True,
              up_csp = (if svg then Some (''default-src '' @ [CHR 0x27] @ ''none'' @ [CHR 0x27] @ ''; style-src '' @
                 [CHR 0x27] @ ''unsafe-inline'' @ [CHR 0x27] @ ''; sandbox'') else None),
              up_disposition = (if svg then Some (''inline; filename='' @ [CHR 0x22] @ file @ [CHR 0x22]) else None)\<rparr>)"

section \<open>Avatars\<close>

text \<open>\<^verbatim>\<open>html.EscapeString\<close>\<close>

definition escape_char :: "char \<Rightarrow> string" where
  "escape_char c =
     (if c = CHR ''&'' then ''&amp;'' else if c = CHR 0x27 then ''&#39;'' else if c = CHR ''<'' then ''&lt;''
      else if c = CHR ''>'' then ''&gt;'' else if c = CHR 0x22 then ''&#34;'' else [c])"

definition to_upper_char :: "char \<Rightarrow> char" where
  "to_upper_char c = (let n = of_char c :: nat in if 97 \<le> n \<and> n \<le> 122 then char_of (n - 32) else c)"

definition dquote :: string where "dquote = [CHR 0x22]"

definition avatar_colors :: "string list" where
  "avatar_colors = [''#4da3ff'', ''#42d392'', ''#ffb84d'', ''#a78bfa'', ''#ff5c72'']"

text \<open>The first letter of the name on a colour picked by its hash; names start with an ASCII character.\<close>

definition avatar_svg :: "string \<Rightarrow> string \<Rightarrow> string" where
  "avatar_svg dig username =
     ''<svg xmlns='' @ dquote @ ''http://www.w3.org/2000/svg'' @ dquote @ '' width='' @ dquote @ ''128'' @ dquote @ '' height='' @ dquote @ ''128'' @ dquote @
     '' viewBox='' @ dquote @ ''0 0 128 128'' @ dquote @ ''><rect width='' @ dquote @ ''128'' @ dquote @ '' height='' @ dquote @ ''128'' @ dquote @
     '' rx='' @ dquote @ ''32'' @ dquote @ '' fill='' @ dquote @ avatar_colors ! (of_char (hd dig) mod 5) @ dquote @
     ''/><text x='' @ dquote @ ''64'' @ dquote @ '' y='' @ dquote @ ''78'' @ dquote @ '' text-anchor='' @ dquote @ ''middle'' @ dquote @
     '' font-family='' @ dquote @ ''Arial, sans-serif'' @ dquote @ '' font-size='' @ dquote @ ''56'' @ dquote @ '' font-weight='' @ dquote @ ''700'' @ dquote @
     '' fill='' @ dquote @ ''white'' @ dquote @ ''>'' @ escape_char (to_upper_char (hd username)) @ ''</text></svg>''"

definition ensureDefaultAvatar :: "crypto \<Rightarrow> upload_env \<Rightarrow> request \<Rightarrow> upload list \<Rightarrow> string option \<times> upload list" where
  "ensureDefaultAvatar cr ev rq dir =
     (if \<not> ev_mkdir ev then (None, dir)
      else let username = (if currentUsername rq = [] then DefaultAdminUsername else currentUsername rq);
               dig = cr_sha256 cr username;
               name = ''avatar-default-'' @ HexEncode (take 4 dig) @ ''.svg'' in
        if stored_at name dir \<noteq> None then (Some (''/uploads/'' @ name), dir)
        else case store_upload ev name (avatar_svg dig username) dir of
          (True, dir1) \<Rightarrow> (Some (''/uploads/'' @ name), dir1)
        | (False, dir1) \<Rightarrow> (None, dir1))"

definition userAvatar ::
    "crypto \<Rightarrow> upload_env \<Rightarrow> request \<Rightarrow> upload list \<Rightarrow> store \<Rightarrow> string \<times> upload list \<times> store" where
  "userAvatar cr ev rq dir s =
     (let key = avatarSettingKey (currentUsername rq) in
      case GetSetting key s of (r, s1) \<Rightarrow>
        if TrimSpace (value_or_empty r) \<noteq> [] then (value_or_empty r, dir, s1)
        else case ensureDefaultAvatar cr ev rq dir of
          (Some avatar, dir1) \<Rightarrow> (avatar, dir1, snd (SetSetting key avatar s1))
        | (None, dir1) \<Rightarrow> ([], dir1, s1))"

record user_view =
  uw_id :: int
  uw_name :: string
  uw_avatar :: string
  uw_mode :: string
  uw_admin :: bool
  uw_mustchange :: bool

datatype user_body = UserView user_view | AvatarSet string string

text \<open>The body of a PUT: None when it does not decode, else the avatar if the field is there.\<close>

definition handleUser ::
    "int \<Rightarrow> auth_cfg \<Rightarrow> crypto \<Rightarrow> upload_env \<Rightarrow> request \<Rightarrow> string option option \<Rightarrow> upload list \<Rightarrow> store
     \<Rightarrow> user_body reply \<times> upload list \<times> store" where
  "handleUser now cfg cr ev rq body dir s =
     (if rq_method rq = ''GET'' then
        (case userAvatar cr ev rq dir s of (avatar, dir1, s1) \<Rightarrow>
          (Reply 200 (UserView (case rq_user rq of
             None \<Rightarrow> \<lparr>uw_id = 0, uw_name = [], uw_avatar = avatar, uw_mode = ac_mode cfg, uw_admin = False, uw_mustchange = False\<rparr>
           | Some u \<Rightarrow> \<lparr>uw_id = us_id u, uw_name = us_name u, uw_avatar = avatar, uw_mode = ac_mode cfg,
               uw_admin = us_admin u, uw_mustchange = us_mustchange u\<rparr>)), dir1, s1))
      else if rq_method rq = ''PUT'' then
        (case body of
           None \<Rightarrow> (Fail 400, dir, s)
         | Some field \<Rightarrow>
             (let avatar = (case field of None \<Rightarrow> [] | Some a \<Rightarrow> TrimSpace a);
                  s1 = (case field of None \<Rightarrow> s
                        | Some _ \<Rightarrow> snd (SetSetting (avatarSettingKey (currentUsername rq)) avatar s));
                  s2 = snd (AddAudit now (currentUserID rq) ''user.avatar.update'' [] [] [] ''ok''
                         (''user='' @ currentUsername rq) s1)
              in (Reply 200 (AvatarSet (currentUsername rq) avatar), dir, s2)))
      else (Fail 405, dir, s))"

section \<open>Facts about paths and names\<close>

text \<open>A cleaned absolute path has no component \<^verbatim>\<open>..\<close>.\<close>

lemma clean_rooted: "''..'' \<notin> set (foldl (clean_step True) st cs)" if "''..'' \<notin> set st" for st cs
  using that
proof (induction cs arbitrary: st)
  case (Cons c cs)
  have "''..'' \<notin> set (clean_step True st c)" using Cons.prems by (auto simp: clean_step_def split: list.splits)
  from Cons.IH[OF this] show ?case by simp
qed simp

lemma HexEncode_alphabet: "c \<in> set (HexEncode s) \<Longrightarrow> c \<in> set ''0123456789abcdef''"
proof -
  have hex: "n < 16 \<Longrightarrow> hex_lower n \<in> set ''0123456789abcdef''" for n
  proof -
    have "\<forall>n \<in> set [0..<16]. hex_lower n \<in> set ''0123456789abcdef''"
      by code_simp
    then show "n < 16 \<Longrightarrow> hex_lower n \<in> set ''0123456789abcdef''" by simp
  qed
  then show "c \<in> set (HexEncode s) \<Longrightarrow> c \<in> set ''0123456789abcdef''" using HexEncode_chars by metis
qed

definition logo_exts :: "string list" where
  "logo_exts = [''.png'', ''.jpg'', ''.gif'', ''.webp'', ''.svg'']"

lemma allowed_exts: "allowedLogoContentTypes ct = Some ext \<Longrightarrow> ext \<in> set logo_exts"
  by (auto simp: allowedLogoContentTypes_def logo_exts_def split: if_splits)

lemma two_dots: "Contains s ''..'' \<Longrightarrow> 2 \<le> length (filter (\<lambda>c. c = CHR ''.'') s)"
  by (auto simp: Contains_iff)

text \<open>The name of an upload: no slash, a single dot, too long to be the logo alias.\<close>

lemma upload_name:
  assumes "prefix \<in> set [''logo'', ''avatar'']" "length bytes = 16" "ext \<in> set logo_exts"
    and n: "n = prefix @ ''-'' @ HexEncode bytes @ ext"
  shows "n \<noteq> []" "\<not> Contains n ''/''" "\<not> Contains n ''..''" "ToLower n \<noteq> ''logo.png''" "n \<noteq> ''.''"
    "last n \<noteq> CHR ''l''"
proof -
  have "CHR ''/'' \<notin> set (HexEncode bytes)" "CHR ''.'' \<notin> set (HexEncode bytes)"
    using HexEncode_alphabet by fastforce+
  then have hex: "CHR ''/'' \<notin> set (HexEncode bytes)" "filter (\<lambda>c. c = CHR ''.'') (HexEncode bytes) = []"
    by (auto simp: filter_empty_conv)
  show "n \<noteq> []" "n \<noteq> ''.''" "last n \<noteq> CHR ''l''"
    using assms(1,3) by (auto simp: n logo_exts_def)
  have "CHR ''/'' \<notin> set n" using assms(1,3) hex(1) by (auto simp: n logo_exts_def)
  then show "\<not> Contains n ''/''" by (auto simp: Contains_iff)
  have "length (filter (\<lambda>c. c = CHR ''.'') n) = 1"
    using assms(1,3) by (auto simp: n logo_exts_def hex(2))
  then show "\<not> Contains n ''..''" using two_dots[of n] by fastforce
  have "length (ToLower n) \<noteq> length ''logo.png''"
    using assms(1-3) by (auto simp: n logo_exts_def ToLower_def)
  then show "ToLower n \<noteq> ''logo.png''" by metis
qed

lemma find_insort:
  "List.find P (insort_key f e xs) = Some e" if "P e" "List.find P xs = None"
  using that by (induction xs) (auto split: if_splits)

lemma find_insort_other: "\<not> P e \<Longrightarrow> List.find P (insort_key f e xs) = List.find P xs"
  by (induction xs) auto

text \<open>The published test vectors of the hash.\<close>

lemma fnv_vectors: "fnv64a [] = 0xcbf29ce484222325" "fnv64a ''a'' = 0xaf63dc4c8601ec8c"
  "fnv64a ''foobar'' = 0x85944171f73967e8"
  by (simp_all add: fnv64a_def fnv_step_def)

text \<open>The key of one account is not the key of another, the nameless one aside.\<close>

lemma avatar_key_inj: "u \<noteq> [] \<Longrightarrow> v \<noteq> [] \<Longrightarrow> avatarSettingKey u = avatarSettingKey v \<Longrightarrow> u = v"
  by (simp add: avatarSettingKey_def)

section \<open>Properties\<close>

lemma store_upload_ok:
  assumes "store_upload ev name body dir = (True, dir')"
  shows "stored_at name dir = None" "ev_write ev = None"
    "stored_at n dir' = (if n = name
       then Some \<lparr>ue_name = name, ue_dir = False, ue_info = True, ue_mtime = ev_now ev, ue_body = body\<rparr>
       else stored_at n dir)"
proof -
  let ?e = "\<lparr>ue_name = name, ue_dir = False, ue_info = True, ue_mtime = ev_now ev, ue_body = body\<rparr>"
  show none: "stored_at name dir = None" and w: "ev_write ev = None"
    using assms by (auto simp: store_upload_def Let_def split: if_splits)
  have "dir' = insort_key ue_name ?e dir"
    using assms w by (auto simp: store_upload_def Let_def split: if_splits)
  then show "stored_at n dir' = (if n = name then Some ?e else stored_at n dir)"
    using none find_insort[of "\<lambda>x. ue_name x = name" ?e dir ue_name]
      find_insort_other[of "\<lambda>x. ue_name x = n" ?e ue_name dir]
    by (auto simp: stored_at_def)
qed

text \<open>The file and the name of an accepted upload.\<close>

lemma accepted_upload:
  assumes "handleImageUpload ev rq body field prefix dir = (Inr (url, ct), dir')"
  obtains filename content bytes ext where
    "ev_form ev field (take maxLogoUploadBytes body) = Some (filename, content)" "ev_random ev = Some bytes"
    "allowedLogoContentTypes ct = Some ext" "url = ''/uploads/'' @ prefix @ ''-'' @ HexEncode bytes @ ext"
    "store_upload ev (prefix @ ''-'' @ HexEncode bytes @ ext) content dir = (True, dir')"
  using assms by (auto simp: handleImageUpload_def Let_def split: if_splits option.splits prod.splits bool.splits)

lemma suffix_tail: "length b = length p \<Longrightarrow> HasSuffix (a @ b) p \<longleftrightarrow> b = p"
  by (auto simp: HasSuffix_def)

lemma svg_ext:
  assumes "allowedLogoContentTypes ct = Some ext"
  shows "HasSuffix (ToLower (u @ ext)) ''.svg'' \<longleftrightarrow> ct = ''image/svg+xml''"
proof -
  have lower: "ToLower (u @ ext) = ToLower u @ ToLower ext" by (simp add: ToLower_def)
  have "HasSuffix (ToLower u @ ''.webp'') ''.svg'' \<longleftrightarrow> False"
    using suffix_tail[of "''webp''" "''.svg''" "ToLower u @ ''.''"] by simp
  then show ?thesis unfolding lower using assms
    by (auto simp: allowedLogoContentTypes_def ToLower_def to_lower_char_def suffix_tail split: if_splits)
qed

text \<open>
  C35. An accepted logo or avatar is stored whole under a fresh random name, leaves every other file
  alone, is at most 2 MiB, and is what its URL serves from then on: never sniffed, and with a sandboxing
  policy when and only when it was taken for SVG. (The multipart parser returns no more than it reads.)
\<close>

theorem upload_then_get:
  assumes up: "handleImageUpload ev rq body field prefix dir = (Inr (url, ct), dir')"
    and "prefix \<in> set [''logo'', ''avatar'']" "ev_random ev = Some bytes" "length bytes = 16"
    and form: "\<And>raw filename content. ev_form ev field raw = Some (filename, content) \<Longrightarrow> length content \<le> length raw"
    and get: "rq_method get = ''GET''" "rq_path get = url"
  shows "\<exists>e filename. url = ''/uploads/'' @ ue_name e \<and> stored_at (ue_name e) dir = None \<and>
    ev_form ev field (take maxLogoUploadBytes body) = Some (filename, ue_body e) \<and>
    length (ue_body e) \<le> maxLogoUploadBytes \<and>
    (\<forall>n. n \<noteq> ue_name e \<longrightarrow> stored_at n dir' = stored_at n dir) \<and>
    (\<exists>v. handleUploads get dir' = Reply 200 v \<and> up_file v = UploadedFile e \<and> up_nosniff v \<and>
       (up_csp v \<noteq> None \<longleftrightarrow> ct = ''image/svg+xml''))"
proof -
  obtain filename content bytes' ext where b: "ev_form ev field (take maxLogoUploadBytes body) = Some (filename, content)"
    "ev_random ev = Some bytes'" "allowedLogoContentTypes ct = Some ext"
    "url = ''/uploads/'' @ prefix @ ''-'' @ HexEncode bytes' @ ext"
    "store_upload ev (prefix @ ''-'' @ HexEncode bytes' @ ext) content dir = (True, dir')"
    by (rule accepted_upload[OF up])
  have "bytes' = bytes" using b(2) assms(3) by simp
  note a = b(1,3,4,5)[unfolded this]
  define n where "n = prefix @ ''-'' @ HexEncode bytes @ ext"
  let ?e = "\<lparr>ue_name = n, ue_dir = False, ue_info = True, ue_mtime = ev_now ev, ue_body = content\<rparr>"
  note st = store_upload_ok[OF a(4)[folded n_def]]
  note nm = upload_name[OF assms(2,4) allowed_exts[OF a(2)] n_def]
  have name: "TrimPrefix (rq_path get) ''/uploads/'' = n"
    unfolding get(2) a(3) n_def[symmetric] by (rule TrimPrefix_append)
  have url: "url = ''/uploads/'' @ n" by (simp only: a(3) n_def)
  then have "rq_path get = ''/uploads/'' @ n" by (simp only: get(2))
  with nm(1) have "last (rq_path get) = last n" by (metis last_appendR)
  then have index: "\<not> HasSuffix (rq_path get) ''/index.html''" using nm(6) by (auto simp: HasSuffix_iff)
  have stored: "stored_at n dir' = Some ?e" using st(3)[of n] by simp
  have svg: "HasSuffix (ToLower n) ''.svg'' \<longleftrightarrow> ct = ''image/svg+xml''"
    using svg_ext[OF a(2), of "prefix @ ''-'' @ HexEncode bytes"] by (simp add: n_def)
  have "\<exists>v. handleUploads get dir' = Reply 200 v \<and> up_file v = UploadedFile ?e \<and> up_nosniff v \<and>
       (up_csp v \<noteq> None \<longleftrightarrow> ct = ''image/svg+xml'')"
    using nm get(1) index by (simp add: handleUploads_def name Let_def stored svg)
  moreover have "length content \<le> maxLogoUploadBytes" using form[OF a(1)] by simp
  ultimately show ?thesis
    using a(1) url st(1,3) by (intro exI[of _ ?e] exI[of _ filename]) simp
qed

text \<open>
  C36. The user interface is served from the embedded files only: an answer 200 or 304 is the file of the
  cleaned path below \<^verbatim>\<open>static/\<close>, which has no component \<^verbatim>\<open>..\<close>, or the start page for a path that names
  no file and has no extension. A 304 is given only to a client that shows the tag of the current content.
\<close>

theorem static_serves_embedded:
  assumes "handleStatic files rq = Reply c v"
  shows "\<exists>body. files (st_name v) = Some body \<and> st_etag v = staticETag (st_name v) body \<and>
    \<not> Contains (asset_path (rq_path rq)) ''..'' \<and>
    (st_name v = ''static'' @ asset_path (rq_path rq) \<or>
     (files (''static'' @ asset_path (rq_path rq)) = None \<and> Ext (asset_path (rq_path rq)) = [] \<and>
      st_name v = ''static/index.html'')) \<and>
    (if c = 200 then st_ctype v = contentTypeFor (st_name v) \<and> (rq_method rq = ''GET'' \<longrightarrow> st_body v = body)
     else c = 304 \<and> Contains (rq_header rq ''If-None-Match'') (st_etag v))"
proof -
  define clean where "clean = asset_path (rq_path rq)"
  define name where "name = ''static'' @ clean"
  define start where "start = ''static/index.html''"
  have served: "files (st_name v) = Some body \<and> st_name v = nm \<and> st_etag v = staticETag nm body \<and>
    (if c = 200 then st_ctype v = contentTypeFor nm \<and> (rq_method rq = ''GET'' \<longrightarrow> st_body v = body)
     else c = 304 \<and> Contains (rq_header rq ''If-None-Match'') (st_etag v))"
    if "serve_asset rq nm body = Reply c v" "files nm = Some body" for nm body
    using that by (auto simp: serve_asset_def Let_def split: if_splits)
  have run: "\<not> Contains clean ''..''" "(case files name of
          Some body \<Rightarrow> serve_asset rq name body
        | None \<Rightarrow> if Ext clean \<noteq> [] then Fail 404
            else case files start of None \<Rightarrow> Fail 404 | Some body \<Rightarrow> serve_asset rq start body) = Reply c v"
    using assms unfolding handleStatic_def Let_def clean_def[symmetric] name_def[symmetric] start_def[symmetric]
    by (auto split: if_splits)
  show ?thesis
    unfolding clean_def[symmetric] name_def[symmetric] start_def[symmetric]
  proof (cases "files name")
    case (Some body)
    with run(2) have "serve_asset rq name body = Reply c v" by simp
    from served[OF this Some] run(1) show "\<exists>body. files (st_name v) = Some body \<and> st_etag v = staticETag (st_name v) body \<and>
      \<not> Contains clean ''..'' \<and> (st_name v = name \<or> (files name = None \<and> Ext clean = [] \<and> st_name v = start)) \<and>
      (if c = 200 then st_ctype v = contentTypeFor (st_name v) \<and> (rq_method rq = ''GET'' \<longrightarrow> st_body v = body)
       else c = 304 \<and> Contains (rq_header rq ''If-None-Match'') (st_etag v))" by auto
  next
    case None
    with run(2) obtain body where b: "Ext clean = []" "files start = Some body" "serve_asset rq start body = Reply c v"
      by (auto split: if_splits option.splits)
    from served[OF b(3,2)] run(1) b(1) None show "\<exists>body. files (st_name v) = Some body \<and> st_etag v = staticETag (st_name v) body \<and>
      \<not> Contains clean ''..'' \<and> (st_name v = name \<or> (files name = None \<and> Ext clean = [] \<and> st_name v = start)) \<and>
      (if c = 200 then st_ctype v = contentTypeFor (st_name v) \<and> (rq_method rq = ''GET'' \<longrightarrow> st_body v = body)
       else c = 304 \<and> Contains (rq_header rq ''If-None-Match'') (st_etag v))" by auto
  qed
qed

text \<open>An upload of a PNG to an empty directory, and a deep link into the interface.\<close>

definition png_env :: upload_env where
  "png_env = \<lparr>ev_mkdir = True, ev_form = (\<lambda>_ raw. Some (''logo'', raw)), ev_random = Some (replicate 16 CHR ''A''),
     ev_open = True, ev_write = None, ev_now = 5\<rparr>"

definition png_bytes :: string where
  "png_bytes = [CHR 0x89, CHR ''P'', CHR ''N'', CHR ''G'', CHR 0x0D, CHR 0x0A, CHR 0x1A, CHR 0x0A]"

lemma png_accepted:
  "\<exists>url dir'. handleImageUpload png_env (blank_request\<lparr>rq_method := ''POST''\<rparr>) png_bytes ''logo'' ''logo'' [] =
     (Inr (url, ''image/png''), dir')"
proof -
  have "take maxLogoUploadBytes png_bytes = png_bytes" "take 512 png_bytes = png_bytes"
    by (simp_all add: maxLogoUploadBytes_def png_bytes_def)
  moreover have "DetectContentType png_bytes = ''image/png''"
    by (simp add: DetectContentType_def png_bytes_def HasPrefix_def)
  moreover have "\<not> HasSuffix (ToLower ''logo'') ''.svg''" by (simp add: HasSuffix_def ToLower_def)
  ultimately show ?thesis
    by (simp add: handleImageUpload_def png_env_def allowedLogoContentTypes_def store_upload_def stored_at_def Let_def)
qed

theorem upload_then_get_witness:
  "\<exists>url dir' v e. handleImageUpload png_env (blank_request\<lparr>rq_method := ''POST''\<rparr>) png_bytes ''logo'' ''logo'' [] =
       (Inr (url, ''image/png''), dir') \<and>
     handleUploads (blank_request\<lparr>rq_path := url\<rparr>) dir' = Reply 200 v \<and> up_file v = UploadedFile e \<and>
     ue_body e = png_bytes \<and> up_csp v = None"
proof -
  obtain url dir' where u: "handleImageUpload png_env (blank_request\<lparr>rq_method := ''POST''\<rparr>) png_bytes ''logo'' ''logo'' [] =
     (Inr (url, ''image/png''), dir')" using png_accepted by blast
  have r: "ev_random png_env = Some (replicate 16 CHR ''A'')" and f: "ev_form png_env fld raw = Some (''logo'', raw)" for fld raw
    by (simp_all add: png_env_def)
  have g: "rq_method (blank_request\<lparr>rq_path := url\<rparr>) = ''GET''" "rq_path (blank_request\<lparr>rq_path := url\<rparr>) = url"
    by (simp_all add: blank_request_def)
  have "take maxLogoUploadBytes png_bytes = png_bytes" by (simp add: maxLogoUploadBytes_def png_bytes_def)
  moreover obtain e filename v where "ev_form png_env ''logo'' (take maxLogoUploadBytes png_bytes) = Some (filename, ue_body e)"
    "handleUploads (blank_request\<lparr>rq_path := url\<rparr>) dir' = Reply 200 v" "up_file v = UploadedFile e"
    "up_csp v \<noteq> None \<longleftrightarrow> ''image/png'' = ''image/svg+xml''"
    using upload_then_get[OF u _ r _ _ g] f by fastforce
  ultimately show ?thesis using u f by auto
qed

theorem static_serves_embedded_witness:
  "\<exists>v. handleStatic [''static/index.html'' \<mapsto> ''hi''] (blank_request\<lparr>rq_path := ''/x/../repos/app''\<rparr>) = Reply 200 v \<and>
     st_name v = ''static/index.html'' \<and> st_ctype v = ''text/html; charset=utf-8'' \<and> st_body v = ''hi''"
proof -
  let ?rq = "blank_request\<lparr>rq_path := ''/x/../repos/app''\<rparr>" and ?files = "[''static/index.html'' \<mapsto> ''hi'']"
  have m: "rq_method ?rq = ''GET''" "rq_header ?rq h = []" "rq_path ?rq = ''/x/../repos/app''" for h
    by (simp_all add: blank_request_def)
  have p: "asset_path ''/x/../repos/app'' = ''/repos/app''" by code_simp
  have d: "\<not> Contains ''/repos/app'' ''..''" "Ext ''/repos/app'' = []" by code_simp+
  obtain v where v: "handleStatic ?files ?rq = Reply 200 v"
    using that by (simp add: handleStatic_def m(3) p d Let_def serve_asset_def blank_request_def)
  from static_serves_embedded[OF v] v show ?thesis
    by (auto simp: m(3) p contentTypeFor_def HasSuffix_def m(1) split: if_splits)
qed

end
