(* ===== verification/Server_Routes.thy ===== *)
theory Server_Routes
  imports Auth_Flow GC_Run Repo_Handlers Assets
begin

text \<open>
  The routing table of \<^verbatim>\<open>server.go\<close> behind the middlewares: how \<^verbatim>\<open>http.ServeMux\<close> picks the handler of
  a path, and which handlers a request can reach without a user. Handlers are named as in the code.
  The last part is the contract shared by the two single-flight gates of the server, the collection
  gate and the set of running tag refreshes.
\<close>

section \<open>The table\<close>

definition routes :: "(string \<times> string) list" where
  "routes =
     [(''/api/login'', ''handleLogin''), (''/api/health'', ''handleHealth''), (''/api/gc/run'', ''handleGCRun''),
      (''/api/gc/status'', ''handleGCStatus''), (''/api/disk-usage'', ''handleDiskUsage''),
      (''/api/settings'', ''handleSettings''), (''/api/tls/cert'', ''handleTLSCert''), (''/api/restart'', ''handleRestart''),
      (''/api/user'', ''handleUser''), (''/api/user/password'', ''handleUserPassword''), (''/api/logout'', ''handleLogout''),
      (''/api/namespaces'', ''handleNamespaces''), (''/api/namespaces/'', ''handleNamespaceByName''),
      (''/api/favorites'', ''handleFavorites''), (''/api/favorites/'', ''handleFavoriteByID''),
      (''/api/recent'', ''handleRecent''), (''/api/audit'', ''handleAudit''), (''/api/recycle'', ''handleRecycle''),
      (''/api/recycle/'', ''handleRecycleByID''), (''/api/uploads/logo'', ''handleLogoUpload''),
      (''/api/uploads/avatar'', ''handleAvatarUpload''), (''/api/repositories'', ''handleRepositories''),
      (''/api/me'', ''handleMe''), (''/api/my-permissions'', ''handleMyPermissions''),
      (''/api/repositories/'', ''handleRepositorySubroutes''), (''/api/repo-description/'', ''handleRepoDescription''),
      (''/api/admin/users'', ''handleAdminUsers''), (''/api/admin/users/'', ''handleAdminUserByID''),
      (''/api/admin/users/{id}/disable'', ''handleAdminUserDisable''),
      (''/api/admin/users/{id}/enable'', ''handleAdminUserEnable''),
      (''/api/admin/users/{id}/permissions'', ''handleAdminUserPermissions''),
      (''/api/admin/users/{id}/permissions/{permId}'', ''handleAdminUserPermissionByID''),
      (''/api/admin/immutable-rules'', ''handleImmutableRules''), (''/api/admin/immutable-rules/'', ''handleImmutableRuleByID''),
      (''/api/admin/tokens'', ''handleTokens''), (''/api/admin/tokens/'', ''handleTokenByID''),
      (''/api/admin/webhooks'', ''handleWebhooks''), (''/api/admin/webhooks/'', ''handleWebhookByID''),
      (''/api/repo-stats'', ''handleRepoStats''), (''/api/export'', ''handleExport''),
      (''/v2/token'', ''handleV2Token''), (''/v2/'', ''newV2Proxy''), (''/uploads/'', ''handleUploads''),
      (''/'', ''handleStatic'')]"

section \<open>\<^verbatim>\<open>http.ServeMux\<close>\<close>

text \<open>
  A pattern is its segments; one that ends in a slash ends in an empty segment and matches everything
  below. At every segment a literal is tried before a wildcard, a wildcard before the rest.
\<close>

definition is_wild :: "string \<Rightarrow> bool" where
  "is_wild p \<longleftrightarrow> HasPrefix p ''{'' \<and> HasSuffix p ''}''"

definition advance :: "(string \<Rightarrow> bool) \<Rightarrow> (string list \<times> 'h) list \<Rightarrow> (string list \<times> 'h) list" where
  "advance ok rs = List.map_filter (\<lambda>(ps, h). case ps of p # q # qs \<Rightarrow> if ok p then Some (q # qs, h) else None
     | [p] \<Rightarrow> if ok p \<and> p \<noteq> [] then Some ([], h) else None | [] \<Rightarrow> None) rs"

definition handler_at :: "string list \<Rightarrow> (string list \<times> 'h) list \<Rightarrow> 'h option" where
  "handler_at ps rs = map_option snd (List.find (\<lambda>r. fst r = ps) rs)"

fun select_route :: "(string list \<times> 'h) list \<Rightarrow> string list \<Rightarrow> 'h option" where
  "select_route rs [] = handler_at [] rs"
| "select_route rs (s # ss) =
     (case select_route (advance (\<lambda>p. p = s \<and> \<not> is_wild p) rs) ss of
        Some h \<Rightarrow> Some h
      | None \<Rightarrow>
          (case (if s = [] then None else select_route (advance is_wild rs) ss) of
             Some h \<Rightarrow> Some h
           | None \<Rightarrow> handler_at [[]] rs))"

definition table :: "(string list \<times> string) list" where
  "table = map (\<lambda>(p, h). (Split p ''/'', h)) routes"

text \<open>\<^verbatim>\<open>cleanPath\<close> keeps a trailing slash.\<close>

definition cleanPath :: "string \<Rightarrow> string" where
  "cleanPath p =
     (if p = [] then ''/''
      else let p1 = (if HasPrefix p ''/'' then p else ''/'' @ p); np = Clean p1 in
        if HasSuffix p1 ''/'' \<and> np \<noteq> ''/'' then np @ ''/'' else np)"

datatype routed = Redirect string | To string | NotFound

text \<open>
  A path that is not clean is redirected to the clean one, and a path without the slash of a
  registered subtree to the path with it.
\<close>

definition mux :: "string \<Rightarrow> routed" where
  "mux path =
     (if cleanPath path \<noteq> path then Redirect (cleanPath path)
      else if \<not> HasSuffix path ''/'' \<and> handler_at (Split path ''/'') table = None \<and>
              handler_at (Split (path @ ''/'') ''/'') table \<noteq> None then Redirect (path @ ''/'')
      else case select_route table (Split path ''/'') of None \<Rightarrow> NotFound | Some h \<Rightarrow> To h)"

text \<open>A request through the middlewares: refused, or handed to what the table picks.\<close>

definition dispatch ::
    "auth_cfg \<Rightarrow> crypto \<Rightarrow> int \<Rightarrow> string \<times> string \<Rightarrow> request \<Rightarrow> auth_state \<Rightarrow> (int + request \<times> routed) \<times> auth_state" where
  "dispatch cfg cr now rnd rq st =
     (case Handler cfg cr now rnd rq st of
        (Stop c, st1) \<Rightarrow> (Inl c, st1)
      | (Next rq1, st1) \<Rightarrow> (Inr (rq1, mux (rq_path rq1)), st1))"

section \<open>What the table can pick\<close>

lemma handler_at_in: "handler_at ps rs = Some h \<Longrightarrow> h \<in> snd ` set rs"
  by (induction rs) (auto simp: handler_at_def split: if_splits)

lemma advance_handlers: "h \<in> snd ` set (advance ok rs) \<Longrightarrow> h \<in> snd ` set rs"
  by (induction rs) (auto simp: advance_def map_filter_simps split: list.splits if_splits option.splits)

lemma select_subset: "select_route rs ss = Some h \<Longrightarrow> h \<in> snd ` set rs"
proof (induction ss arbitrary: rs)
  case Nil
  then show ?case by (simp add: handler_at_in)
next
  case (Cons s ss)
  consider "select_route (advance (\<lambda>p. p = s \<and> \<not> is_wild p) rs) ss = Some h"
    | "select_route (advance is_wild rs) ss = Some h" | "handler_at [[]] rs = Some h"
    using Cons.prems by (auto split: option.splits if_splits)
  then show ?case
    by cases (use Cons.IH advance_handlers handler_at_in in metis)+
qed

lemma select_some: "handler_at [[]] rs \<noteq> None \<Longrightarrow> \<exists>h. select_route rs (s # ss) = Some h"
  by (auto split: option.splits)

text \<open>A literal prefix with a subtree of its own confines the choice to what lies below it.\<close>

lemma select_below:
  assumes "handler_at [[]] (advance (\<lambda>p. p = a \<and> \<not> is_wild p) rs) \<noteq> None" "select_route rs (a # s # ss) = Some h"
  shows "h \<in> snd ` set (advance (\<lambda>p. p = a \<and> \<not> is_wild p) rs)"
  using select_some[OF assms(1), of s ss] assms(2) select_subset
  by (auto simp del: select_route.simps simp: select_route.simps(2)[of rs a])

definition below_root :: "(string list \<times> string) list" where
  "below_root = advance (\<lambda>p. p = [] \<and> \<not> is_wild p) table"

lemma table_root:
  assumes "ss \<noteq> []"
  shows "select_route table ([] # ss) = select_route below_root ss"
proof -
  have "handler_at [[]] below_root = Some ''handleStatic''" by code_simp
  then have "\<exists>h. select_route below_root (hd ss # tl ss) = Some h" by (intro select_some) simp
  then obtain h where "select_route below_root ss = Some h" using assms by (auto simp del: select_route.simps)
  then show ?thesis by (simp add: below_root_def)
qed

lemma cleanPath_rooted: "\<exists>t. cleanPath path = ''/'' @ t"
proof (cases "path = []")
  case False
  define p1 where "p1 = (if HasPrefix path ''/'' then path else ''/'' @ path)"
  have "HasPrefix p1 ''/''" by (simp add: p1_def HasPrefix_iff)
  then obtain body where "Clean p1 = ''/'' @ body" by (auto simp: Clean_def Let_def)
  then show ?thesis using False by (simp add: cleanPath_def p1_def[symmetric] Let_def)
qed (simp add: cleanPath_def)

text \<open>The interface answers for everything the table has no entry for.\<close>

lemma mux_total: "mux path \<noteq> NotFound"
proof (cases "cleanPath path = path")
  case True
  then obtain t where "path = [] @ CHR ''/'' # t" using cleanPath_rooted[of path] by auto
  then have sp: "Split path ''/'' = [] # Split t ''/''" using Split_single_char[of "CHR ''/''" "[]" t] by simp
  have "handler_at [[]] below_root = Some ''handleStatic''" by code_simp
  then have "\<exists>h. select_route below_root (hd (Split t ''/'') # tl (Split t ''/'')) = Some h" by (intro select_some) simp
  then have "\<exists>h. select_route table (Split path ''/'') = Some h" unfolding sp by (simp add: table_root del: select_route.simps)
  then show ?thesis using True by (auto simp: mux_def)
qed (simp add: mux_def)

definition public_below :: "string \<Rightarrow> string list" where
  "public_below a = map snd (advance (\<lambda>p. p = a \<and> \<not> is_wild p) below_root)"

lemma below_values:
  "set (public_below ''v2'') = {''handleV2Token'', ''newV2Proxy''}"
  "set (public_below ''uploads'') = {''handleUploads''}"
  "handler_at [[]] (advance (\<lambda>p. p = ''v2'' \<and> \<not> is_wild p) below_root) \<noteq> None"
  "handler_at [[]] (advance (\<lambda>p. p = ''uploads'' \<and> \<not> is_wild p) below_root) \<noteq> None"
  by code_simp+

lemma Split_below:
  assumes "HasPrefix path (''/'' @ a @ ''/'')" "CHR ''/'' \<notin> set a"
  shows "\<exists>t. Split path ''/'' = [] # a # Split t ''/''"
proof -
  obtain t where "path = [] @ CHR ''/'' # (a @ CHR ''/'' # t)" using assms(1) by (auto simp: HasPrefix_iff)
  then show ?thesis using assms(2) Split_single_char[of "CHR ''/''" "[]"] Split_single_char[of "CHR ''/''" a]
    by (metis empty_iff empty_set)
qed

lemma mux_below:
  assumes "HasPrefix path (''/'' @ a @ ''/'')" "CHR ''/'' \<notin> set a" "mux path = To h"
    and "handler_at [[]] (advance (\<lambda>p. p = a \<and> \<not> is_wild p) below_root) \<noteq> None"
  shows "h \<in> set (public_below a)"
proof -
  obtain t where t: "Split path ''/'' = [] # a # Split t ''/''" using Split_below[OF assms(1,2)] by blast
  obtain x xs where x: "Split t ''/'' = x # xs" by (meson Split_not_Nil list.exhaust not_Cons_self2)
  have "select_route table (Split path ''/'') = Some h"
    using assms(3) by (auto simp: mux_def split: if_splits option.splits)
  then have "select_route below_root (a # x # xs) = Some h" unfolding t x using table_root[of "a # x # xs"] by (simp del: select_route.simps)
  from select_below[OF assms(4) this] show ?thesis by (simp add: public_below_def)
qed

lemma mux_public:
  "HasPrefix path ''/v2/'' \<Longrightarrow> mux path = To h \<Longrightarrow> h \<in> {''handleV2Token'', ''newV2Proxy''}"
  "HasPrefix path ''/uploads/'' \<Longrightarrow> mux path = To h \<Longrightarrow> h = ''handleUploads''"
  using mux_below[of path "''v2''" h] mux_below[of path "''uploads''" h] below_values by simp_all

lemma mux_exact:
  "mux ''/login'' = To ''handleStatic''" "mux ''/api/login'' = To ''handleLogin''" "mux ''/v2/token'' = To ''handleV2Token''"
  by code_simp+

section \<open>Who reaches a handler\<close>

definition asset_suffix :: "string \<Rightarrow> bool" where
  "asset_suffix path \<longleftrightarrow> (\<exists>e \<in> set [''.css'', ''.js'', ''.html'', ''.svg'', ''.png'']. HasSuffix path e)"

definition public_handlers :: "string list" where
  "public_handlers = [''handleLogin'', ''handleV2Token'', ''newV2Proxy'', ''handleUploads'', ''handleStatic'']"

lemma requireCSRF_Next: "requireCSRF cfg rq = Next rq' \<Longrightarrow> rq' = rq"
  by (auto simp: requireCSRF_def split: if_splits)

lemma dispatch_To:
  assumes "dispatch cfg cr now rnd rq st = (Inr (rq1, To h), st1)"
  shows "withAuth cfg cr now rnd rq st = (Next rq1, st1) \<and> mux (rq_path rq1) = To h"
  using assms requireCSRF_Next[of cfg rq]
  by (auto simp: dispatch_def Handler_def split: prod.splits auth_result.splits)

lemma exempt_public:
  assumes "auth_exempt path" "\<not> asset_suffix path" "mux path = To h"
  shows "h \<in> set public_handlers"
proof -
  have "asset_suffix ''/login.html''" by code_simp
  then consider "path \<in> {''/login'', ''/api/login'', ''/v2/token''}" | "HasPrefix path ''/uploads/''"
    using assms(1,2) by (auto simp: auth_exempt_def asset_suffix_def)
  then show ?thesis using mux_exact mux_public(2)[OF _ assms(3)] assms(3)
    by cases (auto simp: public_handlers_def)
qed

lemma v2_public: "HasPrefix path ''/v2/'' \<Longrightarrow> mux path = To h \<Longrightarrow> h \<in> set public_handlers"
  using mux_public(1) by (fastforce simp: public_handlers_def)

text \<open>
  C37. The routes behind the middlewares: in \<^verbatim>\<open>AUTH_MODE=basic\<close> a request whose path does not end like
  an asset reaches a handler other than the login, the token endpoint, the registry proxy, the
  uploads and the static files only as an enabled user of the users table, and while that user has
  to change the password only a handler of a path exempt from it. No spelling of the path gets
  around this: the table decides after the middlewares on the path they saw.
\<close>

theorem only_public_without_user:
  assumes "authEnabled cfg" and "dispatch cfg cr now rnd rq st = (Inr (rq1, To h), st1)"
    and "\<not> asset_suffix (rq_path rq)"
  shows "h \<in> set public_handlers \<or>
    (\<exists>u. rq1 = rq\<lparr>rq_user := Some u\<rparr> \<and> enabled_user u (at_store st) \<and>
      (us_mustchange u \<longrightarrow> mustChangePasswordExempt (rq_path rq) \<or> \<not> isEndpointPath (rq_path rq)))"
proof -
  have w: "let_through cfg cr now rq st rq1" and m: "mux (rq_path rq1) = To h"
    using dispatch_To[OF assms(2)] withAuth_through[OF assms(1)] by blast+
  show ?thesis
  proof (cases "rq1 = rq \<and> served_to_anyone cfg rq st")
    case True
    then show ?thesis using exempt_public[of "rq_path rq" h] v2_public[of "rq_path rq" h] assms(3) m
      by (auto simp: served_to_anyone_def)
  next
    case False
    then show ?thesis using w by (auto simp: let_through_def served_to_user_def Let_def)
  qed
qed

definition bob_me :: request where
  "bob_me = blank_request\<lparr>rq_method := ''GET'', rq_path := ''/api/me'', rq_cookie := [sessionCookieName \<mapsto> ''s'']\<rparr>"

definition bob_in :: auth_state where
  "bob_in = bob_state\<lparr>at_sessions := [''s'' \<mapsto> (''bob'', 100)]\<rparr>"

lemma bob_me_dispatched:
  "dispatch demo_cfg demo_crypto 5 ([], []) bob_me bob_in = (Inr (bob_me\<lparr>rq_user := Some bob\<rparr>, To ''handleMe''), bob_in)"
proof -
  have rq: "rq_path bob_me = ''/api/me''" "rq_method bob_me = ''GET''" "rq_header bob_me ''Authorization'' = []"
    "rq_cookie bob_me sessionCookieName = Some ''s''"
    by (simp_all add: bob_me_def blank_request_def)
  have m: "mux ''/api/me'' = To ''handleMe''" by code_simp
  have e: "\<not> auth_exempt ''/api/me''" "\<not> HasPrefix ''/api/me'' ''/v2/''" by code_simp+
  have "getSession 5 bob_me bob_in = (''bob'', bob_in)" using rq by (simp add: getSession_def bob_in_def)
  moreover have "us_enabled bob" "\<not> us_mustchange bob" by (simp_all add: bob_def)
  ultimately have "requireUIAuth demo_cfg demo_crypto 5 ([], []) bob_me bob_in = (Next (bob_me\<lparr>rq_user := Some bob\<rparr>), bob_in)"
    using demo_enabled bob_user by (simp add: requireUIAuth_def user_by_name_def bob_in_def bob_state_def)
  moreover have "checkAPITokenAuth demo_crypto 5 bob_me bob_in = (None, bob_in)"
    using rq by (simp add: checkAPITokenAuth_def HasPrefix_def)
  ultimately show ?thesis using rq e m demo_enabled \<open>\<not> us_mustchange bob\<close>
    by (simp add: dispatch_def Handler_def requireCSRF_def withAuth_def and_then_def enforcePasswordChange_def)
qed

theorem only_public_without_user_witness:
  "\<exists>u. bob_me\<lparr>rq_user := Some bob\<rparr> = bob_me\<lparr>rq_user := Some u\<rparr> \<and> enabled_user u bob_store"
proof -
  have "\<not> asset_suffix (rq_path bob_me)" by (simp add: bob_me_def blank_request_def) code_simp
  moreover have "''handleMe'' \<notin> set public_handlers" by code_simp
  moreover have "at_store bob_in = bob_store" by (simp add: bob_in_def bob_state_def)
  ultimately show ?thesis
    using only_public_without_user[OF demo_enabled bob_me_dispatched] by auto
qed

section \<open>One at a time\<close>

text \<open>
  Two parts of the server let one run happen at a time and turn later ones away: the collection gate
  and the refresh of a repository. Both are taken, refused and given back alike.
\<close>

locale single_flight =
  fixes enter :: "'s \<Rightarrow> bool \<times> 's" and leave :: "'s \<Rightarrow> 's" and inside :: "'s \<Rightarrow> bool"
  assumes enter_iff: "fst (enter s) \<longleftrightarrow> \<not> inside s"
    and enter_takes: "inside (snd (enter s))"
    and refused_same: "inside s \<Longrightarrow> snd (enter s) = s"
    and leave_frees: "\<not> inside (leave s)"
begin

fun attempts :: "nat \<Rightarrow> 's \<Rightarrow> nat \<times> 's" where
  "attempts 0 s = (0, s)"
| "attempts (Suc n) s = (case enter s of (ok, s1) \<Rightarrow>
     (case attempts n s1 of (k, s2) \<Rightarrow> ((if ok then Suc k else k), s2)))"

lemma attempts_inside: "inside s \<Longrightarrow> attempts n s = (0, s)"
  using enter_iff[of s] refused_same[of s] by (induction n) (auto simp: prod_eq_iff split: prod.split)

lemma one_wins: "fst (attempts (Suc n) s) = (if inside s then 0 else 1)"
proof -
  obtain ok s1 where e: "enter s = (ok, s1)" by fastforce
  then have "inside s1" "ok = (\<not> inside s)" using enter_takes[of s] enter_iff[of s] by simp_all
  then show ?thesis using e attempts_inside[of s1 n] by simp
qed

lemma next_after_leave: "fst (enter (leave s))"
  using enter_iff leave_frees by blast

end

interpretation gc_gate: single_flight beginGC endGC gt_busy
  by unfold_locales (auto simp: beginGC_def open_gate_def)

interpretation tag_refresh: single_flight "syncTagsAsync name (tag # tags)" "sync_done name" "\<lambda>running. name \<in> running"
  for name tag tags
  by unfold_locales (auto simp: syncTagsAsync_def sync_done_def)

text \<open>
  Of any number of requests that ask for a refresh of a repository before the first one is done,
  exactly the first starts one, and so for collections.
\<close>

lemma one_refresh: "name \<notin> running \<Longrightarrow> fst (tag_refresh.attempts name tag tags (Suc n) running) = 1"
  by (simp only: tag_refresh.one_wins if_False)

lemma one_collection: "fst (gc_gate.attempts (Suc n) open_gate) = 1"
  by (simp only: gc_gate.one_wins open_gate_def gate.select_convs if_False)

end
