(* ===== verification/Migration.thy ===== *)
theory Migration
  imports Tag_Policy
begin

text \<open>
  The data part of \<^verbatim>\<open>migrate\<close> in \<^verbatim>\<open>store.go\<close>, run at every start of the process: the policies that
  older versions kept in the settings table move into the columns of the repositories table, the
  keys they came from are deleted, the administrator is seeded and forced password changes are
  lifted. The statements are modelled one by one, with the matching rules of SQLite
  (\<^verbatim>\<open>LIKE\<close>, \<^verbatim>\<open>REPLACE\<close>, \<^verbatim>\<open>CAST\<close>); each is atomic, and one that fails is logged and skipped. The
  schema statements (tables, indexes, the rebuilding of tables of much older versions) are not
  modelled: the record \<open>store\<close> is the schema they lead to.
\<close>

section \<open>SQLite\<close>

text \<open>\<^verbatim>\<open>s LIKE p\<close>: \<^verbatim>\<open>%\<close> is any string, \<^verbatim>\<open>_\<close> any character, ASCII letters without case.\<close>

fun sql_like :: "string \<Rightarrow> string \<Rightarrow> bool" where
  "sql_like [] t = (t = [])"
| "sql_like (p # ps) [] = (p = CHR ''%'' \<and> sql_like ps [])"
| "sql_like (p # ps) (c # cs) =
     (if p = CHR ''%'' then sql_like ps (c # cs) \<or> sql_like (p # ps) cs
      else if p = CHR ''_'' then sql_like ps cs
      else ToLower [p] = ToLower [c] \<and> sql_like ps cs)"

text \<open>\<^verbatim>\<open>REPLACE(s, p, '')\<close>; the number counts the characters of a match still to be skipped.\<close>

fun remove_all :: "string \<Rightarrow> nat \<Rightarrow> string \<Rightarrow> string" where
  "remove_all p n [] = []"
| "remove_all p (Suc n) (c # cs) = remove_all p n cs"
| "remove_all p 0 (c # cs) =
     (if HasPrefix (c # cs) p then remove_all p (length p - 1) cs else c # remove_all p 0 cs)"

definition sql_replace :: "string \<Rightarrow> string \<Rightarrow> string" where
  "sql_replace p s = (if p = [] then s else remove_all p 0 s)"

text \<open>\<^verbatim>\<open>CAST(s AS INTEGER)\<close>: the longest numeric prefix, clamped to 64 bits, or 0.\<close>

definition digits_value :: "string \<Rightarrow> int" where
  "digits_value ds = foldl (\<lambda>a c. 10 * a + int (of_char c - 48)) 0 (takeWhile is_digit ds)"

definition clamp64 :: "int \<Rightarrow> int" where
  "clamp64 i = (if i > 2 ^ 63 - 1 then 2 ^ 63 - 1 else if i < - (2 ^ 63) then - (2 ^ 63) else i)"

definition sql_cast :: "string \<Rightarrow> int" where
  "sql_cast s =
     (case dropWhile is_space s of
        [] \<Rightarrow> 0
      | c # cs \<Rightarrow> clamp64 (if c = CHR ''-'' then - digits_value cs
                           else if c = CHR ''+'' then digits_value cs else digits_value (c # cs)))"

section \<open>The transfers\<close>

text \<open>\<^verbatim>\<open>(SELECT n.name FROM namespaces n WHERE n.id=namespace_id) || '/' || name\<close>\<close>

definition full_name :: "store \<Rightarrow> repo_row \<Rightarrow> string option" where
  "full_name s r = map_option (\<lambda>n. ns_name n @ ''/'' @ rp_name r)
     (tfind (\<lambda>n. ns_id n = rp_ns r) (s_namespaces s))"

text \<open>\<^verbatim>\<open>name IN (SELECT REPLACE(key, 'k:', '') FROM settings WHERE key LIKE 'k:%' AND ...)\<close>\<close>

definition listed :: "string \<Rightarrow> (string \<Rightarrow> bool) \<Rightarrow> store \<Rightarrow> repo_row \<Rightarrow> bool" where
  "listed key P s r \<longleftrightarrow>
     (\<exists>k v. s_settings s k = Some v \<and> sql_like (key @ '':%'') k \<and> P v \<and>
        full_name s r = Some (sql_replace (key @ '':'') k))"

text \<open>\<^verbatim>\<open>(SELECT value FROM settings WHERE key='k:' || ... )\<close>\<close>

definition legacy_value :: "string \<Rightarrow> store \<Rightarrow> repo_row \<Rightarrow> string option" where
  "legacy_value key s r = Option.bind (full_name s r) (\<lambda>n. s_settings s (key @ '':'' @ n))"

text \<open>One \<^verbatim>\<open>UPDATE repositories ... WHERE\<close>; an error leaves the table as it is.\<close>

definition transfer :: "(repo_row \<Rightarrow> bool) \<Rightarrow> (repo_row \<Rightarrow> repo_row) \<Rightarrow> store \<Rightarrow> store" where
  "transfer hit f s =
     (if repo_join_fault s \<or> s_fault s TSettings then s
      else s\<lparr>s_repos := tupdate hit f (s_repos s)\<rparr>)"

definition transfer_anonymous :: "store \<Rightarrow> store" where
  "transfer_anonymous s = transfer
     (\<lambda>r. \<not> rp_anon r \<and> listed ''allow_anonymous_pull'' (\<lambda>v. v = ''true'') s r)
     (\<lambda>r. r\<lparr>rp_anon := True\<rparr>) s"

definition transfer_push_create :: "store \<Rightarrow> store" where
  "transfer_push_create s = transfer
     (\<lambda>r. rp_push_create r = -1 \<and> listed ''push_create_repo'' (\<lambda>_. True) s r)
     (\<lambda>r. r\<lparr>rp_push_create := if legacy_value ''push_create_repo'' s r = Some ''true'' then 1 else 0\<rparr>) s"

text \<open>A row whose key is found only after \<^verbatim>\<open>REPLACE\<close> would become NULL: the statement fails as a whole.\<close>

definition transfer_keep :: "store \<Rightarrow> store" where
  "transfer_keep s =
     (let hit = (\<lambda>r. rp_keep r = -1 \<and> listed ''retention_keep_count'' (\<lambda>_. True) s r) in
      if \<exists>r \<in> set (trows (s_repos s)). hit r \<and> legacy_value ''retention_keep_count'' s r = None then s
      else transfer hit
        (\<lambda>r. r\<lparr>rp_keep := (case legacy_value ''retention_keep_count'' s r of Some v \<Rightarrow> sql_cast v | None \<Rightarrow> -1)\<rparr>) s)"

definition transfer_protection :: "store \<Rightarrow> store" where
  "transfer_protection s = transfer
     (\<lambda>r. rp_prot r = -1 \<and> listed ''protection_mode'' (\<lambda>_. True) s r)
     (\<lambda>r. r\<lparr>rp_prot := (case legacy_value ''protection_mode'' s r of
        Some v \<Rightarrow> if v = ''overwrite'' then 1 else if v = ''immutable'' then 2 else if v = ''rules'' then 0 else -1
      | None \<Rightarrow> -1)\<rparr>) s"

definition transfer_flag :: "string \<Rightarrow> int \<Rightarrow> store \<Rightarrow> store" where
  "transfer_flag key code s = transfer
     (\<lambda>r. rp_prot r = -1 \<and> listed key (\<lambda>v. v = ''true'') s r) (\<lambda>r. r\<lparr>rp_prot := code\<rparr>) s"

definition transfer_overwrite :: "store \<Rightarrow> store" where
  "transfer_overwrite s = transfer
     (\<lambda>r. rp_ow r = -1 \<and> listed ''overwrite_action'' (\<lambda>_. True) s r)
     (\<lambda>r. r\<lparr>rp_ow := (case legacy_value ''overwrite_action'' s r of
        Some v \<Rightarrow> if v = ''keep'' then 1 else if v = ''recycle'' then 0 else -1
      | None \<Rightarrow> -1)\<rparr>) s"

definition legacy_patterns :: "string list" where
  "legacy_patterns = [''allow_anonymous_pull:%/%'', ''overwrite_action:%/%'', ''protection_mode:%/%'',
     ''push_create_repo:%/%'', ''retention_keep_count:%/%'', ''allow_overwrite:%'', ''immutable_repo:%'']"

definition cleanup_legacy :: "store \<Rightarrow> store" where
  "cleanup_legacy s =
     (if s_fault s TSettings then s
      else s\<lparr>s_settings := (\<lambda>k. if list_ex (\<lambda>p. sql_like p k) legacy_patterns then None else s_settings s k)\<rparr>)"

definition migrate_policies :: "store \<Rightarrow> store" where
  "migrate_policies s =
     cleanup_legacy (transfer_overwrite (transfer_flag ''immutable_repo'' 2 (transfer_flag ''allow_overwrite'' 1
       (transfer_protection (transfer_keep (transfer_push_create (transfer_anonymous s)))))))"

definition drop_setting :: "string \<Rightarrow> store \<Rightarrow> store" where
  "drop_setting key s =
     (if s_fault s TSettings then s else s\<lparr>s_settings := (s_settings s)(key := None)\<rparr>)"

text \<open>The whole start, on the database an earlier process left; \<open>h\<close> is the hash of the seeded password.\<close>

definition migrate :: "int \<Rightarrow> string option \<Rightarrow> store \<Rightarrow> unit sres \<times> store" where
  "migrate now h s =
     (case migrate_users now h (migrate_policies (drop_setting ''selectedRegistryId'' (s\<lparr>s_cache := Map.empty\<rparr>))) of
        (Inl e, s1) \<Rightarrow> (Inl e, s1)
      | (Inr _, s1) \<Rightarrow> (Inr (), drop_setting ''userPasswordHash'' s1))"

section \<open>What the statements select\<close>

lemma sql_like_self: "CHR ''%'' \<notin> set p \<Longrightarrow> sql_like (p @ ''%'') (p @ t)"
proof (induction p)
  case Nil
  have "sql_like ''%'' t" by (induction t) simp_all
  then show ?case by simp
next
  case (Cons a p)
  then show ?case by (cases "a = CHR ''%''") auto
qed

lemma sql_like_any: "sql_like q t \<Longrightarrow> sql_like (CHR ''%'' # q) (u @ t)"
  by (induction u) (cases t; simp)+

lemma sql_like_namespaced: "CHR ''%'' \<notin> set p \<Longrightarrow> sql_like (p @ ''%/%'') (p @ a @ ''/'' @ b)"
proof (induction p)
  case Nil
  have "sql_like ''%'' b" by (induction b) simp_all
  then have "sql_like ''/%'' (CHR ''/'' # b)" by simp
  from sql_like_any[OF this, of a] show ?case by simp
next
  case (Cons c p)
  then show ?case by (cases "c = CHR ''%''") auto
qed

lemma remove_all_none:
  assumes "CHR '':'' \<in> set p" shows "CHR '':'' \<notin> set t \<Longrightarrow> remove_all p 0 t = t"
proof (induction t)
  case (Cons c t)
  then have "\<not> HasPrefix (c # t) p" using assms by (metis HasPrefix_iff Un_iff set_append)
  with Cons show ?case by simp
qed simp

lemma remove_all_skip: "remove_all p (length u) (u @ t) = remove_all p 0 t"
  by (induction u) simp_all

lemma sql_replace_key: "CHR '':'' \<notin> set n \<Longrightarrow> sql_replace (key @ '':'') (key @ '':'' @ n) = n"
proof -
  assume n: "CHR '':'' \<notin> set n"
  obtain c u where p: "key @ '':'' = c # u" by (cases key) auto
  have eq: "key @ '':'' @ n = c # u @ n" using p by (metis append.assoc append_Cons)
  have "HasPrefix (c # u @ n) (c # u)" by (metis HasPrefix_append append_Cons)
  moreover have "remove_all (c # u) 0 n = n" by (rule remove_all_none[OF _ n]) (metis p in_set_conv_decomp)
  ultimately have "sql_replace (c # u) (c # u @ n) = n" by (simp add: sql_replace_def remove_all_skip)
  then show ?thesis unfolding eq p .
qed

text \<open>
  The keys older versions wrote: one of the seven names, a colon, a repository without a colon. The
  matching rules of SQLite are laxer; under this condition they select exactly these keys.
\<close>

definition legacy_keys :: "string list" where
  "legacy_keys = [''allow_anonymous_pull'', ''push_create_repo'', ''retention_keep_count'', ''protection_mode'',
     ''allow_overwrite'', ''immutable_repo'', ''overwrite_action'']"

definition plain_keys :: "store \<Rightarrow> bool" where
  "plain_keys s \<longleftrightarrow> (\<forall>key \<in> set legacy_keys. \<forall>k \<in> dom (s_settings s).
     sql_like (key @ '':%'') k \<longrightarrow> (\<exists>n. k = key @ '':'' @ n \<and> CHR '':'' \<notin> set n))"

lemma legacy_key_plain: "key \<in> set legacy_keys \<Longrightarrow> CHR ''%'' \<notin> set key"
  by (auto simp: legacy_keys_def)

lemma listed_iff:
  assumes "plain_keys s" "key \<in> set legacy_keys"
  shows "listed key P s r \<longleftrightarrow> (\<exists>v. legacy_value key s r = Some v \<and> P v)"
proof
  assume "listed key P s r"
  then obtain k v where k: "s_settings s k = Some v" "sql_like (key @ '':%'') k" "P v"
    "full_name s r = Some (sql_replace (key @ '':'') k)" by (auto simp: listed_def)
  with assms obtain n where "k = key @ '':'' @ n" "CHR '':'' \<notin> set n" by (fastforce simp: plain_keys_def)
  with k sql_replace_key show "\<exists>v. legacy_value key s r = Some v \<and> P v" by (auto simp: legacy_value_def)
next
  assume "\<exists>v. legacy_value key s r = Some v \<and> P v"
  then obtain n v where n: "full_name s r = Some n" "s_settings s (key @ '':'' @ n) = Some v" "P v"
    by (auto simp: legacy_value_def split: Option.bind_splits)
  have like: "sql_like (key @ '':%'') (key @ '':'' @ n)"
    using sql_like_self[of "key @ '':''" n] legacy_key_plain[OF assms(2)] by simp
  then have "CHR '':'' \<notin> set n" using assms n(2) unfolding plain_keys_def by fastforce
  with n like sql_replace_key[of n key] show "listed key P s r"
    unfolding listed_def by (intro exI[of _ "key @ '':'' @ n"] exI[of _ v]) simp
qed

lemma full_name_row:
  assumes "repos_ok s" "ns_parts name = Some (a, b)" "repo_by_names a b s = Some r"
  shows "full_name s r = Some name" "name = a @ ''/'' @ b"
proof -
  show nm: "name = a @ ''/'' @ b"
    using assms(2) Index_Some_append[of name "''/''"]
    by (auto simp: ns_parts_def SplitN2_cases split: option.splits)
  obtain n where n: "ns_by_name a s = Some n" "rp_ns r = ns_id n" "rp_name r = b"
    using repo_by_names_SomeD[OF assms(1,3)] by blast
  have "n \<in> set (trows (s_namespaces s))" "ns_name n = a"
    using n(1) by (auto simp: ns_by_name_def dest: tfind_SomeD)
  then show "full_name s r = Some name"
    using tfind_id[OF repos_okD(1)[OF assms(1)]] n(2,3) nm by (simp add: full_name_def)
qed

section \<open>One row through the statements\<close>

definition legacy_key :: "string \<Rightarrow> string \<Rightarrow> string" where
  "legacy_key key name = key @ '':'' @ name"

definition held :: "string \<Rightarrow> string \<Rightarrow> string \<Rightarrow> (string \<rightharpoonup> string) \<Rightarrow> repo_row \<Rightarrow> store \<Rightarrow> bool" where
  "held name a b m r s \<longleftrightarrow> s_settings s = m \<and> \<not> repo_join_fault s \<and> \<not> s_fault s TSettings \<and> plain_keys s \<and>
     full_name s r = Some name \<and> repo_by_names a b s = Some r"

lemma transfer_fields:
  "s_settings (transfer hit f s) = s_settings s" "s_namespaces (transfer hit f s) = s_namespaces s"
  "s_fault (transfer hit f s) = s_fault s" "s_cache (transfer hit f s) = s_cache s"
  by (simp_all add: transfer_def)

lemma transfer_held:
  assumes h: "held name a b m r s"
    and f: "\<And>x. rp_ns (f x) = rp_ns x" "\<And>x. rp_name (f x) = rp_name x"
  shows "held name a b m (if hit r then f r else r) (transfer hit f s)"
proof -
  let ?P = "\<lambda>r. rp_name r = b \<and> thas (\<lambda>n. ns_id n = rp_ns r \<and> ns_name n = a) (s_namespaces s)"
  have "tfind ?P (tupdate hit f (s_repos s)) = map_option (\<lambda>r. if hit r then f r else r) (tfind ?P (s_repos s))"
    by (rule tfind_update) (simp add: f)
  then have "repo_by_names a b (transfer hit f s) = Some (if hit r then f r else r)"
    using h by (simp add: held_def transfer_def repo_by_names_def)
  moreover have "full_name (transfer hit f s) (if hit r then f r else r) = Some name"
    using h f by (simp add: held_def full_name_def transfer_fields)
  ultimately show ?thesis
    using h by (simp add: held_def transfer_fields repo_join_fault_def plain_keys_def)
qed

lemma held_listed:
  assumes "held name a b m r s" "key \<in> set legacy_keys"
  shows "listed key P s r \<longleftrightarrow> (\<exists>v. m (legacy_key key name) = Some v \<and> P v)"
    "legacy_value key s r = m (legacy_key key name)"
  using assms by (auto simp: listed_iff held_def legacy_value_def legacy_key_def)

text \<open>What each column becomes.\<close>

definition moved_anonymous :: "(string \<rightharpoonup> string) \<Rightarrow> string \<Rightarrow> bool \<Rightarrow> bool" where
  "moved_anonymous m name b \<longleftrightarrow> b \<or> m (legacy_key ''allow_anonymous_pull'' name) = Some ''true''"

definition moved_push_create :: "(string \<rightharpoonup> string) \<Rightarrow> string \<Rightarrow> int \<Rightarrow> int" where
  "moved_push_create m name i =
     (case m (legacy_key ''push_create_repo'' name) of
        Some v \<Rightarrow> if i = -1 then if v = ''true'' then 1 else 0 else i | None \<Rightarrow> i)"

definition moved_keep :: "(string \<rightharpoonup> string) \<Rightarrow> string \<Rightarrow> int \<Rightarrow> int" where
  "moved_keep m name i =
     (case m (legacy_key ''retention_keep_count'' name) of Some v \<Rightarrow> if i = -1 then sql_cast v else i | None \<Rightarrow> i)"

definition moved_protection :: "(string \<rightharpoonup> string) \<Rightarrow> string \<Rightarrow> int \<Rightarrow> int" where
  "moved_protection m name i =
     (if i \<noteq> -1 then i
      else let v = m (legacy_key ''protection_mode'' name) in
        if v = Some ''overwrite'' then 1 else if v = Some ''immutable'' then 2 else if v = Some ''rules'' then 0
        else if m (legacy_key ''allow_overwrite'' name) = Some ''true'' then 1
        else if m (legacy_key ''immutable_repo'' name) = Some ''true'' then 2
        else i)"

definition moved_overwrite :: "(string \<rightharpoonup> string) \<Rightarrow> string \<Rightarrow> int \<Rightarrow> int" where
  "moved_overwrite m name i =
     (if i \<noteq> -1 then i
      else let v = m (legacy_key ''overwrite_action'' name) in
        if v = Some ''keep'' then 1 else if v = Some ''recycle'' then 0 else i)"

lemma transfer_to:
  assumes "held name a b m r s" "\<And>x. rp_ns (f x) = rp_ns x" "\<And>x. rp_name (f x) = rp_name x"
    and "(if hit r then f r else r) = r'"
  shows "held name a b m r' (transfer hit f s)"
  using transfer_held[OF assms(1-3), of hit] assms(4) by simp

lemma anonymous_held:
  assumes h: "held name a b m r s"
  shows "held name a b m (r\<lparr>rp_anon := moved_anonymous m name (rp_anon r)\<rparr>) (transfer_anonymous s)"
  unfolding transfer_anonymous_def
  by (rule transfer_to[OF h]) (simp_all add: moved_anonymous_def held_listed[OF h] legacy_keys_def)

lemma push_create_held:
  assumes h: "held name a b m r s"
  shows "held name a b m (r\<lparr>rp_push_create := moved_push_create m name (rp_push_create r)\<rparr>) (transfer_push_create s)"
  unfolding transfer_push_create_def
  by (rule transfer_to[OF h])
    (simp_all add: moved_push_create_def held_listed[OF h] legacy_keys_def split: option.split)

lemma keep_held:
  assumes h: "held name a b m r s"
  shows "held name a b m (r\<lparr>rp_keep := moved_keep m name (rp_keep r)\<rparr>) (transfer_keep s)"
proof -
  have "plain_keys s" using h by (simp add: held_def)
  then have found: "legacy_value ''retention_keep_count'' s x \<noteq> None"
    if "listed ''retention_keep_count'' (\<lambda>_. True) s x" for x
    using that listed_iff[of s "''retention_keep_count''"] by (auto simp: legacy_keys_def)
  have "held name a b m (r\<lparr>rp_keep := moved_keep m name (rp_keep r)\<rparr>)
      (transfer (\<lambda>r. rp_keep r = -1 \<and> listed ''retention_keep_count'' (\<lambda>_. True) s r)
        (\<lambda>r. r\<lparr>rp_keep := (case legacy_value ''retention_keep_count'' s r of Some v \<Rightarrow> sql_cast v | None \<Rightarrow> -1)\<rparr>) s)"
    by (rule transfer_to[OF h])
      (simp_all add: moved_keep_def held_listed[OF h] legacy_keys_def split: option.split)
  with found show ?thesis unfolding transfer_keep_def Let_def by (smt (verit))
qed

lemma protection_held:
  assumes h: "held name a b m r s"
  shows "held name a b m (r\<lparr>rp_prot := moved_protection m name (rp_prot r)\<rparr>)
    (transfer_flag ''immutable_repo'' 2 (transfer_flag ''allow_overwrite'' 1 (transfer_protection s)))"
proof -
  let ?v = "m (legacy_key ''protection_mode'' name)"
  let ?r1 = "if rp_prot r \<noteq> -1 then r else if ?v = Some ''overwrite'' then r\<lparr>rp_prot := 1\<rparr>
     else if ?v = Some ''immutable'' then r\<lparr>rp_prot := 2\<rparr> else if ?v = Some ''rules'' then r\<lparr>rp_prot := 0\<rparr> else r"
  let ?r2 = "if rp_prot ?r1 = -1 \<and> m (legacy_key ''allow_overwrite'' name) = Some ''true'' then ?r1\<lparr>rp_prot := 1\<rparr> else ?r1"
  have 1: "held name a b m ?r1 (transfer_protection s)"
    unfolding transfer_protection_def
    by (rule transfer_to[OF h]) (auto simp: held_listed[OF h] legacy_keys_def split: option.split)
  have 2: "held name a b m ?r2 (transfer_flag ''allow_overwrite'' 1 (transfer_protection s))"
    unfolding transfer_flag_def
    by (rule transfer_to[OF 1]) (simp_all add: held_listed[OF 1] legacy_keys_def)
  show ?thesis
    unfolding transfer_flag_def[of "''immutable_repo''"]
    by (rule transfer_to[OF 2]) (auto simp: held_listed[OF 2] legacy_keys_def moved_protection_def Let_def)
qed

lemma overwrite_held:
  assumes h: "held name a b m r s"
  shows "held name a b m (r\<lparr>rp_ow := moved_overwrite m name (rp_ow r)\<rparr>) (transfer_overwrite s)"
  unfolding transfer_overwrite_def
  by (rule transfer_to[OF h])
    (auto simp: moved_overwrite_def held_listed[OF h] legacy_keys_def Let_def split: option.split)

definition migrated_row :: "(string \<rightharpoonup> string) \<Rightarrow> string \<Rightarrow> repo_row \<Rightarrow> repo_row" where
  "migrated_row m name r = r\<lparr>rp_anon := moved_anonymous m name (rp_anon r),
     rp_push_create := moved_push_create m name (rp_push_create r), rp_keep := moved_keep m name (rp_keep r),
     rp_prot := moved_protection m name (rp_prot r), rp_ow := moved_overwrite m name (rp_ow r)\<rparr>"

lemma cleanup_held:
  assumes "held name a b m r s"
  shows "repo_by_names a b (cleanup_legacy s) = Some r"
    "s_settings (cleanup_legacy s) = (\<lambda>k. if list_ex (\<lambda>p. sql_like p k) legacy_patterns then None else m k)"
    "\<not> repo_join_fault (cleanup_legacy s)" "\<not> s_fault (cleanup_legacy s) TSettings"
    "s_cache (cleanup_legacy s) = s_cache s"
  using assms by (auto simp: cleanup_legacy_def held_def repo_by_names_def repo_join_fault_def)

lemma migrate_policies_row:
  assumes "held name a b m r s"
  shows "repo_by_names a b (migrate_policies s) = Some (migrated_row m name r)"
    "s_settings (migrate_policies s) = (\<lambda>k. if list_ex (\<lambda>p. sql_like p k) legacy_patterns then None else m k)"
    "\<not> repo_join_fault (migrate_policies s)" "\<not> s_fault (migrate_policies s) TSettings"
    "s_cache (migrate_policies s) = s_cache s"
proof -
  let ?t = "transfer_overwrite (transfer_flag ''immutable_repo'' 2 (transfer_flag ''allow_overwrite'' 1
       (transfer_protection (transfer_keep (transfer_push_create (transfer_anonymous s))))))"
  have t: "held name a b m (migrated_row m name r) ?t"
    using overwrite_held[OF protection_held[OF keep_held[OF push_create_held[OF anonymous_held[OF assms]]]]]
    by (simp add: migrated_row_def)
  have "s_cache ?t = s_cache s"
    by (simp add: transfer_overwrite_def transfer_flag_def transfer_protection_def transfer_keep_def
        transfer_push_create_def transfer_anonymous_def transfer_fields Let_def)
  then show "s_cache (migrate_policies s) = s_cache s"
    unfolding migrate_policies_def cleanup_held(5)[OF t] .
  show "repo_by_names a b (migrate_policies s) = Some (migrated_row m name r)"
    "s_settings (migrate_policies s) = (\<lambda>k. if list_ex (\<lambda>p. sql_like p k) legacy_patterns then None else m k)"
    "\<not> repo_join_fault (migrate_policies s)" "\<not> s_fault (migrate_policies s) TSettings"
    unfolding migrate_policies_def by (rule cleanup_held[OF t])+
qed

section \<open>The policy that was meant\<close>

text \<open>What the row and the settings of an older version say, before anything is moved.\<close>

definition global_or :: "string \<Rightarrow> string \<Rightarrow> store \<Rightarrow> string" where
  "global_or key dflt s = (if setting_of s key \<noteq> [] then setting_of s key else dflt)"

definition meant_protection :: "repo_row \<Rightarrow> string \<Rightarrow> store \<Rightarrow> string" where
  "meant_protection r name s =
     (let v = setting_of s (legacy_key ''protection_mode'' name) in
      if rp_prot r \<ge> 0 then ProtectionCodeToString (rp_prot r)
      else if v \<in> set [''overwrite'', ''immutable'', ''rules''] then v
      else if setting_of s (legacy_key ''allow_overwrite'' name) = ''true'' then ''overwrite''
      else if setting_of s (legacy_key ''immutable_repo'' name) = ''true'' then ''immutable''
      else global_or ''protection_mode'' ''rules'' s)"

definition meant_overwrite :: "repo_row \<Rightarrow> string \<Rightarrow> store \<Rightarrow> string" where
  "meant_overwrite r name s =
     (let v = setting_of s (legacy_key ''overwrite_action'' name) in
      if rp_ow r \<ge> 0 then OverwriteCodeToString (rp_ow r)
      else if v \<in> set [''keep'', ''recycle''] then v
      else global_or ''overwrite_action'' ''recycle'' s)"

definition meant_keep :: "repo_row \<Rightarrow> string \<Rightarrow> store \<Rightarrow> int" where
  "meant_keep r name s =
     (let g = global_or ''retention_keep_count'' [] s;
          dflt = (if g = [] \<or> snd (Atoi g) \<noteq> None then 0 else max 0 (fst (Atoi g))) in
      if rp_keep r \<ge> 0 then rp_keep r
      else case s_settings s (legacy_key ''retention_keep_count'' name) of
        Some v \<Rightarrow> if sql_cast v \<ge> 0 then sql_cast v else dflt
      | None \<Rightarrow> dflt)"

definition meant_anonymous :: "repo_row \<Rightarrow> string \<Rightarrow> store \<Rightarrow> bool" where
  "meant_anonymous r name s \<longleftrightarrow> rp_anon r \<or> setting_of s (legacy_key ''allow_anonymous_pull'' name) = ''true''"

definition meant_create :: "repo_row \<Rightarrow> string \<Rightarrow> store \<Rightarrow> bool" where
  "meant_create r name s =
     (if rp_push_create r \<ge> 0 then rp_push_create r = 1
      else case s_settings s (legacy_key ''push_create_repo'' name) of
        Some v \<Rightarrow> v = ''true''
      | None \<Rightarrow> bool_of_setting (setting_of s ''push_create_repo'') True)"

text \<open>A column is a value or the -1 that stands for unset.\<close>

definition unset_or_value :: "repo_row \<Rightarrow> bool" where
  "unset_or_value r \<longleftrightarrow> rp_prot r \<ge> -1 \<and> rp_ow r \<ge> -1 \<and> rp_keep r \<ge> -1 \<and> rp_push_create r \<ge> -1"

lemma setting_of_eq: "s_settings s k = Some v \<Longrightarrow> setting_of s k = v"
  by (simp add: setting_of_def)

lemma setting_of_Some: "v \<noteq> [] \<Longrightarrow> setting_of s k = v \<longleftrightarrow> s_settings s k = Some v"
  by (auto simp: setting_of_def split: option.splits)

text \<open>After the start: the row, no legacy key of the repository, the global keys as they were.\<close>

definition started :: "string \<Rightarrow> repo_row \<Rightarrow> store \<Rightarrow> store \<Rightarrow> bool" where
  "started name r s s' \<longleftrightarrow> cache_ok s' \<and> settings_up s' \<and> policy_row name s' = Some (migrated_row (s_settings s) name r) \<and>
     (\<forall>key \<in> set [''push_create_repo'', ''retention_keep_count'', ''protection_mode'', ''overwrite_action''].
        setting_of s' (key @ '':'' @ name) = [] \<and> setting_of s' key = setting_of s key)"

lemma startedD:
  assumes "started name r s s'"
  shows "cache_ok s'" "settings_up s'" "policy_row name s' = Some (migrated_row (s_settings s) name r)"
    "key \<in> set [''push_create_repo'', ''retention_keep_count'', ''protection_mode'', ''overwrite_action''] \<Longrightarrow>
     setting_of s' (key @ '':'' @ name) = []"
    "key \<in> set [''push_create_repo'', ''retention_keep_count'', ''protection_mode'', ''overwrite_action''] \<Longrightarrow>
     setting_of s' key = setting_of s key"
  using assms by (simp_all only: started_def)

lemma repoKeepCount_value:
  assumes "cache_ok s" "settings_up s" "policy_row repo s = Some r" "setting_of s (''retention_keep_count:'' @ repo) = []"
  shows "fst (repoKeepCount repo s) = (if rp_keep r \<ge> 0 then rp_keep r
     else max 0 (fst (GetSettingInt ''retention_keep_count'' 0 s)))"
proof -
  obtain o1 s1 where r: "repo_setting ''retention_keep_count'' repo s = (o1, s1)" by fastforce
  have "o1 = None" using repo_setting_value[OF assms(1,2), of "''retention_keep_count''" repo] r assms(4) by simp
  moreover have "cache_ok s1" "settings_up s1" "setting_of s1 = setting_of s"
    using repo_setting_ok(1)[OF assms(1), of "''retention_keep_count''" repo]
      repo_setting_ok(2)[of "''retention_keep_count''" repo s] same_data_setting_of[OF repo_setting_same_data[of s "''retention_keep_count''" repo]]
      assms(1,2) r by simp_all
  then have "fst (GetSettingInt ''retention_keep_count'' 0 s1) = fst (GetSettingInt ''retention_keep_count'' 0 s)"
    using assms(1,2) by (simp add: GetSettingInt_value)
  ultimately have "fst (repoKeepCount_settings repo s) = max 0 (fst (GetSettingInt ''retention_keep_count'' 0 s))"
    by (simp add: repoKeepCount_settings_def r split_beta Let_def)
  then show ?thesis
    unfolding repoKeepCount_def repo_getter_defs policy_column_cases by (simp add: assms(3))
qed

lemma drop_setting_fields:
  "\<not> s_fault s TSettings \<Longrightarrow> s_settings (drop_setting key s) = (s_settings s)(key := None)"
  "s_repos (drop_setting key s) = s_repos s" "s_namespaces (drop_setting key s) = s_namespaces s"
  "s_fault (drop_setting key s) = s_fault s" "s_cache (drop_setting key s) = s_cache s"
  by (simp_all add: drop_setting_def)

lemma migrate_users_frame:
  assumes "migrate_users now h s = (Inr (), s')"
  shows "s_settings s' = s_settings s" "s_repos s' = s_repos s" "s_namespaces s' = s_namespaces s"
    "s_fault s' = s_fault s" "s_cache s' = s_cache s"
  using assms by (auto simp: migrate_users_def seed_admin_def split: prod.splits sum.splits if_splits option.splits bool.splits)

lemma global_key_kept:
  "key \<in> set [''push_create_repo'', ''retention_keep_count'', ''protection_mode'', ''overwrite_action''] \<Longrightarrow>
   \<not> list_ex (\<lambda>p. sql_like p key) legacy_patterns \<and> key \<noteq> ''selectedRegistryId'' \<and> key \<noteq> ''userPasswordHash''"
  by (auto simp: legacy_patterns_def ToLower_def to_lower_char_def)

lemma legacy_key_dropped:
  "key \<in> set [''push_create_repo'', ''retention_keep_count'', ''protection_mode'', ''overwrite_action''] \<Longrightarrow>
   list_ex (\<lambda>p. sql_like p (key @ '':'' @ a @ ''/'' @ b)) legacy_patterns"
  using sql_like_namespaced[of "key @ '':''" a b] by (auto simp: legacy_patterns_def)

lemma migrate_started:
  assumes ok: "repos_ok s" and plain: "plain_keys s" and up: "\<not> repo_join_fault s" "settings_up s"
    and row: "ns_parts name = Some (a, b)" "repo_by_names a b s = Some r"
    and run: "migrate now h s = (Inr (), s')"
  shows "started name r s s'"
proof -
  let ?s0 = "drop_setting ''selectedRegistryId'' (s\<lparr>s_cache := Map.empty\<rparr>)"
  have st: "\<not> s_fault s TSettings" using up(2) by (simp add: settings_up_def)
  have nm: "full_name s r = Some name" "name = a @ ''/'' @ b" by (rule full_name_row[OF ok row])+
  have m0: "s_settings ?s0 = (s_settings s)(''selectedRegistryId'' := None)"
    using st by (simp add: drop_setting_fields)
  have "held name a b (s_settings ?s0) r ?s0"
    using st up plain row(2) nm(1)
    by (auto simp: held_def drop_setting_def repo_join_fault_def repo_by_names_def full_name_def plain_keys_def)
  note p = migrate_policies_row[OF this]
  obtain s1 where u: "migrate_users now h (migrate_policies ?s0) = (Inr (), s1)"
    and s': "s' = drop_setting ''userPasswordHash'' s1"
    using run by (auto simp: migrate_def split: prod.splits sum.splits)
  note f = migrate_users_frame[OF u]
  have keys: "s_settings ?s0 (legacy_key key name) = s_settings s (legacy_key key name)" for key
    using nm(2) by (auto simp: m0 legacy_key_def dest: arg_cong[where f = "\<lambda>t. CHR '':'' \<in> set t"])
  then have "migrated_row (s_settings ?s0) name r = migrated_row (s_settings s) name r"
    by (simp add: migrated_row_def moved_anonymous_def moved_push_create_def moved_keep_def
        moved_protection_def moved_overwrite_def)
  moreover have "repo_by_names a b s' = repo_by_names a b (migrate_policies ?s0)"
    by (simp add: s' f drop_setting_fields repo_by_names_def)
  moreover have fault: "\<not> repo_join_fault s'" "\<not> s_fault s' TSettings"
    using p(3,4) by (simp_all add: s' f drop_setting_fields repo_join_fault_def)
  ultimately have "policy_row name s' = Some (migrated_row (s_settings s) name r)"
    using p(1) row(1) by (simp add: policy_row_def)
  moreover have "cache_ok s'" using p(5) by (simp add: s' f drop_setting_fields cache_ok_def)
  moreover have set': "s_settings s' = (\<lambda>k. if list_ex (\<lambda>p. sql_like p k) legacy_patterns then None
      else s_settings ?s0 k)(''userPasswordHash'' := None)"
    using p(2,4) by (simp add: s' f drop_setting_fields)
  have "setting_of s' (key @ '':'' @ name) = [] \<and> setting_of s' key = setting_of s key"
    if "key \<in> set [''push_create_repo'', ''retention_keep_count'', ''protection_mode'', ''overwrite_action'']" for key
    using global_key_kept[OF that] legacy_key_dropped[OF that, of a b] by (simp add: setting_of_def set' m0 nm(2))
  ultimately show ?thesis using fault by (simp add: started_def settings_up_def)
qed

lemma started_protection:
  assumes st: "started name r s s'" and r: "rp_prot r \<ge> -1"
  shows "fst (resolveProtectionMode name s') = meant_protection r name s"
proof -
  have tiers: "string_tiers ''protection_mode'' ''rules'' name s' = global_or ''protection_mode'' ''rules'' s"
    using startedD(4,5)[OF st, of "''protection_mode''"] by (simp add: string_tiers_def global_or_def del: append.simps)
  show ?thesis
    using r by (auto simp: resolveProtectionMode_value startedD[OF st] tiers migrated_row_def moved_protection_def
        meant_protection_def setting_of_Some Let_def ProtectionCodeToString_def policy_code_defs intro: setting_of_eq[symmetric])
qed

lemma started_overwrite:
  assumes st: "started name r s s'" and r: "rp_ow r \<ge> -1"
  shows "fst (resolveOverwriteAction name s') = meant_overwrite r name s"
proof -
  have tiers: "string_tiers ''overwrite_action'' ''recycle'' name s' = global_or ''overwrite_action'' ''recycle'' s"
    using startedD(4,5)[OF st, of "''overwrite_action''"] by (simp add: string_tiers_def global_or_def del: append.simps)
  show ?thesis
    using r by (auto simp: resolveOverwriteAction_value startedD[OF st] tiers migrated_row_def moved_overwrite_def
        meant_overwrite_def setting_of_Some Let_def OverwriteCodeToString_def policy_code_defs intro: setting_of_eq[symmetric])
qed

lemma started_keep:
  assumes st: "started name r s s'" and r: "rp_keep r \<ge> -1"
  shows "fst (repoKeepCount name s') = meant_keep r name s"
proof -
  have k: "setting_of s' (''retention_keep_count:'' @ name) = []"
    "setting_of s' ''retention_keep_count'' = setting_of s ''retention_keep_count''"
    using startedD(4,5)[OF st, of "''retention_keep_count''"] by simp_all
  show ?thesis
    using r unfolding repoKeepCount_value[OF startedD(1-3)[OF st] k(1)]
    by (auto simp: migrated_row_def moved_keep_def meant_keep_def global_or_def GetSettingInt_value
        startedD(1,2)[OF st] k(2) Let_def split: option.splits)
qed

lemma started_anonymous:
  assumes st: "started name r s s'"
  shows "fst (isAnonymousPullAllowed name s') = meant_anonymous r name s"
  by (auto simp: isAnonymousPullAllowed_value startedD[OF st] migrated_row_def moved_anonymous_def
      meant_anonymous_def setting_of_Some)

lemma started_create:
  assumes st: "started name r s s'" and r: "rp_push_create r \<ge> -1"
  shows "fst (pushCreateAllowed name s') = meant_create r name s"
proof -
  have tiers: "bool_tiers ''push_create_repo'' True name s' = bool_of_setting (setting_of s ''push_create_repo'') True"
    using startedD(4,5)[OF st, of "''push_create_repo''"] by (simp add: bool_tiers_def del: append.simps)
  show ?thesis
    using r by (auto simp: pushCreateAllowed_value startedD[OF st] tiers migrated_row_def moved_push_create_def
        meant_create_def split: option.splits)
qed

section \<open>Repositories without a row\<close>

definition unrowed :: "string \<Rightarrow> string \<Rightarrow> string \<Rightarrow> store \<Rightarrow> bool" where
  "unrowed name a b s \<longleftrightarrow> ns_parts name = Some (a, b) \<and> \<not> repo_join_fault s \<and> settings_up s \<and> cache_ok s \<and>
     repo_by_names a b s = None"

lemma unrowed_policy_row: "unrowed name a b s \<Longrightarrow> policy_row name s = None"
  by (simp add: unrowed_def policy_row_def)

lemma update_repo_unrowed:
  assumes "unrowed name a b s" shows "update_repo f a b s = (Inl (RepoNotFound a b), s)"
proof -
  have none: "rp_name r = b \<Longrightarrow> r \<in> set (trows (s_repos s)) \<Longrightarrow> n \<in> set (trows (s_namespaces s)) \<Longrightarrow>
      ns_id n = rp_ns r \<Longrightarrow> ns_name n \<noteq> a" for r n
    using assms by (auto simp: unrowed_def repo_by_names_def tfind_None thas_iff)
  have "n \<in> set (trows (s_namespaces s)) \<and> ns_name n = a" if "ns_by_name a s = Some n" for n
    using that by (auto simp: ns_by_name_def dest: tfind_SomeD)
  with none have "\<not> thas (\<lambda>r. (case ns_by_name a s of None \<Rightarrow> False | Some n \<Rightarrow> rp_ns r = ns_id n) \<and> rp_name r = b) (s_repos s)"
    by (fastforce simp: thas_iff split: option.splits)
  with assms show ?thesis by (simp add: update_repo_def unrowed_def Let_def)
qed

lemma SetSetting_frame:
  "s_repos (snd (SetSetting key v s)) = s_repos s" "s_namespaces (snd (SetSetting key v s)) = s_namespaces s"
  "s_fault (snd (SetSetting key v s)) = s_fault s"
  by (simp_all add: SetSetting_def split: sum.split)

lemma unrowed_SetSetting: "unrowed name a b s \<Longrightarrow> unrowed name a b (snd (SetSetting key v s))"
  by (simp add: unrowed_def SetSetting_cache_ok SetSetting_frame repo_join_fault_def repo_by_names_def)

lemma put_field_unrowed:
  "unrowed name a b s \<Longrightarrow> put_field (\<lambda>a b. update_repo f a b) key text name s = snd (SetSetting (key @ '':'' @ name) text s)"
  using update_repo_unrowed[of name a b s f] by (simp add: put_field_def unrowed_def)

lemma put_keep_unrowed: "unrowed name a b s \<Longrightarrow> put_keep k name s = s"
  using update_repo_unrowed[of name a b s "\<lambda>r. r\<lparr>rp_keep := k\<rparr>"]
  by (simp add: put_keep_def SetRepositoryRetentionKeepCount_def unrowed_def)

lemma SetSetting_at:
  "k \<noteq> key \<Longrightarrow> setting_of (snd (SetSetting key v s)) k = setting_of s k"
  "settings_up s \<Longrightarrow> numericSettingBounds key = None \<Longrightarrow> setting_of (snd (SetSetting key v s)) key = v"
  by (auto simp: SetSetting_def setting_of_def settings_up_def validateSettingValue_def split: sum.splits option.splits)

lemma policy_put_unrowed:
  assumes u: "unrowed name a b s" and pm: "ProtectionStringToCode (pq_protection req) \<noteq> ProtectionModeUnset"
  shows "unrowed name a b (policy_put req name s)"
    "setting_of (policy_put req name s) (''protection_mode'' @ '':'' @ name) = pq_protection req"
    "setting_of (policy_put req name s) ''protection_mode'' = setting_of s ''protection_mode''"
    "s_fault (policy_put req name s) = s_fault s"
proof -
  have up: "settings_up s" using u by (simp add: unrowed_def)
  have nb: "numericSettingBounds (''protection_mode'' @ '':'' @ name) = None"
    by (simp add: numericSettingBounds_def)
  define s1 where "s1 = snd (SetSetting (''protection_mode'' @ '':'' @ name) (pq_protection req) s)"
  have 1: "unrowed name a b s1" "setting_of s1 (''protection_mode'' @ '':'' @ name) = pq_protection req"
    "setting_of s1 ''protection_mode'' = setting_of s ''protection_mode''" "s_fault s1 = s_fault s"
    unfolding s1_def by (simp_all only: unrowed_SetSetting[OF u] SetSetting_at(2)[OF up nb] SetSetting_frame) (simp add: SetSetting_at(1))
  define ok where "ok t \<longleftrightarrow> unrowed name a b t \<and> setting_of t (''protection_mode'' @ '':'' @ name) = pq_protection req \<and>
      setting_of t ''protection_mode'' = setting_of s ''protection_mode'' \<and> s_fault t = s_fault s" for t
  let ?pm = "let c = ProtectionStringToCode (pq_protection req) in if c = ProtectionModeUnset then ProtectionModeRules else c"
  have field: "ok (put_field (\<lambda>a b. update_repo f a b) key v name t)"
    if t: "ok t" and k: "key \<in> set [''overwrite_action'', ''allow_anonymous_pull'', ''push_create_repo'']" for f key v t
  proof -
    have t': "unrowed name a b t" using t by (simp add: ok_def)
    show ?thesis unfolding put_field_unrowed[OF t'] using t k
      by (auto simp: ok_def unrowed_SetSetting SetSetting_at(1) SetSetting_frame)
  qed
  let ?oa = "let c = OverwriteStringToCode (pq_overwrite req) in if c = OverwriteActionUnset then OverwriteActionRecycle else c"
  let ?s1 = "put_field (\<lambda>a b. update_repo (\<lambda>r. r\<lparr>rp_prot := ?pm\<rparr>) a b) ''protection_mode'' (ProtectionCodeToString ?pm) name s"
  let ?s2 = "put_field (\<lambda>a b. update_repo (\<lambda>r. r\<lparr>rp_ow := ?oa\<rparr>) a b) ''overwrite_action'' (OverwriteCodeToString ?oa) name ?s1"
  let ?s3 = "put_keep (pq_keep req) name ?s2"
  let ?s4 = "case pq_anon req of None \<Rightarrow> ?s3
     | Some v \<Rightarrow> put_field (\<lambda>a b. update_repo (\<lambda>r. r\<lparr>rp_anon := v\<rparr>) a b) ''allow_anonymous_pull'' (bool_string v) name ?s3"
  have "?s1 = s1"
    unfolding put_field_unrowed[OF u] s1_def using pm protection_code_of_string[OF pm] by (simp add: Let_def del: append.simps)
  with 1 have "ok ?s1" by (simp add: ok_def)
  then have "ok ?s2" by (rule field) simp
  then have "ok ?s3" using put_keep_unrowed[of name a b ?s2] by (simp add: ok_def)
  then have "ok ?s4" by (cases "pq_anon req") (simp_all only: option.case field list.set insert_iff simp_thms)
  then have "ok (case pq_create req of None \<Rightarrow> ?s4
      | Some v \<Rightarrow> put_field (\<lambda>a b. update_repo (\<lambda>r. r\<lparr>rp_push_create := if v then 1 else 0\<rparr>) a b)
         ''push_create_repo'' (bool_string v) name ?s4)"
    by (cases "pq_create req") (simp_all only: option.case field list.set insert_iff simp_thms)
  then have "ok (policy_put req name s)" unfolding policy_put_def repo_setter_defs Let_def by assumption
  then show "unrowed name a b (policy_put req name s)"
    "setting_of (policy_put req name s) (''protection_mode'' @ '':'' @ name) = pq_protection req"
    "setting_of (policy_put req name s) ''protection_mode'' = setting_of s ''protection_mode''"
    "s_fault (policy_put req name s) = s_fault s"
    unfolding ok_def by blast+
qed

lemma transfer_unrowed:
  assumes "repo_by_names a b s = None" "\<And>x. rp_ns (f x) = rp_ns x" "\<And>x. rp_name (f x) = rp_name x"
  shows "repo_by_names a b (transfer hit f s) = None"
proof -
  let ?P = "\<lambda>r. rp_name r = b \<and> thas (\<lambda>n. ns_id n = rp_ns r \<and> ns_name n = a) (s_namespaces s)"
  have "tfind ?P (tupdate hit f (s_repos s)) = map_option (\<lambda>r. if hit r then f r else r) (tfind ?P (s_repos s))"
    by (rule tfind_update) (simp add: assms)
  with assms(1) show ?thesis by (simp add: transfer_def repo_by_names_def)
qed

lemmas transfer_defs = transfer_anonymous_def transfer_push_create_def transfer_keep_def
  transfer_protection_def transfer_flag_def transfer_overwrite_def

lemma transfers_unrowed:
  assumes "repo_by_names a b s = None"
  shows "repo_by_names a b (transfer_anonymous s) = None" "repo_by_names a b (transfer_push_create s) = None"
    "repo_by_names a b (transfer_keep s) = None" "repo_by_names a b (transfer_protection s) = None"
    "repo_by_names a b (transfer_flag key code s) = None" "repo_by_names a b (transfer_overwrite s) = None"
  using assms by (simp_all add: transfer_defs transfer_unrowed Let_def)

lemma transfers_frame:
  "s_settings (transfer_anonymous s) = s_settings s" "s_settings (transfer_push_create s) = s_settings s"
  "s_settings (transfer_keep s) = s_settings s" "s_settings (transfer_protection s) = s_settings s"
  "s_settings (transfer_flag key code s) = s_settings s" "s_settings (transfer_overwrite s) = s_settings s"
  "s_fault (transfer_anonymous s) = s_fault s" "s_fault (transfer_push_create s) = s_fault s"
  "s_fault (transfer_keep s) = s_fault s" "s_fault (transfer_protection s) = s_fault s"
  "s_fault (transfer_flag key code s) = s_fault s" "s_fault (transfer_overwrite s) = s_fault s"
  "s_cache (transfer_anonymous s) = s_cache s" "s_cache (transfer_push_create s) = s_cache s"
  "s_cache (transfer_keep s) = s_cache s" "s_cache (transfer_protection s) = s_cache s"
  "s_cache (transfer_flag key code s) = s_cache s" "s_cache (transfer_overwrite s) = s_cache s"
  by (simp_all add: transfer_defs transfer_fields Let_def)

lemma migrate_unrowed:
  assumes u: "unrowed name a b s" and run: "migrate now h s = (Inr (), s')"
  shows "unrowed name a b s'"
    "setting_of s' (''protection_mode'' @ '':'' @ name) = []"
    "setting_of s' ''protection_mode'' = setting_of s ''protection_mode''"
proof -
  let ?s0 = "drop_setting ''selectedRegistryId'' (s\<lparr>s_cache := Map.empty\<rparr>)"
  have st: "\<not> s_fault s TSettings" using u by (simp add: unrowed_def settings_up_def)
  obtain s1 where m: "migrate_users now h (migrate_policies ?s0) = (Inr (), s1)"
    and s': "s' = drop_setting ''userPasswordHash'' s1"
    using run by (auto simp: migrate_def split: prod.splits sum.splits)
  note f = migrate_users_frame[OF m]
  have none0: "repo_by_names a b ?s0 = None"
    using u by (simp add: unrowed_def repo_by_names_def drop_setting_def)
  have "repo_by_names a b (migrate_policies ?s0) = None"
    using transfers_unrowed[OF none0] transfers_unrowed by (simp add: migrate_policies_def cleanup_legacy_def repo_by_names_def)
  moreover have set': "s_settings s' = (\<lambda>k. if list_ex (\<lambda>p. sql_like p k) legacy_patterns then None
      else s_settings ?s0 k)(''userPasswordHash'' := None)"
    and fault: "s_fault s' = s_fault s" and cache: "s_cache s' = Map.empty"
    using st by (simp_all add: s' f drop_setting_fields migrate_policies_def cleanup_legacy_def transfers_frame cong: if_cong)
  moreover have "repo_by_names a b s' = repo_by_names a b (migrate_policies ?s0)"
    by (simp add: s' f drop_setting_fields repo_by_names_def)
  ultimately show "unrowed name a b s'"
    using u by (simp add: unrowed_def repo_join_fault_def settings_up_def cache_ok_def)
  have nm: "name = a @ ''/'' @ b"
    using u Index_Some_append[of name "''/''"] by (auto simp: unrowed_def ns_parts_def SplitN2_cases split: option.splits)
  show "setting_of s' (''protection_mode'' @ '':'' @ name) = []"
    "setting_of s' ''protection_mode'' = setting_of s ''protection_mode''"
    using global_key_kept[of "''protection_mode''"] legacy_key_dropped[of "''protection_mode''" a b] st
    by (simp_all add: setting_of_def set' nm drop_setting_fields)
qed

lemma unrowed_protection:
  "unrowed name a b s \<Longrightarrow> fst (resolveProtectionMode name s) = string_tiers ''protection_mode'' ''rules'' name s"
  using unrowed_policy_row[of name a b s] by (simp add: resolveProtectionMode_value unrowed_def)

section \<open>Properties\<close>

text \<open>
  C31. Upgrading keeps the policies of a repository that has a row and whose name has a namespace:
  after a successful start on the database of an older version that satisfies the invariant of the
  repository tables and whose settings and repositories can be read and written, protection mode,
  overwrite action, retention count, anonymous pull and push-creates-repository are resolved to what
  the old row and the old settings keys meant, the keys of the single-purpose flags
  (\<^verbatim>\<open>allow_overwrite\<close>, \<^verbatim>\<open>immutable_repo\<close>) included.
  The settings keys hold names without a colon, and the columns a value or -1. (For a repository
  without a namespace the two flags are deleted and not transferred.)
\<close>

theorem upgrade_keeps_policies:
  assumes "repos_ok s" "plain_keys s" "\<not> repo_join_fault s" "settings_up s"
    and "ns_parts name = Some (a, b)" "repo_by_names a b s = Some r" "unset_or_value r"
    and "migrate now h s = (Inr (), s')"
  shows "fst (resolveProtectionMode name s') = meant_protection r name s \<and>
    fst (resolveOverwriteAction name s') = meant_overwrite r name s \<and>
    fst (repoKeepCount name s') = meant_keep r name s \<and>
    fst (isAnonymousPullAllowed name s') = meant_anonymous r name s \<and>
    fst (pushCreateAllowed name s') = meant_create r name s"
proof -
  have st: "started name r s s'" by (rule migrate_started[OF assms(1-6,8)])
  show ?thesis
    using started_protection[OF st] started_overwrite[OF st] started_keep[OF st] started_anonymous[OF st]
      started_create[OF st] assms(7) by (simp add: unset_or_value_def)
qed

lemma migrate_ok: "\<not> s_fault s TUsers \<Longrightarrow> \<exists>s'. migrate now (Some hv) s = (Inr (), s')"
  by (auto simp: migrate_def migrate_users_def seed_admin_def migrate_policies_def cleanup_legacy_def
      transfers_frame drop_setting_fields split: sum.split bool.split)

text \<open>The repository \<^verbatim>\<open>library/nginx\<close> in a database of an older version.\<close>

definition old_store :: store where
  "old_store = nginx_store\<lparr>s_settings := [''allow_overwrite:library/nginx'' \<mapsto> ''true'',
     ''retention_keep_count:library/nginx'' \<mapsto> ''5'', ''overwrite_action'' \<mapsto> ''keep'']\<rparr>"

lemma old_row: "repo_by_names ''library'' ''nginx'' old_store = Some (new_repo 7 1 ''nginx'' 1)"
  "ns_parts ''library/nginx'' = Some (''library'', ''nginx'')" "\<not> repo_join_fault old_store" "\<not> s_fault old_store t"
proof -
  show p: "ns_parts ''library/nginx'' = Some (''library'', ''nginx'')" by code_simp
  show "repo_by_names ''library'' ''nginx'' old_store = Some (new_repo 7 1 ''nginx'' 1)"
    "\<not> repo_join_fault old_store" "\<not> s_fault old_store t"
    by (simp_all add: old_store_def nginx_store_def resolveRepo_def p UpsertNamespace_def GetNamespace_def empty_store_def
        ns_by_name_def tupsert_def thas_def tinsert_def tempty_def tfind_def UpsertRepository_def
        GetRepositoryByNamespaceAndName_def new_repo_def repo_join_fault_def repo_by_names_def row_or_norows_def)
qed

lemma old_plain: "plain_keys old_store"
proof -
  have "\<exists>n. k = key @ '':'' @ n \<and> CHR '':'' \<notin> set n"
    if "key \<in> set legacy_keys" "k \<in> dom (s_settings old_store)" "sql_like (key @ '':%'') k" for key k
    using that by (auto simp: legacy_keys_def old_store_def ToLower_def to_lower_char_def)
  then show ?thesis by (simp add: plain_keys_def)
qed

lemma old_meant:
  "meant_protection (new_repo 7 1 ''nginx'' 1) ''library/nginx'' old_store = ''overwrite''"
  "meant_overwrite (new_repo 7 1 ''nginx'' 1) ''library/nginx'' old_store = ''keep''"
  "meant_keep (new_repo 7 1 ''nginx'' 1) ''library/nginx'' old_store = 5"
  by (simp_all add: meant_protection_def meant_overwrite_def meant_keep_def old_store_def new_repo_def legacy_key_def
      setting_of_def global_or_def sql_cast_def clamp64_def digits_value_def is_digit_def is_space_def Let_def)

theorem upgrade_keeps_policies_witness:
  "\<exists>s'. migrate 9 (Some ''h'') old_store = (Inr (), s') \<and>
    fst (resolveProtectionMode ''library/nginx'' s') = ''overwrite'' \<and>
    fst (resolveOverwriteAction ''library/nginx'' s') = ''keep'' \<and> fst (repoKeepCount ''library/nginx'' s') = 5"
proof -
  obtain r where "policy_state ''library/nginx'' r nginx_store" using nginx_state by blast
  then have ok: "repos_ok old_store"
    using repos_ok_cong[of old_store nginx_store] by (simp add: policy_state_def old_store_def)
  have up: "settings_up old_store" using old_row(4) by (simp add: settings_up_def)
  obtain s' where run: "migrate 9 (Some ''h'') old_store = (Inr (), s')"
    using migrate_ok[OF old_row(4)] by blast
  have "unset_or_value (new_repo 7 1 ''nginx'' 1)" by (simp add: unset_or_value_def new_repo_def)
  from upgrade_keeps_policies[OF ok old_plain old_row(3) up old_row(2,1) this run] run
  show ?thesis by (simp add: old_meant)
qed

text \<open>
  C32. A policy set for a namespaced repository before its first push does not survive a restart: the
  PUT is answered 200 and takes effect, but with no row to move it to, the start deletes the settings
  key it was kept under, and the repository falls back to the global setting or the default.
\<close>

theorem restart_forgets_policy:
  assumes "unrowed name a b s"
    and "rq_path rq = ''/api/repositories/'' @ name @ ''/tag-policy''" "rq_method rq = ''PUT''"
    and "ProtectionStringToCode (pq_protection req) \<noteq> ProtectionModeUnset"
    and "handleRepoTagPolicy rq (Some req) s = (rep, s1)" and "migrate now h s1 = (Inr (), s2)"
  shows "rep = Reply 200 PolicySaved \<and> fst (resolveProtectionMode name s1) = pq_protection req \<and>
    fst (resolveProtectionMode name s2) = global_or ''protection_mode'' ''rules'' s"
proof -
  have name: "TrimSuffix (TrimPrefix (rq_path rq) ''/api/repositories/'') ''/tag-policy'' = name"
    by (simp only: assms(2) TrimPrefix_append TrimSuffix_append)
  have put: "rep = Reply 200 PolicySaved" "s1 = policy_put req name s"
    using assms(5) by (simp_all add: handleRepoTagPolicy_def name Let_def assms(3))
  note p = policy_put_unrowed[OF assms(1,4), folded put(2)]
  note m = migrate_unrowed[OF p(1) assms(6)]
  have "pq_protection req \<noteq> []" using assms(4) by (auto simp: ProtectionStringToCode_def policy_code_defs)
  then show ?thesis
    using p m put(1) by (simp add: unrowed_protection[OF p(1)] unrowed_protection[OF m(1)] string_tiers_def
        global_or_def del: append.simps)
qed

theorem restart_forgets_policy_witness:
  "\<exists>s1 s2. handleRepoTagPolicy
      (blank_request\<lparr>rq_method := ''PUT'', rq_path := ''/api/repositories/'' @ ''team/app'' @ ''/tag-policy''\<rparr>)
      (Some \<lparr>pq_protection = ''immutable'', pq_overwrite = ''keep'', pq_keep = 3, pq_anon = None, pq_create = None\<rparr>)
      empty_store = (Reply 200 PolicySaved, s1) \<and> migrate 9 (Some ''h'') s1 = (Inr (), s2) \<and>
    fst (resolveProtectionMode ''team/app'' s1) = ''immutable'' \<and> fst (resolveProtectionMode ''team/app'' s2) = ''rules''"
proof -
  let ?rq = "blank_request\<lparr>rq_method := ''PUT'', rq_path := ''/api/repositories/'' @ ''team/app'' @ ''/tag-policy''\<rparr>"
  let ?req = "\<lparr>pq_protection = ''immutable'', pq_overwrite = ''keep'', pq_keep = 3, pq_anon = None, pq_create = None\<rparr>"
  have "ns_parts ''team/app'' = Some (''team'', ''app'')" by code_simp
  then have u: "unrowed ''team/app'' ''team'' ''app'' empty_store"
    by (simp add: unrowed_def empty_store_def repo_join_fault_def settings_up_def cache_ok_def repo_by_names_def tfind_None thas_def tempty_def)
  have pm: "ProtectionStringToCode (pq_protection ?req) \<noteq> ProtectionModeUnset"
    by (simp add: ProtectionStringToCode_def policy_code_defs)
  obtain rep s1 where 1: "handleRepoTagPolicy ?rq (Some ?req) empty_store = (rep, s1)" by fastforce
  have "s1 = policy_put ?req ''team/app'' empty_store"
    using 1 TrimSuffix_append[of "''team/app''" "''/tag-policy''"] TrimPrefix_append[of "''/api/repositories/''" "''team/app/tag-policy''"]
    by (simp add: handleRepoTagPolicy_def Let_def blank_request_def)
  then have "\<not> s_fault s1 TUsers" using policy_put_unrowed(4)[OF u pm] by (simp add: empty_store_def)
  then obtain s2 where 2: "migrate 9 (Some ''h'') s1 = (Inr (), s2)" using migrate_ok by blast
  show ?thesis
    using restart_forgets_policy[OF u _ _ pm 1 2] 1 2
    by (simp add: global_or_def setting_of_def empty_store_def)
qed

end
