(* ===== verification/Schema_Rebuild.thy ===== *)
theory Schema_Rebuild
  imports Go_Strings
begin

text \<open>
  The part of \<^verbatim>\<open>migrate\<close> in \<^verbatim>\<open>store.go\<close> that rebuilds whole tables at a start: \<^verbatim>\<open>recycleAndRebuild\<close>
  (three tables that still have the column \<^verbatim>\<open>registry_id\<close>) and \<^verbatim>\<open>rebuildUserTables\<close> (two tables
  without their foreign key). SQLite is modelled as far as these statements use it: a database maps
  the name of a table to the clauses of its definition, its columns and its rows. Every statement
  commits on its own, so that a failure or a crash leaves the effects of those before it.
\<close>

section \<open>Tables and statements\<close>

datatype sqlval = Null | Num int | Text string

type_synonym sqlrow = "string \<Rightarrow> sqlval"

text \<open>The definition of a table as \<^verbatim>\<open>sqlite_master\<close> keeps it, clause by clause, without the name of
  the table and the quotes of default values.\<close>

record dbtable =
  tb_clauses :: "string list"
  tb_cols :: "string list"
  tb_rows :: "sqlrow list"

type_synonym database = "string \<Rightarrow> dbtable option"

text \<open>
  One entry of the loops: the clauses and columns of the new table, the columns the copy reads, what
  it selects, the constraints of the new table and whether a definition still has to be rebuilt.
\<close>

record rebuild =
  rb_name :: string
  rb_clauses :: "string list"
  rb_cols :: "string list"
  rb_reads :: "string list"
  rb_select :: "database \<Rightarrow> sqlrow list \<Rightarrow> sqlrow list"
  rb_notnull :: "string list"
  rb_keys :: "string list list"
  rb_refs :: "(string \<times> string) list"
  rb_indexes :: "string list"
  rb_due :: "string list \<Rightarrow> bool"

definition new_name :: "rebuild \<Rightarrow> string" where
  "new_name rb = rb_name rb @ ''_new''"

datatype stmt = DropIfExists string | CreateNew rebuild | CopyRows rebuild | DropTable string
  | RenameTo string string | CreateIndex string string

definition rows_of :: "string \<Rightarrow> database \<Rightarrow> sqlrow list" where
  "rows_of n db = (case db n of None \<Rightarrow> [] | Some t \<Rightarrow> tb_rows t)"

text \<open>What the constraints of the new table say of its rows.\<close>

definition admitted :: "rebuild \<Rightarrow> database \<Rightarrow> sqlrow list \<Rightarrow> bool" where
  "admitted rb db rs \<longleftrightarrow>
     (\<forall>r \<in> set rs. \<forall>c \<in> set (rb_notnull rb). r c \<noteq> Null) \<and>
     (\<forall>k \<in> set (rb_keys rb). distinct (map (\<lambda>r. map r k) rs)) \<and>
     (\<forall>r \<in> set rs. \<forall>(c, parent) \<in> set (rb_refs rb). r c = Null \<or> (\<exists>q \<in> set (rows_of parent db). q ''id'' = r c))"

text \<open>One statement, None when SQLite reports an error.\<close>

fun exec :: "stmt \<Rightarrow> database \<Rightarrow> database option" where
  "exec (DropIfExists n) db = Some (db(n := None))"
| "exec (CreateNew rb) db =
     (if db (new_name rb) \<noteq> None then None
      else Some (db(new_name rb \<mapsto> \<lparr>tb_clauses = rb_clauses rb, tb_cols = rb_cols rb, tb_rows = []\<rparr>)))"
| "exec (CopyRows rb) db =
     (case (db (rb_name rb), db (new_name rb)) of
        (Some old, Some new) \<Rightarrow>
          (let rs = rb_select rb db (tb_rows old) in
           if set (rb_reads rb) \<subseteq> set (tb_cols old) \<and> admitted rb db (tb_rows new @ rs)
           then Some (db(new_name rb \<mapsto> new\<lparr>tb_rows := tb_rows new @ rs\<rparr>)) else None)
      | _ \<Rightarrow> None)"
| "exec (DropTable n) db = (if db n = None then None else Some (db(n := None)))"
| "exec (RenameTo a b) db = (if db a = None \<or> db b \<noteq> None then None else Some (db(b := db a, a := None)))"
| "exec (CreateIndex i n) db = (if db n = None then None else Some db)"

text \<open>
  Statements one after another until one fails or, after \<open>n\<close> more of them, the process or the disk
  does: whether all were done, how many more could have been, and the database.
\<close>

fun run_stmts :: "nat \<Rightarrow> stmt list \<Rightarrow> database \<Rightarrow> bool \<times> nat \<times> database" where
  "run_stmts n [] db = (True, n, db)"
| "run_stmts 0 (s # ss) db = (False, 0, db)"
| "run_stmts (Suc n) (s # ss) db =
     (case exec s db of None \<Rightarrow> (False, n, db) | Some db1 \<Rightarrow> run_stmts n ss db1)"

definition rebuild_stmts :: "rebuild \<Rightarrow> stmt list" where
  "rebuild_stmts rb =
     [DropIfExists (new_name rb), CreateNew rb, CopyRows rb, DropTable (rb_name rb),
      RenameTo (new_name rb) (rb_name rb)] @ map (\<lambda>i. CreateIndex i (rb_name rb)) (rb_indexes rb)"

text \<open>The body of both loops: a table that is missing or already rebuilt is left alone.\<close>

definition is_due :: "rebuild \<Rightarrow> database \<Rightarrow> bool" where
  "is_due rb db \<longleftrightarrow> (case db (rb_name rb) of None \<Rightarrow> False | Some t \<Rightarrow> rb_due rb (tb_clauses t))"

fun rebuild_tables :: "nat \<Rightarrow> rebuild list \<Rightarrow> database \<Rightarrow> bool \<times> nat \<times> database" where
  "rebuild_tables n [] db = (True, n, db)"
| "rebuild_tables n (rb # rbs) db =
     (case (if is_due rb db then run_stmts n (rebuild_stmts rb) db else (True, n, db)) of
        (True, m, db1) \<Rightarrow> rebuild_tables m rbs db1
      | (False, m, db1) \<Rightarrow> (False, m, db1))"

text \<open>
  Before the loops every table is made if it is missing (\<^verbatim>\<open>CREATE TABLE IF NOT EXISTS\<close>, then
  \<^verbatim>\<open>ADD COLUMN\<close>), with the columns it has today.
\<close>

definition create_missing :: "rebuild list \<Rightarrow> database \<Rightarrow> database" where
  "create_missing rbs db =
     fold (\<lambda>rb db. if db (rb_name rb) = None
        then db(rb_name rb \<mapsto> \<lparr>tb_clauses = rb_clauses rb, tb_cols = rb_cols rb, tb_rows = []\<rparr>) else db) rbs db"

definition start_schema :: "nat \<Rightarrow> rebuild list \<Rightarrow> database \<Rightarrow> bool \<times> nat \<times> database" where
  "start_schema n rbs db = rebuild_tables n rbs (create_missing rbs db)"

section \<open>The five tables\<close>

definition has_clause :: "string \<Rightarrow> string list \<Rightarrow> bool" where
  "has_clause marker cs \<longleftrightarrow> (\<exists>c \<in> set cs. Contains c marker)"

text \<open>\<^verbatim>\<open>SELECT\<close> of some columns, a missing value replaced where the statement says \<^verbatim>\<open>COALESCE\<close>.\<close>

definition select_cols :: "string list \<Rightarrow> (string \<rightharpoonup> sqlval) \<Rightarrow> sqlrow \<Rightarrow> sqlrow" where
  "select_cols cs coalesce r =
     (\<lambda>c. if c \<notin> set cs then Null
          else case coalesce c of Some d \<Rightarrow> if r c = Null then d else r c | None \<Rightarrow> r c)"

definition recycle_cols :: "string list" where
  "recycle_cols = [''id'', ''repo'', ''reference'', ''digest'', ''content_type'', ''manifest_body'', ''status'',
     ''image_id'', ''size'', ''attempts'', ''last_error'', ''deleted_at'', ''restored_at'']"

definition rebuild_recycle :: rebuild where
  "rebuild_recycle =
     \<lparr>rb_name = ''recycle_bin'',
      rb_clauses = [''id INTEGER PRIMARY KEY AUTOINCREMENT'', ''repo TEXT NOT NULL'', ''reference TEXT NOT NULL'',
        ''digest TEXT NOT NULL'', ''content_type TEXT NOT NULL DEFAULT '', ''manifest_body BLOB NOT NULL'',
        ''status TEXT NOT NULL DEFAULT pending_gc'', ''image_id INTEGER REFERENCES images(id) ON DELETE SET NULL'',
        ''size INTEGER NOT NULL DEFAULT 0'', ''attempts INTEGER NOT NULL DEFAULT 0'',
        ''last_error TEXT NOT NULL DEFAULT '', ''deleted_at DATETIME NOT NULL DEFAULT CURRENT_TIMESTAMP'',
        ''restored_at DATETIME DEFAULT NULL'', ''UNIQUE(repo, reference, digest)''],
      rb_cols = recycle_cols, rb_reads = recycle_cols,
      rb_select = (\<lambda>db. map (select_cols recycle_cols [''attempts'' \<mapsto> Num 0, ''last_error'' \<mapsto> Text []])),
      rb_notnull = [''id'', ''repo'', ''reference'', ''digest'', ''content_type'', ''manifest_body'', ''status'',
        ''size'', ''attempts'', ''last_error'', ''deleted_at''],
      rb_keys = [[''id''], [''repo'', ''reference'', ''digest'']], rb_refs = [(''image_id'', ''images'')],
      rb_indexes = [], rb_due = has_clause ''registry_id''\<rparr>"

definition rebuild_descriptions :: rebuild where
  "rebuild_descriptions =
     (let cols = [''repo'', ''description'', ''updated_at''] in
     \<lparr>rb_name = ''repo_descriptions'',
      rb_clauses = [''repo TEXT NOT NULL'', ''description TEXT NOT NULL DEFAULT '',
        ''updated_at DATETIME NOT NULL DEFAULT CURRENT_TIMESTAMP'', ''PRIMARY KEY(repo)''],
      rb_cols = cols, rb_reads = cols, rb_select = (\<lambda>db. map (select_cols cols Map.empty)),
      rb_notnull = cols, rb_keys = [[''repo'']], rb_refs = [], rb_indexes = [], rb_due = has_clause ''registry_id''\<rparr>)"

definition rebuild_stats :: rebuild where
  "rebuild_stats =
     (let cols = [''repo'', ''pull_count'', ''push_count'', ''last_pull_at'', ''last_push_at''] in
     \<lparr>rb_name = ''repo_stats'',
      rb_clauses = [''repo TEXT NOT NULL'', ''pull_count INTEGER NOT NULL DEFAULT 0'',
        ''push_count INTEGER NOT NULL DEFAULT 0'', ''last_pull_at DATETIME DEFAULT NULL'',
        ''last_push_at DATETIME DEFAULT NULL'', ''PRIMARY KEY(repo)''],
      rb_cols = cols, rb_reads = cols, rb_select = (\<lambda>db. map (select_cols cols Map.empty)),
      rb_notnull = [''repo'', ''pull_count'', ''push_count''], rb_keys = [[''repo'']], rb_refs = [],
      rb_indexes = [], rb_due = has_clause ''registry_id''\<rparr>)"

definition recycleAndRebuild :: "rebuild list" where
  "recycleAndRebuild = [rebuild_recycle, rebuild_descriptions, rebuild_stats]"

text \<open>Values in the order of SQLite; \<^verbatim>\<open>MAX\<close> and \<^verbatim>\<open>MIN\<close> skip missing ones.\<close>

fun text_le :: "string \<Rightarrow> string \<Rightarrow> bool" where
  "text_le [] y = True"
| "text_le (a # x) [] = False"
| "text_le (a # x) (b # y) =
     (if a = b then text_le x y else (of_char a :: nat) < of_char b)"

fun val_le :: "sqlval \<Rightarrow> sqlval \<Rightarrow> bool" where
  "val_le Null v = True"
| "val_le (Num a) (Num b) = (a \<le> b)"
| "val_le (Num a) (Text t) = True"
| "val_le (Text s) (Text t) = text_le s t"
| "val_le v w = False"

definition val_max :: "sqlval list \<Rightarrow> sqlval" where
  "val_max vs = foldr (\<lambda>v m. if val_le m v then v else m) vs Null"

definition val_min :: "sqlval list \<Rightarrow> sqlval" where
  "val_min vs = foldr (\<lambda>v m. if v = Null then m else if m = Null \<or> val_le v m then v else m) vs Null"

text \<open>The order is linear, which makes the library's \<open>Max\<close> the specification of the aggregate.\<close>

lemma text_le_refl [simp]: "text_le s s"
  by (induction s) simp_all

lemma text_le_total: "text_le s t \<or> text_le t s"
  by (induction s t rule: text_le.induct) (auto simp: not_less_iff_gr_or_eq)

lemma text_le_antisym: "text_le s t \<Longrightarrow> text_le t s \<Longrightarrow> s = t"
  by (induction s t rule: text_le.induct) (auto split: if_splits elim: text_le.elims)

lemma text_le_trans: "text_le s t \<Longrightarrow> text_le t u \<Longrightarrow> text_le s u"
proof (induction s t arbitrary: u rule: text_le.induct)
  case (3 a x b y)
  then show ?case by (cases u) (auto split: if_splits)
qed auto

instantiation sqlval :: linorder
begin

definition less_eq_sqlval :: "sqlval \<Rightarrow> sqlval \<Rightarrow> bool" where
  "less_eq_sqlval = val_le"

definition less_sqlval :: "sqlval \<Rightarrow> sqlval \<Rightarrow> bool" where
  "less_sqlval v w \<longleftrightarrow> val_le v w \<and> \<not> val_le w v"

instance
proof
  fix u v w :: sqlval
  show "u \<le> u" by (cases u) (simp_all add: less_eq_sqlval_def)
  show "u \<le> v \<Longrightarrow> v \<le> w \<Longrightarrow> u \<le> w"
    by (cases u; cases v; cases w) (auto simp: less_eq_sqlval_def intro: text_le_trans)
  show "u \<le> v \<Longrightarrow> v \<le> u \<Longrightarrow> u = v"
    by (cases u; cases v) (auto simp: less_eq_sqlval_def intro: text_le_antisym)
  show "u \<le> v \<or> v \<le> u" using text_le_total by (cases u; cases v) (auto simp: less_eq_sqlval_def)
  show "u < v \<longleftrightarrow> u \<le> v \<and> \<not> v \<le> u" by (simp add: less_eq_sqlval_def less_sqlval_def)
qed

end

lemma Null_least: "Null \<le> (v :: sqlval)"
  by (simp add: less_eq_sqlval_def)

lemma val_max_Cons: "val_max (v # vs) = max (val_max vs) v"
  by (simp add: val_max_def max_def less_eq_sqlval_def)

lemma val_max_Max: "vs \<noteq> [] \<Longrightarrow> val_max vs = Max (set vs)"
proof (induction vs)
  case (Cons v vs)
  show ?case
  proof (cases "vs = []")
    case True
    have "val_max [] = Null" by (simp add: val_max_def)
    then show ?thesis using True Null_least[of v] by (simp add: val_max_Cons max_absorb2)
  next
    case False
    then have "Max (set (v # vs)) = max v (val_max vs)" using Cons.IH by simp
    then show ?thesis by (simp only: val_max_Cons max.commute)
  qed
qed simp

text \<open>\<open>user_id IN (SELECT id FROM users)\<close>\<close>

definition of_known_user :: "database \<Rightarrow> sqlrow \<Rightarrow> bool" where
  "of_known_user db r \<longleftrightarrow> r ''user_id'' \<noteq> Null \<and> (\<exists>u \<in> set (rows_of ''users'' db). u ''id'' = r ''user_id'')"

text \<open>
  The grouped copy of the permissions: one row for each user and pattern, with a fresh id. The order
  of the groups is left to SQLite and is the argument \<open>order\<close>.
\<close>

type_synonym group_order = "(sqlval \<times> sqlval) list \<Rightarrow> (sqlval \<times> sqlval) list"

definition perm_key :: "sqlrow \<Rightarrow> sqlval \<times> sqlval" where
  "perm_key r = (r ''user_id'', r ''namespace_pattern'')"

definition merged_perm :: "sqlrow list \<Rightarrow> int \<Rightarrow> sqlval \<times> sqlval \<Rightarrow> sqlrow" where
  "merged_perm rs i k =
     (let g = filter (\<lambda>r. perm_key r = k) rs in
      (\<lambda>_. Null)(''id'' := Num i, ''user_id'' := fst k, ''namespace_pattern'' := snd k,
        ''can_read'' := val_max (map (\<lambda>r. r ''can_read'') g),
        ''can_write'' := val_max (map (\<lambda>r. r ''can_write'') g),
        ''created_at'' := val_min (map (\<lambda>r. r ''created_at'') g)))"

definition merge_perms :: "group_order \<Rightarrow> database \<Rightarrow> sqlrow list \<Rightarrow> sqlrow list" where
  "merge_perms order db rows =
     (let rs = filter (of_known_user db) rows; ks = order (remdups (map perm_key rs))
      in map2 (merged_perm rs) [1..int (length ks)] ks)"

definition perm_cols :: "string list" where
  "perm_cols = [''user_id'', ''namespace_pattern'', ''can_read'', ''can_write'', ''created_at'']"

definition rebuild_perms :: "group_order \<Rightarrow> rebuild" where
  "rebuild_perms order =
     \<lparr>rb_name = ''user_permissions'',
      rb_clauses = [''id INTEGER PRIMARY KEY AUTOINCREMENT'',
        ''user_id INTEGER NOT NULL REFERENCES users(id) ON DELETE CASCADE'', ''namespace_pattern TEXT NOT NULL'',
        ''can_read INTEGER NOT NULL DEFAULT 1'', ''can_write INTEGER NOT NULL DEFAULT 0'',
        ''created_at DATETIME NOT NULL DEFAULT CURRENT_TIMESTAMP'', ''UNIQUE(user_id, namespace_pattern)''],
      rb_cols = ''id'' # perm_cols, rb_reads = perm_cols, rb_select = merge_perms order,
      rb_notnull = ''id'' # perm_cols, rb_keys = [[''id''], [''user_id'', ''namespace_pattern'']],
      rb_refs = [(''user_id'', ''users'')], rb_indexes = [''idx_user_permissions_user_id''],
      rb_due = (\<lambda>ddl. \<not> has_clause ''UNIQUE(user_id, namespace_pattern)'' ddl)\<rparr>"

definition token_cols :: "string list" where
  "token_cols = [''id'', ''user_id'', ''name'', ''token_hash'', ''token_prefix'', ''description'', ''expires_at'',
     ''last_used_at'', ''created_at'']"

definition rebuild_tokens :: rebuild where
  "rebuild_tokens =
     \<lparr>rb_name = ''api_tokens'',
      rb_clauses = [''id INTEGER PRIMARY KEY AUTOINCREMENT'',
        ''user_id INTEGER NOT NULL REFERENCES users(id) ON DELETE CASCADE'', ''name TEXT NOT NULL'',
        ''token_hash TEXT NOT NULL'', ''token_prefix TEXT NOT NULL'', ''description TEXT NOT NULL DEFAULT '',
        ''expires_at DATETIME DEFAULT NULL'', ''last_used_at DATETIME DEFAULT NULL'',
        ''created_at DATETIME NOT NULL DEFAULT CURRENT_TIMESTAMP''],
      rb_cols = token_cols, rb_reads = token_cols,
      rb_select = (\<lambda>db rows. map (select_cols token_cols Map.empty) (filter (of_known_user db) rows)),
      rb_notnull = [''id'', ''user_id'', ''name'', ''token_hash'', ''token_prefix'', ''description'', ''created_at''],
      rb_keys = [[''id'']], rb_refs = [(''user_id'', ''users'')],
      rb_indexes = [''idx_api_tokens_user_id'', ''idx_api_tokens_prefix''],
      rb_due = (\<lambda>ddl. \<not> has_clause ''REFERENCES users(id) ON DELETE CASCADE'' ddl)\<rparr>"

definition rebuildUserTables :: "group_order \<Rightarrow> rebuild list" where
  "rebuildUserTables order = [rebuild_perms order, rebuild_tokens]"

text \<open>All the rebuilds of a start in their order.\<close>

definition all_rebuilds :: "group_order \<Rightarrow> rebuild list" where
  "all_rebuilds order = recycleAndRebuild @ rebuildUserTables order"

text \<open>Errors of the loop over the \<^verbatim>\<open>ALTER\<close> statements that are not even logged.\<close>

definition isBenignMigrationError :: "string option \<Rightarrow> bool" where
  "isBenignMigrationError err =
     (case err of None \<Rightarrow> True
      | Some msg \<Rightarrow> list_ex (Contains msg)
          [''duplicate column name'', ''no such column'', ''no such table'', ''already exists''])"

section \<open>One rebuild\<close>

text \<open>What a rebuild is meant to leave behind, computed on the database before it.\<close>

definition rebuilt :: "rebuild \<Rightarrow> database \<Rightarrow> dbtable" where
  "rebuilt rb db =
     \<lparr>tb_clauses = rb_clauses rb, tb_cols = rb_cols rb, tb_rows = rb_select rb db (rows_of (rb_name rb) db)\<rparr>"

definition copies :: "rebuild \<Rightarrow> database \<Rightarrow> bool" where
  "copies rb db \<longleftrightarrow> (case db (rb_name rb) of None \<Rightarrow> False
     | Some t \<Rightarrow> set (rb_reads rb) \<subseteq> set (tb_cols t) \<and> admitted rb db (rb_select rb db (tb_rows t)))"

text \<open>A copy reads, besides its own table, only the tables \<open>ps\<close>.\<close>

definition reads_only :: "string list \<Rightarrow> rebuild \<Rightarrow> bool" where
  "reads_only ps rb \<longleftrightarrow> (\<forall>db db' rs. (\<forall>p \<in> set ps. db' p = db p) \<longrightarrow>
     rb_select rb db' rs = rb_select rb db rs \<and> admitted rb db' rs = admitted rb db rs)"

lemma new_name_neq [simp]: "new_name rb \<noteq> rb_name rb" "rb_name rb \<noteq> new_name rb"
  by (simp_all add: new_name_def)

lemma run_Cons:
  "run_stmts n (s # ss) db = (if n = 0 then (False, 0, db)
     else case exec s db of None \<Rightarrow> (False, n - 1, db) | Some db1 \<Rightarrow> run_stmts (n - 1) ss db1)"
  by (cases n) (auto split: option.split)

lemma run_indexes:
  assumes "db n \<noteq> None"
  shows "run_stmts k (map (\<lambda>i. CreateIndex i n) is) db = (length is \<le> k, k - length is, db)"
  using assms by (induction "is" arbitrary: k) (auto simp: run_Cons simp del: run_stmts.simps(2,3))

text \<open>The four ways a rebuild can end.\<close>

definition untouched :: "rebuild \<Rightarrow> database \<Rightarrow> database \<Rightarrow> bool" where
  "untouched rb db0 db \<longleftrightarrow> db (rb_name rb) = db0 (rb_name rb)"

definition finished :: "rebuild \<Rightarrow> database \<Rightarrow> database \<Rightarrow> bool" where
  "finished rb db0 db \<longleftrightarrow> db (rb_name rb) = Some (rebuilt rb db0) \<and> db (new_name rb) = None"

definition in_gap :: "rebuild \<Rightarrow> database \<Rightarrow> database \<Rightarrow> bool" where
  "in_gap rb db0 db \<longleftrightarrow> db (rb_name rb) = None \<and> db (new_name rb) = Some (rebuilt rb db0)"

lemma run_rebuild:
  assumes "copies rb db" "reads_only ps rb" "rb_name rb \<notin> set ps" "new_name rb \<notin> set ps"
    and "run_stmts n (rebuild_stmts rb) db = (ok, m, db1)"
  shows "(ok \<longrightarrow> finished rb db db1) \<and> (\<not> ok \<longrightarrow> untouched rb db db1 \<or> in_gap rb db db1 \<or> finished rb db db1) \<and>
    (\<forall>x. x \<noteq> rb_name rb \<longrightarrow> x \<noteq> new_name rb \<longrightarrow> db1 x = db x) \<and>
    (5 + length (rb_indexes rb) \<le> n \<longrightarrow> ok \<and> m = n - (5 + length (rb_indexes rb))) \<and>
    (n = 4 \<longrightarrow> \<not> ok \<and> in_gap rb db db1)"
proof -
  let ?n = "rb_name rb" and ?w = "new_name rb"
  obtain old where old: "db ?n = Some old" and reads: "set (rb_reads rb) \<subseteq> set (tb_cols old)"
    and adm: "admitted rb db (rb_select rb db (tb_rows old))"
    using assms(1) by (auto simp: copies_def split: option.splits)
  define d1 where "d1 = db(?w := None)"
  define d2 where "d2 = d1(?w \<mapsto> \<lparr>tb_clauses = rb_clauses rb, tb_cols = rb_cols rb, tb_rows = []\<rparr>)"
  define d3 where "d3 = d2(?w \<mapsto> rebuilt rb db)"
  define d4 where "d4 = d3(?n := None)"
  define d5 where "d5 = d4(?n \<mapsto> rebuilt rb db, ?w := None)"
  have "\<forall>p \<in> set ps. d2 p = db p" using assms(3,4) by (auto simp: d1_def d2_def)
  then have "rb_select rb d2 rs = rb_select rb db rs \<and> admitted rb d2 rs = admitted rb db rs" for rs
    using assms(2) unfolding reads_only_def by blast
  then have e3: "exec (CopyRows rb) d2 = Some d3"
    using old reads adm by (simp add: d3_def d2_def d1_def rebuilt_def rows_of_def)
  have e: "exec (DropIfExists ?w) db = Some d1" "exec (CreateNew rb) d1 = Some d2"
    "exec (DropTable ?n) d3 = Some d4" "exec (RenameTo ?w ?n) d4 = Some d5"
    using old by (simp_all add: d1_def d2_def d3_def d4_def d5_def)
  have i: "run_stmts k (map (\<lambda>i. CreateIndex i ?n) is) d5 = (length is \<le> k, k - length is, d5)" for k "is"
    by (rule run_indexes) (simp add: d5_def)
  have u: "untouched rb db db" "untouched rb db d1" "untouched rb db d2" "untouched rb db d3" "in_gap rb db d4" "finished rb db d5"
    by (simp_all add: untouched_def in_gap_def finished_def d1_def d2_def d3_def d4_def d5_def)
  have f: "x \<noteq> ?n \<Longrightarrow> x \<noteq> ?w \<Longrightarrow> d1 x = db x \<and> d2 x = db x \<and> d3 x = db x \<and> d4 x = db x \<and> d5 x = db x" for x
    by (simp add: d1_def d2_def d3_def d4_def d5_def)
  show ?thesis using assms(5) u f
    by (auto simp: rebuild_stmts_def run_Cons e e3 i simp del: run_stmts.simps(2,3) exec.simps split: if_splits)
qed

section \<open>All of them\<close>

definition independent :: "string list \<Rightarrow> rebuild list \<Rightarrow> bool" where
  "independent ps rbs \<longleftrightarrow> distinct (map rb_name rbs @ map new_name rbs) \<and>
     set ps \<inter> (rb_name ` set rbs \<union> new_name ` set rbs) = {} \<and>
     (\<forall>rb \<in> set rbs. reads_only ps rb \<and> \<not> rb_due rb (rb_clauses rb))"

definition cost :: "rebuild list \<Rightarrow> nat" where
  "cost rbs = sum_list (map (\<lambda>rb. 5 + length (rb_indexes rb)) rbs)"

definition same_inputs :: "string list \<Rightarrow> rebuild \<Rightarrow> database \<Rightarrow> database \<Rightarrow> bool" where
  "same_inputs ps rb db db' \<longleftrightarrow> db' (rb_name rb) = db (rb_name rb) \<and> (\<forall>p \<in> set ps. db' p = db p)"

lemma same_inputs_eqs:
  assumes "same_inputs ps rb db db'" "reads_only ps rb"
  shows "is_due rb db' = is_due rb db" "copies rb db' = copies rb db" "rebuilt rb db' = rebuilt rb db"
    "untouched rb db' d = untouched rb db d" "in_gap rb db' d = in_gap rb db d" "finished rb db' d = finished rb db d"
proof -
  have n: "db' (rb_name rb) = db (rb_name rb)" using assms(1) by (simp add: same_inputs_def)
  have r: "rb_select rb db' rs = rb_select rb db rs \<and> admitted rb db' rs = admitted rb db rs" for rs
    using assms unfolding same_inputs_def reads_only_def by blast
  show "is_due rb db' = is_due rb db" "copies rb db' = copies rb db" "untouched rb db' d = untouched rb db d"
    using n r by (simp_all add: is_due_def copies_def untouched_def split: option.split)
  show e: "rebuilt rb db' = rebuilt rb db" using n r by (simp add: rebuilt_def rows_of_def)
  show "in_gap rb db' d = in_gap rb db d" "finished rb db' d = finished rb db d"
    using e by (simp_all add: in_gap_def finished_def)
qed

text \<open>How one table may stand after a start that began on \<open>db0\<close>.\<close>

definition outcome :: "bool \<Rightarrow> rebuild \<Rightarrow> database \<Rightarrow> database \<Rightarrow> bool" where
  "outcome ok rb db0 db \<longleftrightarrow>
     (if is_due rb db0 then finished rb db0 db \<or> \<not> ok \<and> (untouched rb db0 db \<or> in_gap rb db0 db)
      else db (rb_name rb) = db0 (rb_name rb) \<and> db (new_name rb) = db0 (new_name rb))"

lemma independent_Cons:
  assumes "independent ps (rb # rbs)" "rb' \<in> set rbs"
  shows "rb_name rb' \<noteq> rb_name rb" "rb_name rb' \<noteq> new_name rb" "new_name rb' \<noteq> rb_name rb" "new_name rb' \<noteq> new_name rb"
    "reads_only ps rb'" "reads_only ps rb" "rb_name rb \<notin> set ps" "new_name rb \<notin> set ps" "independent ps rbs"
proof -
  have "rb_name rb \<notin> rb_name ` set rbs" "rb_name rb \<notin> new_name ` set rbs" "new_name rb \<notin> rb_name ` set rbs"
    "new_name rb \<notin> new_name ` set rbs"
    using assms(1) by (auto simp: independent_def)
  then show "rb_name rb' \<noteq> rb_name rb" "rb_name rb' \<noteq> new_name rb" "new_name rb' \<noteq> rb_name rb" "new_name rb' \<noteq> new_name rb"
    using assms(2) by (metis imageI)+
qed (use assms in \<open>auto simp: independent_def\<close>)

lemma tables_outcome:
  assumes "independent ps rbs" "\<forall>rb \<in> set rbs. is_due rb db \<longrightarrow> copies rb db"
    and "rebuild_tables n rbs db = (ok, m, db1)"
  shows "(\<forall>rb \<in> set rbs. outcome ok rb db db1) \<and>
    (\<forall>x. x \<notin> rb_name ` set rbs \<union> new_name ` set rbs \<longrightarrow> db1 x = db x) \<and> (cost rbs \<le> n \<longrightarrow> ok)"
  using assms
proof (induction rbs arbitrary: n db)
  case Nil
  then show ?case by simp
next
  case (Cons rb rbs)
  have ind: "reads_only ps rb" "rb_name rb \<notin> set ps" "new_name rb \<notin> set ps" "independent ps rbs"
    using Cons.prems(1) by (auto simp: independent_def)
  obtain ok1 m1 d where st: "(if is_due rb db then run_stmts n (rebuild_stmts rb) db else (True, n, db)) = (ok1, m1, d)"
    by (cases "if is_due rb db then run_stmts n (rebuild_stmts rb) db else (True, n, db)") auto
  have o: "outcome ok1 rb db d" and fr: "\<And>x. x \<noteq> rb_name rb \<Longrightarrow> x \<noteq> new_name rb \<Longrightarrow> d x = db x"
    and b: "5 + length (rb_indexes rb) \<le> n \<Longrightarrow> ok1 \<and> n - (5 + length (rb_indexes rb)) \<le> m1"
    using run_rebuild[OF _ ind(1-3), of db n ok1 m1 d] st Cons.prems(2)
    by (cases "is_due rb db"; auto simp: outcome_def)+
  have same: "same_inputs ps rb' db d" if "rb' \<in> set rbs" for rb'
    using independent_Cons[OF Cons.prems(1) that] fr unfolding same_inputs_def by metis
  have newsame: "d (new_name rb') = db (new_name rb')" if "rb' \<in> set rbs" for rb'
    using independent_Cons[OF Cons.prems(1) that] fr by metis
  show ?case
  proof (cases ok1)
    case False
    then have "ok = ok1" "db1 = d" using st Cons.prems(3) by (auto split: if_splits)
    moreover have "outcome False rb' db d" if "rb' \<in> set rbs" for rb'
      using same[OF that] newsame[OF that] by (auto simp: outcome_def same_inputs_def untouched_def)
    ultimately show ?thesis using o fr b False by (auto simp: cost_def)
  next
    case True
    then have r: "rebuild_tables m1 rbs d = (ok, m, db1)" using st Cons.prems(3) by (auto split: if_splits)
    have "\<forall>rb' \<in> set rbs. is_due rb' d \<longrightarrow> copies rb' d"
      using Cons.prems(2) same same_inputs_eqs independent_Cons(5)[OF Cons.prems(1)] by (metis list.set_intros(2))
    note IH = Cons.IH[OF ind(4) this r]
    have "outcome ok rb' db db1" if m: "rb' \<in> set rbs" for rb'
    proof -
      have "outcome ok rb' d db1" using IH m by blast
      then show ?thesis
        using same_inputs_eqs[OF same[OF m] independent_Cons(5)[OF Cons.prems(1) m]] newsame[OF m] same[OF m]
        by (cases "is_due rb' db") (simp_all add: outcome_def same_inputs_def)
    qed
    moreover have "db1 (rb_name rb) = d (rb_name rb)" "db1 (new_name rb) = d (new_name rb)"
      using IH Cons.prems(1) by (auto simp: independent_def)
    then have "outcome ok rb db db1" using o True by (auto simp: outcome_def finished_def)
    moreover have "db1 x = db x" if "x \<notin> rb_name ` set (rb # rbs) \<union> new_name ` set (rb # rbs)" for x
      using IH fr that by auto
    moreover have "cost (rb # rbs) \<le> n \<Longrightarrow> ok" using IH b by (auto simp: cost_def)
    ultimately show ?thesis by auto
  qed
qed

definition fresh_table :: "rebuild \<Rightarrow> dbtable" where
  "fresh_table rb = \<lparr>tb_clauses = rb_clauses rb, tb_cols = rb_cols rb, tb_rows = []\<rparr>"

lemma create_missing_other: "x \<notin> rb_name ` set rbs \<Longrightarrow> create_missing rbs db x = db x"
  by (induction rbs arbitrary: db) (auto simp: create_missing_def)

lemma create_missing_at:
  assumes "rb \<in> set rbs" "distinct (map rb_name rbs)"
  shows "create_missing rbs db (rb_name rb) = (case db (rb_name rb) of None \<Rightarrow> Some (fresh_table rb) | Some t \<Rightarrow> Some t)"
  using assms
proof (induction rbs arbitrary: db)
  case (Cons a rbs)
  let ?d = "if db (rb_name a) = None then db(rb_name a \<mapsto> fresh_table a) else db"
  have c: "create_missing (a # rbs) db = create_missing rbs ?d" by (simp add: create_missing_def fresh_table_def)
  show ?case
  proof (cases "rb \<in> set rbs")
    case True
    then have "rb_name rb \<noteq> rb_name a" using Cons.prems(2) by (metis distinct.simps(2) image_eqI list.map(2) list.set_map)
    then have "?d (rb_name rb) = db (rb_name rb)" by simp
    then show ?thesis using Cons.IH[OF True, of ?d] Cons.prems(2) c by simp
  next
    case False
    then have "rb = a" using Cons.prems(1) by simp
    then show ?thesis using c create_missing_other[of "rb_name a" rbs ?d] Cons.prems(2) by (auto split: option.split)
  qed
qed simp

lemma create_missing_id:
  assumes "distinct (map rb_name rbs)" "\<forall>rb \<in> set rbs. db (rb_name rb) \<noteq> None"
  shows "create_missing rbs db = db"
proof -
  have "create_missing rbs db x = db x" for x
    using create_missing_other[of x rbs db] create_missing_at[OF _ assms(1), of _ db] assms(2)
    by (cases "x \<in> rb_name ` set rbs") force+
  then show ?thesis by blast
qed

lemma not_due_fresh: "independent ps rbs \<Longrightarrow> rb \<in> set rbs \<Longrightarrow> db (rb_name rb) = Some t \<Longrightarrow> tb_clauses t = rb_clauses rb \<Longrightarrow> \<not> is_due rb db"
  by (simp add: independent_def is_due_def)

text \<open>
  How a table enters the start after one on \<open>db\<close> that ended in \<open>db1\<close>, once the missing tables have
  been made: still to be rebuilt from the same rows, lost in the gap, done, or never due.
\<close>

definition resumes :: "string list \<Rightarrow> rebuild \<Rightarrow> database \<Rightarrow> database \<Rightarrow> database \<Rightarrow> bool" where
  "resumes ps rb db db1 d \<longleftrightarrow>
     (if is_due rb db then
        same_inputs ps rb db d \<and> db1 (rb_name rb) \<noteq> None \<or>
        in_gap rb db db1 \<and> d (rb_name rb) = Some (fresh_table rb) \<and> d (new_name rb) = Some (rebuilt rb db) \<or>
        db1 (rb_name rb) \<noteq> None \<and> d (rb_name rb) = Some (rebuilt rb db)
      else d (rb_name rb) = db (rb_name rb))"

lemma start_resumes:
  assumes ind: "independent ps rbs" and ex: "\<forall>rb \<in> set rbs. db (rb_name rb) \<noteq> None"
    and cp: "\<forall>rb \<in> set rbs. is_due rb db \<longrightarrow> copies rb db"
    and s1: "rebuild_tables k rbs db = (ok, m, db1)" and m: "rb \<in> set rbs"
  shows "resumes ps rb db db1 (create_missing rbs db1)"
proof -
  let ?d = "create_missing rbs db1"
  have o: "outcome ok rb db db1" using tables_outcome[OF ind cp s1] m by blast
  have dp: "?d p = db p" if "p \<in> set ps" for p
  proof -
    have p: "p \<notin> rb_name ` set rbs \<union> new_name ` set rbs" using that ind by (auto simp: independent_def)
    then have "db1 p = db p" using tables_outcome[OF ind cp s1] by blast
    then show ?thesis using create_missing_other[of p rbs db1] p by simp
  qed
  have new: "?d (new_name rb) = db1 (new_name rb)"
    using create_missing_other[of "new_name rb" rbs db1] ind m by (auto simp: independent_def)
  have at: "?d (rb_name rb) = (case db1 (rb_name rb) of None \<Rightarrow> Some (fresh_table rb) | Some t \<Rightarrow> Some t)"
    using create_missing_at[OF m] ind by (simp add: independent_def)
  obtain t where t: "db (rb_name rb) = Some t" using ex m by blast
  show ?thesis using o at new dp t
    by (cases "is_due rb db") (auto simp: resumes_def outcome_def untouched_def finished_def in_gap_def same_inputs_def)
qed

lemma resumes_due:
  assumes "resumes ps rb db db1 d" "independent ps rbs" "rb \<in> set rbs" "is_due rb d"
  shows "same_inputs ps rb db d \<and> is_due rb db \<or> d (rb_name rb) = db (rb_name rb) \<and> \<not> is_due rb db"
  using assms(1,4) not_due_fresh[OF assms(2,3), of d "fresh_table rb"] not_due_fresh[OF assms(2,3), of d "rebuilt rb db"]
  by (auto simp: resumes_def fresh_table_def rebuilt_def split: if_splits)

lemma resumed_end:
  assumes r: "resumes ps rb db db1 d" and o: "outcome True rb d db2" and ind: "independent ps rbs" and m: "rb \<in> set rbs"
  shows "if \<not> is_due rb db then db2 (rb_name rb) = db (rb_name rb)
    else if db1 (rb_name rb) = None then rows_of (rb_name rb) db2 = [] \<and> db2 (new_name rb) = Some (rebuilt rb db)
    else db2 (rb_name rb) = Some (rebuilt rb db)"
proof -
  have ro: "reads_only ps rb" using ind m by (simp add: independent_def)
  consider (not_due) "\<not> is_due rb db" "d (rb_name rb) = db (rb_name rb)"
    | (again) "is_due rb db" "same_inputs ps rb db d" "db1 (rb_name rb) \<noteq> None"
    | (gap) "is_due rb db" "in_gap rb db db1" "d (rb_name rb) = Some (fresh_table rb)" "d (new_name rb) = Some (rebuilt rb db)"
    | (fin) "is_due rb db" "db1 (rb_name rb) \<noteq> None" "d (rb_name rb) = Some (rebuilt rb db)"
    using r by (auto simp: resumes_def split: if_splits)
  then show ?thesis
  proof cases
    case not_due
    then have "\<not> is_due rb d" by (simp add: is_due_def)
    then show ?thesis using o not_due by (simp add: outcome_def)
  next
    case again
    then show ?thesis using o same_inputs_eqs[OF again(2) ro] by (auto simp: outcome_def finished_def)
  next
    case gap
    then show ?thesis using o not_due_fresh[OF ind m, of d "fresh_table rb"]
      by (auto simp: outcome_def in_gap_def fresh_table_def rows_of_def)
  next
    case fin
    then show ?thesis using o not_due_fresh[OF ind m, of d "rebuilt rb db"] by (auto simp: outcome_def rebuilt_def)
  qed
qed

lemma second_start:
  assumes ind: "independent ps rbs" and ex: "\<forall>rb \<in> set rbs. db (rb_name rb) \<noteq> None"
    and cp: "\<forall>rb \<in> set rbs. is_due rb db \<longrightarrow> copies rb db"
    and s1: "start_schema k rbs db = (ok, m, db1)" and s2: "start_schema n rbs db1 = (ok2, m2, db2)" and n: "cost rbs \<le> n"
  shows "ok2 \<and> (\<forall>rb \<in> set rbs.
    if \<not> is_due rb db then db2 (rb_name rb) = db (rb_name rb)
    else if db1 (rb_name rb) = None then rows_of (rb_name rb) db2 = [] \<and> db2 (new_name rb) = Some (rebuilt rb db)
    else db2 (rb_name rb) = Some (rebuilt rb db))"
proof -
  let ?d = "create_missing rbs db1"
  have "create_missing rbs db = db" using create_missing_id[OF _ ex] ind by (simp add: independent_def)
  then have "rebuild_tables k rbs db = (ok, m, db1)" using s1 by (simp add: start_schema_def)
  note r = start_resumes[OF ind ex cp this]
  have "copies rb ?d" if m: "rb \<in> set rbs" "is_due rb ?d" for rb
  proof -
    have ro: "reads_only ps rb" using ind m(1) by (simp add: independent_def)
    have "d (rb_name rb) = db (rb_name rb) \<Longrightarrow> is_due rb d = is_due rb db" for d by (simp add: is_due_def)
    then have "same_inputs ps rb db ?d" "is_due rb db" using resumes_due[OF r[OF m(1)] ind m] m(2) by blast+
    then show ?thesis using same_inputs_eqs(2)[OF _ ro] cp m(1) by blast
  qed
  moreover have "rebuild_tables n rbs ?d = (ok2, m2, db2)" using s2 by (simp add: start_schema_def)
  ultimately have ok2: "ok2" and o: "\<forall>rb \<in> set rbs. outcome ok2 rb ?d db2"
    using tables_outcome[OF ind] n by blast+
  then show ?thesis using resumed_end[OF r _ ind] by auto
qed

lemma reads_only_plain:
  assumes "\<And>db db' rs. \<forall>p \<in> set ps. db' p = db p \<Longrightarrow> rb_select rb db' rs = rb_select rb db rs"
    and "snd ` set (rb_refs rb) \<subseteq> set ps"
  shows "reads_only ps rb"
proof -
  have "admitted rb db' rs = admitted rb db rs" if "\<forall>p \<in> set ps. db' p = db p" for db db' rs
  proof -
    have "rows_of (snd x) db' = rows_of (snd x) db" if "x \<in> set (rb_refs rb)" for x
    proof -
      have "snd x \<in> set ps" using assms(2) that by blast
      then show ?thesis using \<open>\<forall>p \<in> set ps. db' p = db p\<close> by (simp add: rows_of_def)
    qed
    then show ?thesis by (simp add: admitted_def case_prod_beta)
  qed
  then show ?thesis using assms(1) by (simp add: reads_only_def)
qed

definition parents :: "string list" where
  "parents = [''images'', ''users'']"

lemma known_user_cong: "db' ''users'' = db ''users'' \<Longrightarrow> of_known_user db' = of_known_user db"
  by (simp add: of_known_user_def rows_of_def fun_eq_iff)

lemma all_reads_only: "rb \<in> set (all_rebuilds order) \<Longrightarrow> reads_only parents rb"
proof -
  have k: "of_known_user db' = of_known_user db" if "\<forall>p \<in> set parents. db' p = db p" for db db'
    using known_user_cong[of db' db] that by (simp add: parents_def)
  have r: "snd ` set (rb_refs rb) \<subseteq> set parents" if "rb \<in> set (all_rebuilds order)" for rb
    using that by (auto simp: all_rebuilds_def recycleAndRebuild_def rebuildUserTables_def rebuild_recycle_def
        rebuild_descriptions_def rebuild_stats_def rebuild_perms_def rebuild_tokens_def Let_def parents_def)
  have s: "rb_select rb db' = rb_select rb db"
    if "rb \<in> set (all_rebuilds order)" "of_known_user db' = of_known_user db" for rb db db'
  proof -
    have "merge_perms order db' = merge_perms order db" using that(2) by (intro ext) (simp add: merge_perms_def)
    then show ?thesis using that
      by (auto simp: all_rebuilds_def recycleAndRebuild_def rebuildUserTables_def rebuild_recycle_def
          rebuild_descriptions_def rebuild_stats_def rebuild_perms_def rebuild_tokens_def Let_def)
  qed
  show "rb \<in> set (all_rebuilds order) \<Longrightarrow> reads_only parents rb"
    by (rule reads_only_plain) (use k r s in metis)+
qed

lemma current_not_due:
  "\<not> rb_due rebuild_recycle (rb_clauses rebuild_recycle)"
  "\<not> rb_due rebuild_descriptions (rb_clauses rebuild_descriptions)"
  "\<not> rb_due rebuild_stats (rb_clauses rebuild_stats)"
  "\<not> rb_due rebuild_tokens (rb_clauses rebuild_tokens)"
  "\<not> rb_due (rebuild_perms order) (rb_clauses (rebuild_perms order))"
  by code_simp+

lemma rebuild_names:
  "map rb_name (all_rebuilds order) = [''recycle_bin'', ''repo_descriptions'', ''repo_stats'', ''user_permissions'', ''api_tokens'']"
  by (simp add: all_rebuilds_def recycleAndRebuild_def rebuildUserTables_def rebuild_recycle_def rebuild_descriptions_def
      rebuild_stats_def rebuild_perms_def rebuild_tokens_def Let_def)

lemma new_names: "map new_name rbs = map (\<lambda>n. n @ ''_new'') (map rb_name rbs)"
  by (simp add: new_name_def)

lemma all_independent: "independent parents (all_rebuilds order)"
proof -
  have n: "rb_name ` set (all_rebuilds order) = set [''recycle_bin'', ''repo_descriptions'', ''repo_stats'', ''user_permissions'', ''api_tokens'']"
    using rebuild_names[of order] by (metis list.set_map)
  have w: "new_name ` set (all_rebuilds order) = (\<lambda>n. n @ ''_new'') ` rb_name ` set (all_rebuilds order)"
    by (auto simp: new_name_def)
  have "\<not> rb_due rb (rb_clauses rb)" if "rb \<in> set (all_rebuilds order)" for rb
    using that current_not_due by (auto simp: all_rebuilds_def recycleAndRebuild_def rebuildUserTables_def)
  then show ?thesis using all_reads_only n w
    by (auto simp: independent_def new_names rebuild_names parents_def)
qed

lemma all_cost: "cost (all_rebuilds order) = 28"
  by (simp add: cost_def all_rebuilds_def recycleAndRebuild_def rebuildUserTables_def rebuild_recycle_def
      rebuild_descriptions_def rebuild_stats_def rebuild_perms_def rebuild_tokens_def Let_def)

text \<open>
  C38. Rebuilding tables across a crash: on a database that has the five tables and whose old rows fit
  the new constraints, let a start be cut short after any number of statements by a crash or a
  failing disk, and let the next start run through. Then it succeeds, and every table that had to be
  rebuilt holds exactly its rows in the new layout; the others are as they were. The one exception
  is a start cut between dropping the old table and renaming the new one: the next start makes the
  table afresh and empty, and its rows stay behind in the unused table ending in \<^verbatim>\<open>_new\<close>.
\<close>

theorem start_survives_crash:
  assumes "\<forall>rb \<in> set (all_rebuilds order). db (rb_name rb) \<noteq> None"
    and "\<forall>rb \<in> set (all_rebuilds order). is_due rb db \<longrightarrow> copies rb db"
    and "start_schema k (all_rebuilds order) db = (ok, m, db1)"
    and "start_schema n (all_rebuilds order) db1 = (ok2, m2, db2)" and "28 \<le> n"
  shows "ok2 \<and> (\<forall>rb \<in> set (all_rebuilds order).
    if \<not> is_due rb db then db2 (rb_name rb) = db (rb_name rb)
    else if db1 (rb_name rb) = None then rows_of (rb_name rb) db2 = [] \<and> db2 (new_name rb) = Some (rebuilt rb db)
    else db2 (rb_name rb) = Some (rebuilt rb db))"
  using second_start[OF all_independent assms(1-4)] assms(5) by (simp add: all_cost)

text \<open>A database of the time of several registries: one item in the recycle bin.\<close>

definition old_item :: sqlrow where
  "old_item = (\<lambda>c. if c = ''image_id'' \<or> c = ''restored_at'' then Null else if c = ''id'' then Num 1 else Text c)"

definition old_database :: "string list \<Rightarrow> sqlrow list \<Rightarrow> database" where
  "old_database recycle_clauses items = create_missing (all_rebuilds id)
     [''recycle_bin'' \<mapsto> \<lparr>tb_clauses = recycle_clauses, tb_cols = ''registry_id'' # recycle_cols, tb_rows = items\<rparr>]"

lemma old_tables:
  assumes "rb \<in> set (all_rebuilds id)"
  shows "old_database cs items (rb_name rb) =
    Some (if rb = rebuild_recycle then \<lparr>tb_clauses = cs, tb_cols = ''registry_id'' # recycle_cols, tb_rows = items\<rparr> else fresh_table rb)"
proof -
  have d: "distinct (map rb_name (all_rebuilds id))" by (simp add: rebuild_names)
  have r: "rb_name rebuild_recycle = ''recycle_bin''" "rebuild_recycle \<in> set (all_rebuilds id)"
    by (simp_all add: rebuild_recycle_def all_rebuilds_def recycleAndRebuild_def)
  have "rb_name rb = ''recycle_bin'' \<longleftrightarrow> rb = rebuild_recycle"
    using assms r d by (metis distinct_map inj_on_contraD)
  then show ?thesis using create_missing_at[OF assms d] by (simp add: old_database_def)
qed

lemma old_due: "rb \<in> set (all_rebuilds id) \<Longrightarrow> is_due rb (old_database [''registry_id INTEGER''] items) \<longleftrightarrow> rb = rebuild_recycle"
proof -
  assume m: "rb \<in> set (all_rebuilds id)"
  have "rb_due rebuild_recycle [''registry_id INTEGER'']" by code_simp
  moreover have "\<not> rb_due rb (rb_clauses rb)" using all_independent[of id] m by (simp add: independent_def)
  ultimately show ?thesis using old_tables[OF m] by (simp add: is_due_def fresh_table_def)
qed

lemma old_copies: "copies rebuild_recycle (old_database [''registry_id INTEGER''] [old_item])"
proof -
  have m: "rebuild_recycle \<in> set (all_rebuilds id)" by (simp add: all_rebuilds_def recycleAndRebuild_def)
  have "set (rb_reads rebuild_recycle) \<subseteq> set (''registry_id'' # recycle_cols)" by (auto simp: rebuild_recycle_def)
  moreover have "admitted rebuild_recycle db (rb_select rebuild_recycle db [old_item])" for db
    by (simp add: admitted_def rebuild_recycle_def select_cols_def old_item_def recycle_cols_def)
  ultimately show ?thesis using old_tables[OF m] by (simp add: copies_def)
qed

lemma old_exist: "\<forall>rb \<in> set (all_rebuilds id). old_database cs items (rb_name rb) \<noteq> None"
  using old_tables by simp

lemma crash_in_gap:
  fixes db defines "db \<equiv> old_database [''registry_id INTEGER''] [old_item]"
  assumes "start_schema 4 (all_rebuilds id) db = (ok, m, db1)"
  shows "db1 ''recycle_bin'' = None"
proof -
  have c: "create_missing (all_rebuilds id) db = db"
    using create_missing_id[OF _ old_exist] by (simp add: rebuild_names db_def)
  have a: "all_rebuilds id = rebuild_recycle # tl (all_rebuilds id)" by (simp add: all_rebuilds_def recycleAndRebuild_def)
  then have m: "rebuild_recycle \<in> set (all_rebuilds id)" by (metis list.set_intros(1))
  have due: "is_due rebuild_recycle db" using old_due[OF m] by (simp add: db_def)
  obtain ok1 m1 d where r: "run_stmts 4 (rebuild_stmts rebuild_recycle) db = (ok1, m1, d)"
    by (cases "run_stmts 4 (rebuild_stmts rebuild_recycle) db") auto
  have "rb_name rebuild_recycle \<notin> set parents" "new_name rebuild_recycle \<notin> set parents"
    by (simp_all add: rebuild_recycle_def new_name_def parents_def)
  then have "\<not> ok1 \<and> in_gap rebuild_recycle db d"
    using run_rebuild[OF _ all_reads_only[OF m] _ _ r] old_copies by (simp add: db_def)
  moreover have "db1 = d"
    using assms(2) c r due calculation a rebuild_tables.simps(2)[of 4 rebuild_recycle "tl (all_rebuilds id)" db]
    by (simp add: start_schema_def)
  ultimately show ?thesis by (simp add: in_gap_def rebuild_recycle_def)
qed

theorem start_survives_crash_witness:
  "let (_, _, db1) = start_schema 4 (all_rebuilds id) (old_database [''registry_id INTEGER''] [old_item]);
       (ok, _, db2) = start_schema 28 (all_rebuilds id) db1
   in ok \<and> rows_of ''recycle_bin'' db2 = []"
proof -
  define db where "db = old_database [''registry_id INTEGER''] [old_item]"
  obtain ok m db1 where s1: "start_schema 4 (all_rebuilds id) db = (ok, m, db1)"
    by (cases "start_schema 4 (all_rebuilds id) db") auto
  obtain ok2 m2 db2 where s2: "start_schema 28 (all_rebuilds id) db1 = (ok2, m2, db2)"
    by (cases "start_schema 28 (all_rebuilds id) db1") auto
  have m: "rebuild_recycle \<in> set (all_rebuilds id)" by (simp add: all_rebuilds_def recycleAndRebuild_def)
  have "\<forall>rb \<in> set (all_rebuilds id). is_due rb db \<longrightarrow> copies rb db" using old_due old_copies by (auto simp: db_def)
  from start_survives_crash[OF _ this s1 s2] old_exist
  have "ok2" "db1 ''recycle_bin'' = None \<Longrightarrow> rows_of ''recycle_bin'' db2 = []"
    using m old_due[OF m] by (auto simp: db_def rebuild_recycle_def)
  moreover have "db1 ''recycle_bin'' = None" using crash_in_gap s1 by (simp add: db_def)
  ultimately show ?thesis using s1 s2 by (simp add: db_def)
qed

section \<open>Permissions\<close>

definition order_ok :: "group_order \<Rightarrow> bool" where
  "order_ok order \<longleftrightarrow> (\<forall>ks. distinct ks \<longrightarrow> distinct (order ks) \<and> set (order ks) = set ks)"

text \<open>Rows the old table could hold: flags 0 or 1, nothing missing.\<close>

definition perm_row_ok :: "sqlrow \<Rightarrow> bool" where
  "perm_row_ok r \<longleftrightarrow> r ''can_read'' \<in> {Num 0, Num 1} \<and> r ''can_write'' \<in> {Num 0, Num 1} \<and>
     r ''user_id'' \<noteq> Null \<and> r ''namespace_pattern'' \<noteq> Null \<and> r ''created_at'' \<noteq> Null"

definition granted_to :: "string \<Rightarrow> sqlval \<Rightarrow> sqlval \<Rightarrow> sqlrow list \<Rightarrow> bool" where
  "granted_to flag u p rs \<longleftrightarrow> (\<exists>r \<in> set rs. perm_key r = (u, p) \<and> r flag = Num 1)"

lemma val_max_flags:
  assumes "set vs \<subseteq> {Num 0, Num 1}" "vs \<noteq> []"
  shows "val_max vs = (if Num 1 \<in> set vs then Num 1 else Num 0)"
proof -
  have "set vs = {Num 0} \<or> set vs = {Num 1} \<or> set vs = {Num 0, Num 1}" using assms by (cases vs) auto
  moreover have "max (Num 0) (Num 1) = Num 1" by (simp add: max_def less_eq_sqlval_def)
  ultimately show ?thesis unfolding val_max_Max[OF assms(2)] by (elim disjE) simp_all
qed

lemma val_min_some: "Null \<notin> set vs \<Longrightarrow> vs \<noteq> [] \<Longrightarrow> val_min vs \<noteq> Null"
  by (induction vs) (auto simp: val_min_def)

lemma flag_max:
  assumes "k \<in> perm_key ` set rs" "\<forall>r \<in> set rs. r f \<in> {Num 0, Num 1}"
  shows "val_max (map (\<lambda>r. r f) (filter (\<lambda>r. perm_key r = k) rs)) =
    (if \<exists>r \<in> set rs. perm_key r = k \<and> r f = Num 1 then Num 1 else Num 0)"
proof -
  let ?vs = "map (\<lambda>r. r f) (filter (\<lambda>r. perm_key r = k) rs)"
  have "set ?vs \<subseteq> {Num 0, Num 1}" using assms(2) by auto
  moreover have "?vs \<noteq> []" using assms(1) by (auto simp: filter_empty_conv)
  moreover have "Num 1 \<in> set ?vs \<longleftrightarrow> (\<exists>r \<in> set rs. perm_key r = k \<and> r f = Num 1)"
    by (simp add: image_iff eq_commute[of "Num 1"] conj_assoc Bex_def)
  ultimately show ?thesis using val_max_flags[of ?vs] by presburger
qed

lemma merged_fields:
  assumes "k \<in> perm_key ` set rs" "\<forall>r \<in> set rs. perm_row_ok r"
  shows "perm_key (merged_perm rs i k) = k" "merged_perm rs i k ''id'' = Num i"
    "merged_perm rs i k ''can_read'' = (if \<exists>r \<in> set rs. perm_key r = k \<and> r ''can_read'' = Num 1 then Num 1 else Num 0)"
    "merged_perm rs i k ''can_write'' = (if \<exists>r \<in> set rs. perm_key r = k \<and> r ''can_write'' = Num 1 then Num 1 else Num 0)"
    "\<forall>c \<in> set (''id'' # perm_cols). merged_perm rs i k c \<noteq> Null"
proof -
  define g where "g = filter (\<lambda>r. perm_key r = k) rs"
  have g: "g \<noteq> []" "\<forall>r \<in> set g. perm_row_ok r \<and> perm_key r = k"
    using assms by (auto simp: g_def filter_empty_conv)
  show "perm_key (merged_perm rs i k) = k" "merged_perm rs i k ''id'' = Num i"
    by (simp_all add: perm_key_def merged_perm_def Let_def)
  have r: "merged_perm rs i k ''can_read'' = val_max (map (\<lambda>r. r ''can_read'') g)"
    "merged_perm rs i k ''can_write'' = val_max (map (\<lambda>r. r ''can_write'') g)"
    "merged_perm rs i k ''created_at'' = val_min (map (\<lambda>r. r ''created_at'') g)"
    "merged_perm rs i k ''user_id'' = fst k" "merged_perm rs i k ''namespace_pattern'' = snd k"
    by (simp_all add: merged_perm_def Let_def g_def)
  show cr: "merged_perm rs i k ''can_read'' = (if \<exists>r \<in> set rs. perm_key r = k \<and> r ''can_read'' = Num 1 then Num 1 else Num 0)"
    unfolding r g_def by (rule flag_max[OF assms(1)]) (use assms(2) in \<open>simp add: perm_row_ok_def\<close>)
  show cw: "merged_perm rs i k ''can_write'' = (if \<exists>r \<in> set rs. perm_key r = k \<and> r ''can_write'' = Num 1 then Num 1 else Num 0)"
    unfolding r g_def by (rule flag_max[OF assms(1)]) (use assms(2) in \<open>simp add: perm_row_ok_def\<close>)
  have "merged_perm rs i k ''created_at'' \<noteq> Null"
    unfolding r using g by (intro val_min_some) (auto simp: perm_row_ok_def)
  moreover have "fst k \<noteq> Null \<and> snd k \<noteq> Null" using assms by (auto simp: perm_key_def perm_row_ok_def)
  moreover have "merged_perm rs i k ''id'' \<noteq> Null" by (simp add: merged_perm_def Let_def)
  ultimately show "\<forall>c \<in> set (''id'' # perm_cols). merged_perm rs i k c \<noteq> Null" using cr cw r(4,5) by (simp add: perm_cols_def)
qed

lemma map2_ids: "length is = length ks \<Longrightarrow> map f (map2 h is ks) = map2 (\<lambda>i k. f (h i k)) is ks"
  by (induction "is" ks rule: list_induct2) simp_all

lemma set_map2: "length is = length ks \<Longrightarrow> x \<in> set (map2 h is ks) \<Longrightarrow> \<exists>i k. k \<in> set ks \<and> x = h i k"
  by (induction "is" ks rule: list_induct2) auto

lemma map2_right: "length is = length ks \<Longrightarrow> map2 (\<lambda>i k. f k) is ks = map f ks"
  by (induction "is" ks rule: list_induct2) simp_all

lemma map2_left: "length is = length ks \<Longrightarrow> map2 (\<lambda>i k. f i) is ks = map f is"
  by (induction "is" ks rule: list_induct2) simp_all

text \<open>The merged rows: their keys are the groups in order, their ids count up, and each stands for a group.\<close>

lemma merge_rows:
  fixes rs ks defines "new \<equiv> map2 (merged_perm rs) [1..int (length ks)] ks"
  assumes ok: "\<forall>r \<in> set rs. perm_row_ok r" and ks: "set ks = perm_key ` set rs"
  shows "map perm_key new = ks" "map (\<lambda>r. r ''id'') new = map Num [1..int (length ks)]"
    "r \<in> set new \<Longrightarrow> \<exists>i. perm_key r \<in> perm_key ` set rs \<and> r = merged_perm rs i (perm_key r)"
proof -
  have len: "length [1..int (length ks)] = length ks" by simp
  note mf = merged_fields[OF _ ok]
  have "map perm_key new = map2 (\<lambda>i k. perm_key (merged_perm rs i k)) [1..int (length ks)] ks"
    unfolding new_def by (rule map2_ids[OF len])
  also have "\<dots> = map2 (\<lambda>i k. k) [1..int (length ks)] ks"
  proof (rule list.map_cong0)
    fix x assume "x \<in> set (zip [1..int (length ks)] ks)"
    then have "snd x \<in> perm_key ` set rs" using ks by (metis prod.collapse set_zip_rightD)
    then show "(case x of (i, k) \<Rightarrow> perm_key (merged_perm rs i k)) = (case x of (i, k) \<Rightarrow> k)"
      using mf(1) by (simp add: case_prod_beta)
  qed
  finally show "map perm_key new = ks" using map2_right[OF len, of id] by simp
  have "map (\<lambda>r. r ''id'') new = map2 (\<lambda>i k. merged_perm rs i k ''id'') [1..int (length ks)] ks"
    unfolding new_def by (rule map2_ids[OF len])
  also have "\<dots> = map2 (\<lambda>i k. Num i) [1..int (length ks)] ks"
    by (simp add: merged_perm_def Let_def)
  finally show "map (\<lambda>r. r ''id'') new = map Num [1..int (length ks)]" using map2_left[OF len, of Num] by simp
  assume a: "r \<in> set new"
  from set_map2[OF len a[unfolded new_def]] obtain i k where k: "k \<in> perm_key ` set rs" "r = merged_perm rs i k"
    unfolding ks by (elim exE conjE)
  have "perm_key r = k" unfolding k(2) by (rule mf(1)[OF k(1)])
  then show "\<exists>i. perm_key r \<in> perm_key ` set rs \<and> r = merged_perm rs i (perm_key r)" using k by blast
qed

lemma merge_admitted:
  assumes ok: "\<forall>r \<in> set rs. perm_row_ok r" and ks: "distinct ks" "set ks = perm_key ` set rs"
    and known: "\<forall>r \<in> set rs. of_known_user db r"
  shows "admitted (rebuild_perms order) db (map2 (merged_perm rs) [1..int (length ks)] ks)"
proof -
  let ?new = "map2 (merged_perm rs) [1..int (length ks)] ks"
  note mr = merge_rows[OF ok ks(2)]
  have "\<forall>r \<in> set ?new. \<forall>c \<in> set (''id'' # perm_cols). r c \<noteq> Null"
    using mr(3) merged_fields(5)[OF _ ok] by metis
  moreover have "distinct (map (\<lambda>r. r ''id'') ?new)" unfolding mr(2) by (simp add: distinct_map inj_on_def)
  then have "distinct (map (\<lambda>r. [r ''id'']) ?new)" by (auto simp: distinct_map inj_on_def)
  moreover have "distinct (map perm_key ?new)" using mr(1) ks(1) by simp
  then have "distinct (map (\<lambda>r. [r ''user_id'', r ''namespace_pattern'']) ?new)"
    by (auto simp: distinct_map inj_on_def perm_key_def)
  moreover have "\<exists>q \<in> set (rows_of ''users'' db). q ''id'' = r ''user_id''" if a: "r \<in> set ?new" for r
  proof -
    obtain r0 where "r0 \<in> set rs" "perm_key r0 = perm_key r" using mr(3)[OF a] by (metis imageE)
    then have "of_known_user db r0" "r0 ''user_id'' = r ''user_id''" using known by (simp_all add: perm_key_def)
    then show ?thesis by (simp add: of_known_user_def)
  qed
  ultimately show ?thesis by (simp add: admitted_def rebuild_perms_def)
qed

lemma merge_grants:
  assumes ok: "\<forall>r \<in> set rs. perm_row_ok r" and ks: "set ks = perm_key ` set rs"
    and flag: "flag = ''can_read'' \<or> flag = ''can_write''"
  shows "granted_to flag u p (map2 (merged_perm rs) [1..int (length ks)] ks) = granted_to flag u p rs"
proof -
  let ?new = "map2 (merged_perm rs) [1..int (length ks)] ks"
  note mr = merge_rows[OF ok ks]
  have row: "r flag = Num 1 \<longleftrightarrow> granted_to flag u p rs" if a: "r \<in> set ?new" "perm_key r = (u, p)" for r
  proof -
    obtain i where k: "perm_key r \<in> perm_key ` set rs" "r = merged_perm rs i (perm_key r)" using mr(3)[OF a(1)] by blast
    then show ?thesis using merged_fields(3,4)[OF k(1) ok, of i] flag a(2)
      unfolding granted_to_def by (metis sqlval.inject(1) zero_neq_one)
  qed
  have "(u, p) \<in> set ks" if "granted_to flag u p rs" unfolding ks using that by (force simp: granted_to_def)
  then have "\<exists>r \<in> set ?new. perm_key r = (u, p)" if "granted_to flag u p rs"
    using mr(1) that by (metis (no_types, lifting) imageE list.set_map)
  then show ?thesis using row unfolding granted_to_def by blast
qed

text \<open>
  C39. Rebuilding the permissions takes nothing from anybody and gives nothing: after the copy a
  known user has the read or the write flag on a pattern exactly if one of the old rows gave it, rows
  of users that are gone vanish, and duplicates are merged, so that the copy always fits the new
  constraints and never stops a start.
\<close>

theorem permissions_survive_rebuild:
  assumes "order_ok order" and "\<forall>r \<in> set (rows_of ''user_permissions'' db). perm_row_ok r"
    and "flag = ''can_read'' \<or> flag = ''can_write''"
  shows "admitted (rebuild_perms order) db (tb_rows (rebuilt (rebuild_perms order) db)) \<and>
    (granted_to flag u p (tb_rows (rebuilt (rebuild_perms order) db)) \<longleftrightarrow>
      (\<exists>q \<in> set (rows_of ''users'' db). q ''id'' = u) \<and> granted_to flag u p (rows_of ''user_permissions'' db))"
proof -
  define rs where "rs = filter (of_known_user db) (rows_of ''user_permissions'' db)"
  define ks where "ks = order (remdups (map perm_key rs))"
  have new: "tb_rows (rebuilt (rebuild_perms order) db) = map2 (merged_perm rs) [1..int (length ks)] ks"
    by (simp add: rebuilt_def rebuild_perms_def merge_perms_def Let_def ks_def rs_def)
  have ks: "distinct ks" "set ks = perm_key ` set rs" using assms(1) by (auto simp: order_ok_def ks_def)
  have ok: "\<forall>r \<in> set rs. perm_row_ok r" and known: "\<forall>r \<in> set rs. of_known_user db r"
    using assms(2) by (simp_all add: rs_def)
  have "granted_to flag u p rs \<longleftrightarrow>
      (\<exists>q \<in> set (rows_of ''users'' db). q ''id'' = u) \<and> granted_to flag u p (rows_of ''user_permissions'' db)"
    using assms(2) by (force simp: granted_to_def rs_def of_known_user_def perm_key_def perm_row_ok_def)
  then show ?thesis using merge_admitted[OF ok ks known] merge_grants[OF ok ks(2) assms(3)] new by simp
qed

definition demo_perm :: "int \<Rightarrow> int \<Rightarrow> sqlrow" where
  "demo_perm u w = (\<lambda>_. Text ''t'')(''user_id'' := Num u, ''namespace_pattern'' := Text ''app'', ''can_read'' := Num 1,
     ''can_write'' := Num w)"

definition demo_perms :: database where
  "demo_perms =
     [''users'' \<mapsto> \<lparr>tb_clauses = [], tb_cols = [''id''], tb_rows = [\<lambda>_. Num 1]\<rparr>,
      ''user_permissions'' \<mapsto> \<lparr>tb_clauses = [], tb_cols = perm_cols, tb_rows = [demo_perm 1 0, demo_perm 1 1, demo_perm 2 1]\<rparr>]"

lemma demo_perm_rows:
  "rows_of ''user_permissions'' demo_perms = [demo_perm 1 0, demo_perm 1 1, demo_perm 2 1]"
  "rows_of ''users'' demo_perms = [\<lambda>_. Num 1]"
  "perm_key (demo_perm u w) = (Num u, Text ''app'')" "demo_perm u w ''can_write'' = Num w"
  by (simp_all add: rows_of_def demo_perms_def perm_key_def demo_perm_def)

theorem permissions_survive_rebuild_witness:
  "granted_to ''can_write'' (Num 1) (Text ''app'') (tb_rows (rebuilt (rebuild_perms id) demo_perms)) \<and>
   \<not> granted_to ''can_write'' (Num 2) (Text ''app'') (tb_rows (rebuilt (rebuild_perms id) demo_perms))"
proof -
  have o: "order_ok id" by (simp add: order_ok_def)
  have r: "\<forall>r \<in> set (rows_of ''user_permissions'' demo_perms). perm_row_ok r"
    unfolding demo_perm_rows by (simp add: perm_row_ok_def demo_perm_def)
  show ?thesis
    using permissions_survive_rebuild[OF o r, of "''can_write''"]
    by (simp add: demo_perm_rows granted_to_def)
qed

section \<open>Rows that do not fit\<close>

text \<open>
  When the rows of a table to be rebuilt break the new constraints, no start ever succeeds again: each
  stops at the copy, whatever else it did before, and leaves the table as it was for the next one.
\<close>

definition restarts :: "nat list \<Rightarrow> rebuild list \<Rightarrow> database \<Rightarrow> database" where
  "restarts ks rbs db = fold (\<lambda>k db. snd (snd (start_schema k rbs db))) ks db"

lemma stuck_rebuild:
  assumes "is_due rb db" "\<not> copies rb db" "reads_only ps rb" "rb_name rb \<notin> set ps" "new_name rb \<notin> set ps"
    and "run_stmts n (rebuild_stmts rb) db = (ok, m, db1)"
  shows "\<not> ok \<and> (\<forall>x. x \<noteq> new_name rb \<longrightarrow> db1 x = db x)"
proof -
  let ?w = "new_name rb"
  define d2 where "d2 = db(?w \<mapsto> \<lparr>tb_clauses = rb_clauses rb, tb_cols = rb_cols rb, tb_rows = []\<rparr>)"
  have e: "exec (DropIfExists ?w) db = Some (db(?w := None))" "exec (CreateNew rb) (db(?w := None)) = Some d2"
    by (simp_all add: d2_def)
  have "\<forall>p \<in> set ps. d2 p = db p" using assms(5) by (auto simp: d2_def)
  then have "rb_select rb d2 rs = rb_select rb db rs \<and> admitted rb d2 rs = admitted rb db rs" for rs
    using assms(3) unfolding reads_only_def by blast
  then have "exec (CopyRows rb) d2 = None"
    using assms(1,2) by (auto simp: d2_def is_due_def copies_def Let_def split: option.splits if_splits)
  then show ?thesis using assms(6)
    by (auto simp: rebuild_stmts_def run_Cons e d2_def[symmetric] simp del: run_stmts.simps(2,3) exec.simps split: if_splits)
      (auto simp: d2_def)
qed

lemma rebuild_frame:
  assumes "is_due rb db" "reads_only ps rb" "rb_name rb \<notin> set ps" "new_name rb \<notin> set ps"
    and "run_stmts n (rebuild_stmts rb) db = (ok, m, db1)" "x \<noteq> rb_name rb" "x \<noteq> new_name rb"
  shows "db1 x = db x"
  using run_rebuild[OF _ assms(2-5)] stuck_rebuild[OF assms(1) _ assms(2-5)] assms(6,7) by (cases "copies rb db") blast+

lemma tables_stuck:
  assumes "independent ps rbs" "rb \<in> set rbs" "is_due rb db" "\<not> copies rb db" "rebuild_tables n rbs db = (ok, m, db1)"
  shows "\<not> ok \<and> same_inputs ps rb db db1"
  using assms
proof (induction rbs arbitrary: n db)
  case (Cons a rbs)
  have ind: "reads_only ps a" "rb_name a \<notin> set ps" "new_name a \<notin> set ps" "independent ps rbs"
    using Cons.prems(1) by (auto simp: independent_def)
  obtain ok1 m1 d where st: "(if is_due a db then run_stmts n (rebuild_stmts a) db else (True, n, db)) = (ok1, m1, d)"
    by (cases "if is_due a db then run_stmts n (rebuild_stmts a) db else (True, n, db)") auto
  show ?case
  proof (cases "a = rb")
    case True
    then have "\<not> ok1 \<and> (\<forall>x. x \<noteq> new_name a \<longrightarrow> d x = db x)"
      using stuck_rebuild[OF _ _ ind(1-3), of db n ok1 m1 d] st Cons.prems(3,4) by simp
    moreover have "\<not> ok1 \<Longrightarrow> ok = ok1 \<and> db1 = d" using st Cons.prems(5) by (auto split: if_splits)
    ultimately show ?thesis using True ind(3) by (metis new_name_neq(2) same_inputs_def)
  next
    case False
    then have m: "rb \<in> set rbs" using Cons.prems(2) by simp
    have fr: "d x = db x" if "x \<noteq> rb_name a" "x \<noteq> new_name a" for x
      using rebuild_frame[OF _ ind(1-3), of db n ok1 m1 d x] st that by (auto split: if_splits)
    have s: "same_inputs ps rb db d"
      using independent_Cons[OF Cons.prems(1) m] fr unfolding same_inputs_def by metis
    note e = same_inputs_eqs[OF s independent_Cons(5)[OF Cons.prems(1) m]]
    show ?thesis
    proof (cases ok1)
      case False
      then have "ok = ok1 \<and> db1 = d" using st Cons.prems(5) by (auto split: if_splits)
      then show ?thesis using False s by simp
    next
      case True
      then have "rebuild_tables m1 rbs d = (ok, m, db1)" using st Cons.prems(5) by (auto split: if_splits)
      from Cons.IH[OF ind(4) m _ _ this] s e Cons.prems(3,4) show ?thesis by (simp add: same_inputs_def)
    qed
  qed
qed simp

theorem clash_blocks_every_start:
  assumes "rb \<in> set (all_rebuilds order)" "is_due rb db" "\<not> copies rb db"
  shows "\<not> fst (start_schema n (all_rebuilds order) (restarts ks (all_rebuilds order) db))"
proof -
  let ?rbs = "all_rebuilds order"
  note ind = all_independent[of order]
  have ro: "reads_only parents rb" using ind assms(1) by (simp add: independent_def)
  have step: "\<not> fst (start_schema k ?rbs d) \<and> same_inputs parents rb d (snd (snd (start_schema k ?rbs d)))"
    if a: "is_due rb d" "\<not> copies rb d" for k d
  proof -
    have "d (rb_name rb) \<noteq> None" using a(1) by (auto simp: is_due_def split: option.splits)
    then have "create_missing ?rbs d (rb_name rb) = d (rb_name rb)"
      using create_missing_at[OF assms(1), of d] ind by (auto simp: independent_def)
    moreover have "create_missing ?rbs d p = d p" if "p \<in> set parents" for p
      using create_missing_other[of p ?rbs d] ind that by (auto simp: independent_def)
    ultimately have c: "same_inputs parents rb d (create_missing ?rbs d)" by (simp add: same_inputs_def)
    obtain ok m db1 where r: "rebuild_tables k ?rbs (create_missing ?rbs d) = (ok, m, db1)"
      by (cases "rebuild_tables k ?rbs (create_missing ?rbs d)") auto
    from tables_stuck[OF ind assms(1) _ _ r] a same_inputs_eqs[OF c ro] r c
    show ?thesis by (simp add: start_schema_def same_inputs_def)
  qed
  have "is_due rb (restarts ks ?rbs d) \<and> \<not> copies rb (restarts ks ?rbs d)" if "is_due rb d" "\<not> copies rb d" for d
    using that
  proof (induction ks arbitrary: d)
    case (Cons k ks)
    have "same_inputs parents rb d (snd (snd (start_schema k ?rbs d)))" using step Cons.prems by blast
    from same_inputs_eqs[OF this ro] Cons.IH[of "snd (snd (start_schema k ?rbs d))"] Cons.prems
    show ?case by (simp add: restarts_def)
  qed (simp add: restarts_def)
  then show ?thesis using step assms(2,3) by blast
qed

text \<open>Two registries that held an image of the same name, tag and digest are such a case.\<close>

lemma two_registries_clash:
  "is_due rebuild_recycle (old_database [''registry_id INTEGER''] [old_item, old_item(''id'' := Num 2)]) \<and>
   \<not> copies rebuild_recycle (old_database [''registry_id INTEGER''] [old_item, old_item(''id'' := Num 2)])"
proof -
  have m: "rebuild_recycle \<in> set (all_rebuilds id)" by (simp add: all_rebuilds_def recycleAndRebuild_def)
  have "\<not> admitted rebuild_recycle db (rb_select rebuild_recycle db [old_item, old_item(''id'' := Num 2)])" for db
    by (simp add: admitted_def rebuild_recycle_def select_cols_def old_item_def recycle_cols_def)
  then show ?thesis using old_due[OF m] old_tables[OF m] by (simp add: copies_def)
qed

end
