(* ===== verification/Tls_Certs.thy ===== *)
theory Tls_Certs
  imports Tag_Policy
begin

text \<open>
  \<^verbatim>\<open>tls.go\<close>: the certificate and key an administrator uploads, the restart that makes them take
  effect, and the choice between HTTPS and plain HTTP that \<^verbatim>\<open>main.go\<close> makes at the next start. The
  certificate directory is a map from paths to contents and permissions; what the operating system
  answers to each call that changes it is an argument, so that every such failure is a branch. Parsing and matching of
  certificates (\<^verbatim>\<open>encoding/pem\<close>, \<^verbatim>\<open>crypto/x509\<close>, \<^verbatim>\<open>crypto/tls\<close>) are parameters.
\<close>

section \<open>Replacing a file\<close>

type_synonym files = "string \<rightharpoonup> string \<times> nat"

text \<open>
  What the system answers for a target path: the random part of the temporary name, the number of
  bytes after which writing fails, whether changing the mode, closing, renaming and removing succeed;
  \<open>oa_untemp\<close> is the deferred removal of the temporary file, whose error the code drops.
\<close>

record os_answers =
  oa_mkdir :: bool
  oa_temp :: "string \<Rightarrow> string option"
  oa_write :: "string \<Rightarrow> nat option"
  oa_chmod :: "string \<Rightarrow> bool"
  oa_close :: "string \<Rightarrow> bool"
  oa_rename :: "string \<Rightarrow> bool"
  oa_remove :: "string \<Rightarrow> bool"
  oa_untemp :: "string \<Rightarrow> bool"

definition path_in :: "string \<Rightarrow> string \<Rightarrow> string" where
  "path_in dir name = dir @ ''/'' @ name"

text \<open>\<^verbatim>\<open>os.CreateTemp(dir, ".tmp-*")\<close> creates a file that does not exist yet.\<close>

definition temp_file :: "os_answers \<Rightarrow> string \<Rightarrow> string \<Rightarrow> files \<Rightarrow> string option" where
  "temp_file os dir name fs =
     (case oa_temp os name of
        None \<Rightarrow> None
      | Some rnd \<Rightarrow> (let t = path_in dir (''.tmp-'' @ rnd) in if fs t = None then Some t else None))"

text \<open>
  The states of the directory one after another. After a failure the deferred \<^verbatim>\<open>Remove\<close> comes last:
  it takes the temporary file away or, when it fails too, leaves it as it is. After the rename there
  is nothing left to remove.
\<close>

definition atomicWrite_states ::
    "os_answers \<Rightarrow> string \<Rightarrow> string \<Rightarrow> string \<Rightarrow> nat \<Rightarrow> files \<Rightarrow> bool \<times> files list" where
  "atomicWrite_states os dir name body perm fs =
     (case temp_file os dir name fs of
        None \<Rightarrow> (False, [fs])
      | Some t \<Rightarrow>
          (let created = fs(t \<mapsto> ([], 0x180)); gone = fs(t := None);
               deferred = (if oa_untemp os name then [gone] else []) in
           case oa_write os name of
             Some n \<Rightarrow> (False, [fs, created, fs(t \<mapsto> (take n body, 0x180))] @ deferred)
           | None \<Rightarrow>
               (let written = fs(t \<mapsto> (body, 0x180)); moded = fs(t \<mapsto> (body, perm)) in
                if \<not> oa_chmod os name then (False, [fs, created, written] @ deferred)
                else if \<not> oa_close os name \<or> \<not> oa_rename os name
                then (False, [fs, created, written, moded] @ deferred)
                else (True, [fs, created, written, moded, gone(path_in dir name \<mapsto> (body, perm))]))))"

definition atomicWrite :: "os_answers \<Rightarrow> string \<Rightarrow> string \<Rightarrow> string \<Rightarrow> nat \<Rightarrow> files \<Rightarrow> bool \<times> files" where
  "atomicWrite os dir name body perm fs =
     (case atomicWrite_states os dir name body perm fs of (ok, states) \<Rightarrow> (ok, last states))"

section \<open>Certificates\<close>

record cert_fields =
  cf_subject :: string
  cf_issuer :: string
  cf_notBefore :: int
  cf_notAfter :: int
  cf_dns :: "string list"
  cf_ips :: "string list"

record cert_info = cert_fields +
  ci_expired :: bool

text \<open>\<^verbatim>\<open>pem.Decode\<close>, \<^verbatim>\<open>x509.ParseCertificate\<close>, \<^verbatim>\<open>tls.X509KeyPair\<close> (None when the pair is usable).\<close>

record tls_lib =
  tl_pem :: "string \<rightharpoonup> string"
  tl_x509 :: "string \<Rightarrow> string + cert_fields"
  tl_pair :: "string \<Rightarrow> string \<Rightarrow> string option"

definition parseCertInfo :: "tls_lib \<Rightarrow> int \<Rightarrow> string \<Rightarrow> string + cert_info" where
  "parseCertInfo lib now certPEM =
     (case tl_pem lib certPEM of
        None \<Rightarrow> Inl ''no PEM block found in certificate''
      | Some der \<Rightarrow>
          (case tl_x509 lib der of
             Inl e \<Rightarrow> Inl e
           | Inr c \<Rightarrow> Inr (cert_fields.extend c \<lparr>ci_expired = (now > cf_notAfter c)\<rparr>)))"

definition TLSEnabled :: "store \<Rightarrow> bool \<times> store" where
  "TLSEnabled s = GetSettingBool ''tls_enabled'' False s"

text \<open>\<^verbatim>\<open>tls.LoadX509KeyPair\<close>: the error, None when both files are read and match.\<close>

definition load_pair :: "tls_lib \<Rightarrow> string \<Rightarrow> files \<Rightarrow> string option" where
  "load_pair lib dir fs =
     (case (fs (path_in dir ''cert.pem''), fs (path_in dir ''key.pem'')) of
        (Some (c, _), Some (k, _)) \<Rightarrow> tl_pair lib c k
      | _ \<Rightarrow> Some ''no such file or directory'')"

definition TLSReady :: "tls_lib \<Rightarrow> string \<Rightarrow> files \<Rightarrow> store \<Rightarrow> bool \<times> store" where
  "TLSReady lib dir fs s =
     (case TLSEnabled s of
        (False, s1) \<Rightarrow> (False, s1)
      | (True, s1) \<Rightarrow> (load_pair lib dir fs = None, s1))"

text \<open>What \<^verbatim>\<open>main\<close> serves from its start on.\<close>

datatype listener = ServeTLS | ServePlain

definition start_listener :: "tls_lib \<Rightarrow> string \<Rightarrow> files \<Rightarrow> store \<Rightarrow> listener" where
  "start_listener lib dir fs s =
     (if fst (TLSReady lib dir fs (s\<lparr>s_cache := Map.empty\<rparr>)) then ServeTLS else ServePlain)"

section \<open>Restart\<close>

definition not_admin :: "request \<Rightarrow> bool" where
  "not_admin rq \<longleftrightarrow> (case rq_user rq of None \<Rightarrow> False | Some u \<Rightarrow> \<not> us_admin u)"

text \<open>The third component says whether the timer that requests the restart was started.\<close>

definition handleRestart ::
    "int \<Rightarrow> tls_lib \<Rightarrow> string \<Rightarrow> files \<Rightarrow> request \<Rightarrow> store \<Rightarrow> unit reply \<times> store \<times> bool" where
  "handleRestart now lib dir fs rq s =
     (if rq_method rq \<noteq> ''POST'' then (Fail 405, s, False)
      else if not_admin rq then (Fail 403, s, False)
      else case TLSEnabled s of (on, s1) \<Rightarrow>
        if on \<and> load_pair lib dir fs \<noteq> None then (Fail 400, s1, False)
        else (Reply 200 (), snd (AddAudit now (currentUserID rq) ''system.restart'' [] [] [] ''ok'' [] s1), True))"

text \<open>The timer: a send on a channel of capacity one that never blocks.\<close>

definition request_restart :: "nat \<Rightarrow> nat" where
  "request_restart queued = (if queued < 1 then queued + 1 else queued)"

section \<open>Upload and removal\<close>

definition maxCertUploadBytes :: nat where
  "maxCertUploadBytes = 65536"

text \<open>
  The body of an upload: the files of a multipart form (None when the form does not parse, an error
  for a missing file), or the two strings of a JSON object (None when it does not decode).
\<close>

record cert_body =
  cb_form :: "(string \<Rightarrow> string + string) option"
  cb_json :: "(string \<times> string) option"

definition readFormFile :: "(string \<Rightarrow> string + string) \<Rightarrow> string \<Rightarrow> string + string" where
  "readFormFile form field =
     (case form field of
        Inl e \<Rightarrow> Inl (field @ '' file is required: '' @ e)
      | Inr body \<Rightarrow>
          (let d = take maxCertUploadBytes body in if d = [] then Inl (field @ '' file is empty'') else Inr d))"

definition readCertKey :: "request \<Rightarrow> cert_body \<Rightarrow> string + string \<times> string" where
  "readCertKey rq b =
     (if HasPrefix (rq_header rq ''Content-Type'') ''multipart/form-data'' then
        (case cb_form b of
           None \<Rightarrow> Inl ''invalid multipart form''
         | Some form \<Rightarrow>
             (case readFormFile form ''cert'' of
                Inl e \<Rightarrow> Inl e
              | Inr c \<Rightarrow> (case readFormFile form ''key'' of Inl e \<Rightarrow> Inl e | Inr k \<Rightarrow> Inr (c, k))))
      else case cb_json b of
        None \<Rightarrow> Inl ''invalid request body''
      | Some (c0, k0) \<Rightarrow>
          (let c = TrimSpace c0; k = TrimSpace k0 in
           if c = [] \<or> k = [] then Inl ''both cert and key are required'' else Inr (c, k)))"

datatype cert_view = CertStatus bool "cert_info option" | CertSaved cert_info | CertDeleted

record tls_world =
  tw_files :: files
  tw_store :: store

definition tlsCertStatus :: "int \<Rightarrow> tls_lib \<Rightarrow> string \<Rightarrow> tls_world \<Rightarrow> cert_view reply \<times> tls_world" where
  "tlsCertStatus now lib dir w =
     (case GetSettingBool ''tls_enabled'' False (tw_store w) of (on, s1) \<Rightarrow>
        (Reply 200 (CertStatus on
           (case tw_files w (path_in dir ''cert.pem'') of
              None \<Rightarrow> None
            | Some (c, _) \<Rightarrow> (case parseCertInfo lib now c of Inl _ \<Rightarrow> None | Inr info \<Rightarrow> Some info))),
         w\<lparr>tw_store := s1\<rparr>))"

definition tlsCertUpload ::
    "int \<Rightarrow> os_answers \<Rightarrow> tls_lib \<Rightarrow> string \<Rightarrow> request \<Rightarrow> cert_body \<Rightarrow> tls_world \<Rightarrow> cert_view reply \<times> tls_world" where
  "tlsCertUpload now os lib dir rq b w =
     (if not_admin rq then (Fail 403, w)
      else case readCertKey rq b of
        Inl _ \<Rightarrow> (Fail 400, w)
      | Inr (c, k) \<Rightarrow>
          (if tl_pair lib c k \<noteq> None then (Fail 400, w)
           else case parseCertInfo lib now c of
             Inl _ \<Rightarrow> (Fail 400, w)
           | Inr info \<Rightarrow>
               (if \<not> oa_mkdir os then (Fail 500, w)
                else case atomicWrite os dir ''cert.pem'' c 0x1A4 (tw_files w) of
                  (False, f1) \<Rightarrow> (Fail 500, w\<lparr>tw_files := f1\<rparr>)
                | (True, f1) \<Rightarrow>
                    (case atomicWrite os dir ''key.pem'' k 0x180 f1 of
                       (False, f2) \<Rightarrow> (Fail 500, w\<lparr>tw_files := f2\<rparr>)
                     | (True, f2) \<Rightarrow>
                         (Reply 200 (CertSaved info),
                          w\<lparr>tw_files := f2,
                            tw_store := snd (AddAudit now (currentUserID rq) ''tls.cert.upload'' [] [] [] ''ok''
                              (''subject='' @ cf_subject info) (tw_store w))\<rparr>)))))"

definition remove_file :: "os_answers \<Rightarrow> string \<Rightarrow> string \<Rightarrow> files \<Rightarrow> files" where
  "remove_file os dir name fs = (if oa_remove os name then fs(path_in dir name := None) else fs)"

definition tlsCertDelete :: "int \<Rightarrow> os_answers \<Rightarrow> string \<Rightarrow> request \<Rightarrow> tls_world \<Rightarrow> cert_view reply \<times> tls_world" where
  "tlsCertDelete now os dir rq w =
     (if not_admin rq then (Fail 403, w)
      else let f1 = remove_file os dir ''key.pem'' (remove_file os dir ''cert.pem'' (tw_files w)) in
        case SetSetting ''tls_enabled'' ''false'' (tw_store w) of
          (Inl _, s1) \<Rightarrow> (Fail 500, w\<lparr>tw_files := f1, tw_store := s1\<rparr>)
        | (Inr _, s1) \<Rightarrow>
            (Reply 200 CertDeleted,
             w\<lparr>tw_files := f1,
               tw_store := snd (AddAudit now (currentUserID rq) ''tls.cert.delete'' [] [] [] ''ok'' [] s1)\<rparr>))"

definition handleTLSCert ::
    "int \<Rightarrow> os_answers \<Rightarrow> tls_lib \<Rightarrow> string \<Rightarrow> request \<Rightarrow> cert_body \<Rightarrow> tls_world \<Rightarrow> cert_view reply \<times> tls_world" where
  "handleTLSCert now os lib dir rq b w =
     (if rq_method rq = ''GET'' then tlsCertStatus now lib dir w
      else if rq_method rq = ''POST'' then tlsCertUpload now os lib dir rq b w
      else if rq_method rq = ''DELETE'' then tlsCertDelete now os dir rq w
      else (Fail 405, w))"

section \<open>All or nothing\<close>

text \<open>
  Replacing a file as a service: after success the file has the new contents, after a failure every
  file with a proper name is what it was, and no state in between shows any other file than before
  or after.
\<close>

locale file_replace =
  fixes replace :: "'os \<Rightarrow> string \<Rightarrow> string \<Rightarrow> nat \<Rightarrow> 'fs \<Rightarrow> bool \<times> 'fs list"
    and look :: "'fs \<Rightarrow> string \<Rightarrow> (string \<times> nat) option"
    and proper :: "string \<Rightarrow> bool"
  assumes states: "snd (replace os name body perm fs) \<noteq> []"
    and replaced: "replace os name body perm fs = (True, states) \<Longrightarrow> proper name \<Longrightarrow> proper other \<Longrightarrow>
      look (last states) other = (if other = name then Some (body, perm) else look fs other)"
    and failed: "replace os name body perm fs = (False, states) \<Longrightarrow> proper other \<Longrightarrow>
      look (last states) other = look fs other"
    and between: "state \<in> set (snd (replace os name body perm fs)) \<Longrightarrow> proper name \<Longrightarrow> proper other \<Longrightarrow>
      look state other = look fs other \<or> (other = name \<and> look state other = Some (body, perm))"
begin

text \<open>Two files replaced one after the other: never a torn file, but possibly the first without the second.\<close>

lemma two_replacements:
  assumes "replace os n1 b1 p1 fs = (ok1, s1)" "replace os n2 b2 p2 (last s1) = (ok2, s2)"
    and "proper n1" "proper n2" "n1 \<noteq> n2" "ok1"
  shows "look (last s2) n1 = Some (b1, p1)"
    "look (last s2) n2 = (if ok2 then Some (b2, p2) else look fs n2)"
proof -
  have 1: "look (last s1) n1 = Some (b1, p1)" "look (last s1) n2 = look fs n2"
    using replaced[of os n1 b1 p1 fs s1] assms by auto
  show "look (last s2) n1 = Some (b1, p1)" "look (last s2) n2 = (if ok2 then Some (b2, p2) else look fs n2)"
    using replaced[of os n2 b2 p2 "last s1" s2] failed[of os n2 b2 p2 "last s1" s2] assms 1
    by (cases ok2; simp)+
qed

end

lemma temp_file_other:
  assumes "temp_file os dir name fs = Some t" "\<not> HasPrefix other ''.tmp-''"
  shows "t \<noteq> path_in dir other" "fs t = None"
  using assms by (auto simp: temp_file_def path_in_def HasPrefix_iff Let_def split: option.splits if_splits)

interpretation cert_files: file_replace "\<lambda>os. atomicWrite_states os dir" "\<lambda>fs name. fs (path_in dir name)"
    "\<lambda>name. \<not> HasPrefix name ''.tmp-''" for dir
proof
  fix os name body perm fs states other state
  show "snd (atomicWrite_states os dir name body perm fs) \<noteq> []"
    by (simp add: atomicWrite_states_def Let_def split: option.split)
  show "last states (path_in dir other) = fs (path_in dir other)"
    if "atomicWrite_states os dir name body perm fs = (False, states)" "\<not> HasPrefix other ''.tmp-''"
    using that(1) temp_file_other(1)[OF _ that(2), of os dir name fs]
    by (auto simp: atomicWrite_states_def Let_def split: option.splits if_splits)
  assume p: "\<not> HasPrefix name ''.tmp-''" "\<not> HasPrefix other ''.tmp-''"
  show "last states (path_in dir other) = (if other = name then Some (body, perm) else fs (path_in dir other))"
    if "atomicWrite_states os dir name body perm fs = (True, states)"
    using that temp_file_other(1)[OF _ p(2), of os dir name fs]
    by (auto simp: atomicWrite_states_def Let_def path_in_def split: option.splits if_splits)
  show "state (path_in dir other) = fs (path_in dir other) \<or> other = name \<and> state (path_in dir other) = Some (body, perm)"
    if "state \<in> set (snd (atomicWrite_states os dir name body perm fs))"
    using that temp_file_other(1)[OF _ p(2), of os dir name fs]
    by (auto simp: atomicWrite_states_def Let_def path_in_def split: option.splits if_splits)
qed

section \<open>Properties\<close>

lemma atomicWrite_ok:
  assumes "atomicWrite os dir name body perm fs = (True, f1)" "\<not> HasPrefix name ''.tmp-''"
  shows "f1 = fs(path_in dir name \<mapsto> (body, perm))"
  using assms temp_file_other[OF _ assms(2), of os dir name fs]
  by (auto simp: atomicWrite_def atomicWrite_states_def Let_def fun_upd_idem fun_upd_twist split: option.splits if_splits)

text \<open>What a failed write may leave behind: nothing, or its temporary file with part of the contents.\<close>

definition left_over ::
    "os_answers \<Rightarrow> string \<Rightarrow> string \<Rightarrow> string \<Rightarrow> nat \<Rightarrow> files \<Rightarrow> files \<Rightarrow> bool" where
  "left_over os dir name body perm fs f \<longleftrightarrow> f = fs \<or>
     (\<not> oa_untemp os name \<and> (\<exists>rnd n p. p \<in> {0x180, perm} \<and> fs (path_in dir (''.tmp-'' @ rnd)) = None \<and>
        f = fs(path_in dir (''.tmp-'' @ rnd) \<mapsto> (take n body, p))))"

lemma atomicWrite_failed:
  assumes "atomicWrite os dir name body perm fs = (False, f1)"
  shows "left_over os dir name body perm fs f1"
proof (cases "temp_file os dir name fs")
  case None
  then show ?thesis using assms by (simp add: atomicWrite_def atomicWrite_states_def left_over_def)
next
  case (Some t)
  then obtain rnd where t: "t = path_in dir (''.tmp-'' @ rnd)" "fs t = None"
    by (auto simp: temp_file_def Let_def split: option.splits if_splits)
  have "f1 = fs \<or> (\<not> oa_untemp os name \<and> (\<exists>n p. p \<in> {0x180, perm} \<and> f1 = fs(t \<mapsto> (take n body, p))))"
  proof (cases "oa_untemp os name")
    case True
    then have "f1 = fs(t := None)"
      using assms Some by (auto simp: atomicWrite_def atomicWrite_states_def Let_def split: option.splits if_splits)
    then show ?thesis using t(2) by (simp add: fun_upd_idem)
  next
    case False
    have whole: "take (length body) body = body" by simp
    from False assms Some show ?thesis
      by (auto simp: atomicWrite_def atomicWrite_states_def Let_def split: option.splits if_splits)
        (metis whole)+
  qed
  with t show ?thesis unfolding left_over_def by blast
qed

lemma atomicWrite_failed_other:
  assumes "atomicWrite os dir name body perm fs = (False, f1)" "\<not> HasPrefix other ''.tmp-''"
  shows "f1 (path_in dir other) = fs (path_in dir other)"
  using assms cert_files.failed[of os dir name body perm fs] by (auto simp: atomicWrite_def split: prod.splits)

lemma cert_names: "\<not> HasPrefix ''cert.pem'' ''.tmp-''" "\<not> HasPrefix ''key.pem'' ''.tmp-''"
  "path_in dir ''cert.pem'' \<noteq> path_in dir ''key.pem''"
  by (simp_all add: HasPrefix_def path_in_def)

text \<open>
  C33. An upload answers 200 only for a pair that is usable and now on disk as a whole, the key readable
  by the owner alone; then loading the pair succeeds. Any other answer leaves the store alone, and only
  a 500 touches the directory: it may leave the new certificate beside the old key, and where removing
  the temporary file of the failed write failed as well, that file stays, with the start of the
  certificate or, readable by the owner alone, of the key. No other file changes.
\<close>

theorem cert_upload_outcomes:
  assumes "handleTLSCert now os lib dir rq b w = (rep, w')" "rq_method rq = ''POST''"
  shows "(\<exists>info c k. rep = Reply 200 (CertSaved info) \<and> \<not> not_admin rq \<and> readCertKey rq b = Inr (c, k) \<and>
      tw_files w' = (tw_files w)(path_in dir ''cert.pem'' \<mapsto> (c, 0x1A4), path_in dir ''key.pem'' \<mapsto> (k, 0x180)) \<and>
      load_pair lib dir (tw_files w') = None) \<or>
    (tw_store w' = tw_store w \<and> (\<exists>code. rep = Fail code) \<and>
      (tw_files w' = tw_files w \<or>
       rep = Fail 500 \<and> (\<exists>c k. readCertKey rq b = Inr (c, k) \<and>
         (left_over os dir ''cert.pem'' c 0x1A4 (tw_files w) (tw_files w') \<or>
          left_over os dir ''key.pem'' k 0x180 ((tw_files w)(path_in dir ''cert.pem'' \<mapsto> (c, 0x1A4))) (tw_files w')))))"
proof -
  have run: "tlsCertUpload now os lib dir rq b w = (rep, w')" using assms by (simp add: handleTLSCert_def)
  consider (refused) "w' = w" "\<exists>code. rep = Fail code" | (started) c k info ok1 f1 where "\<not> not_admin rq" "readCertKey rq b = Inr (c, k)"
      "tl_pair lib c k = None" "atomicWrite os dir ''cert.pem'' c 0x1A4 (tw_files w) = (ok1, f1)"
      "\<not> ok1 \<Longrightarrow> rep = Fail 500 \<and> w' = w\<lparr>tw_files := f1\<rparr>"
      "\<And>f2. ok1 \<Longrightarrow> atomicWrite os dir ''key.pem'' k 0x180 f1 = (False, f2) \<Longrightarrow> rep = Fail 500 \<and> w' = w\<lparr>tw_files := f2\<rparr>"
      "\<And>f2. ok1 \<Longrightarrow> atomicWrite os dir ''key.pem'' k 0x180 f1 = (True, f2) \<Longrightarrow>
         rep = Reply 200 (CertSaved info) \<and> tw_files w' = f2"
    using run by (fastforce simp: tlsCertUpload_def split: if_splits sum.splits prod.splits bool.splits)
  then show ?thesis
  proof cases
    case refused
    then show ?thesis by simp
  next
    case started
    show ?thesis
    proof (cases ok1)
      case False
      then have "left_over os dir ''cert.pem'' c 0x1A4 (tw_files w) f1"
        using atomicWrite_failed started(4) by simp
      with started(2) started(5)[OF False] show ?thesis by auto
    next
      case True
      then have f1: "f1 = (tw_files w)(path_in dir ''cert.pem'' \<mapsto> (c, 0x1A4))"
        using atomicWrite_ok[OF _ cert_names(1)] started(4) by simp
      obtain ok2 f2 where two: "atomicWrite os dir ''key.pem'' k 0x180 f1 = (ok2, f2)" by fastforce
      show ?thesis
      proof (cases ok2)
        case True
        with two have "f2 = f1(path_in dir ''key.pem'' \<mapsto> (k, 0x180))"
          using atomicWrite_ok[OF _ cert_names(2)] by simp
        with f1 started(1-3) started(7)[of f2] \<open>ok1\<close> True two cert_names(3)[of dir] show ?thesis
          by (auto simp: load_pair_def)
      next
        case False
        with two have "left_over os dir ''key.pem'' k 0x180 f1 f2" using atomicWrite_failed by simp
        moreover have "rep = Fail 500 \<and> w' = w\<lparr>tw_files := f2\<rparr>" using started(6)[of f2] \<open>ok1\<close> False two by simp
        ultimately show ?thesis using started(2) unfolding f1 by auto
      qed
    qed
  qed
qed

lemma TLSEnabled_value:
  "cache_ok s \<Longrightarrow> settings_up s \<Longrightarrow> fst (TLSEnabled s) = bool_of_setting (setting_of s ''tls_enabled'') False"
  by (simp add: TLSEnabled_def GetSettingBool_value)

lemma start_listener_value:
  assumes "settings_up s"
  shows "start_listener lib dir fs s =
    (if bool_of_setting (setting_of s ''tls_enabled'') False \<and> load_pair lib dir fs = None then ServeTLS else ServePlain)"
proof -
  have "fst (TLSEnabled (s\<lparr>s_cache := Map.empty\<rparr>)) = bool_of_setting (setting_of s ''tls_enabled'') False"
    using assms TLSEnabled_value[of "s\<lparr>s_cache := Map.empty\<rparr>"]
    by (simp add: cache_ok_def settings_up_def setting_of_def)
  then show ?thesis by (auto simp: start_listener_def TLSReady_def split: prod.splits bool.splits)
qed

lemma AddAudit_settings:
  "setting_of (snd (AddAudit now u act repo ref d st detail s)) = setting_of s"
  "settings_up (snd (AddAudit now u act repo ref d st detail s)) = settings_up s"
  by (auto simp: AddAudit_def AddAuditWithImage_def setting_of_def settings_up_def fun_eq_iff Let_def)

text \<open>
  C34. A restart is granted only when it is safe: the timer is started exactly with the answer 200, and
  then the next process serves HTTPS if and only if TLS is switched on; it never falls back to plain
  HTTP against the setting.
\<close>

theorem restart_serves_as_set:
  assumes "handleRestart now lib dir fs rq s = (rep, s', due)" "cache_ok s" "settings_up s"
  shows "(due \<longleftrightarrow> rep = Reply 200 ()) \<and>
    (due \<longrightarrow> start_listener lib dir fs s' = (if fst (TLSEnabled s) then ServeTLS else ServePlain))"
proof -
  obtain on s1 where e: "TLSEnabled s = (on, s1)" by fastforce
  have same: "same_data s s1" using GetSettingBool_same_data[of s "''tls_enabled''" False] e
    unfolding TLSEnabled_def by (metis snd_conv)
  have on: "on = bool_of_setting (setting_of s ''tls_enabled'') False" using TLSEnabled_value[OF assms(2,3)] e by simp
  have "settings_up s1" "setting_of s1 = setting_of s"
    using same assms(3) same_data_setting_of[OF same] same_data_fields[OF same] by (simp_all add: settings_up_def)
  then show ?thesis
    using assms(1) on by (auto simp: handleRestart_def e start_listener_value AddAudit_settings split: if_splits)
qed

text \<open>
  The pair is not replaced as one: when the certificate is written and the key is not, the upload
  answers 500 but has taken the working pair apart. With TLS switched on, every restart is refused from
  then on, and a process that is started again serves plain HTTP.
\<close>

theorem half_upload_downgrades:
  assumes "cache_ok (tw_store w)" "settings_up (tw_store w)" "fst (TLSEnabled (tw_store w))"
    and "rq_method rq = ''POST''" "\<not> not_admin rq" "readCertKey rq b = Inr (c, k)"
    and "tl_pair lib c k = None" "parseCertInfo lib now c = Inr info" "oa_mkdir os"
    and "atomicWrite os dir ''cert.pem'' c 0x1A4 (tw_files w) = (True, f1)"
    and "\<not> fst (atomicWrite os dir ''key.pem'' k 0x180 f1)"
    and "tw_files w (path_in dir ''key.pem'') = Some (k0, m)" "tl_pair lib c k0 = Some e"
    and "handleTLSCert now os lib dir rq b w = (rep, w')"
  shows "rep = Fail 500 \<and> start_listener lib dir (tw_files w') (tw_store w') = ServePlain \<and>
    fst (handleRestart now lib dir (tw_files w') rq (tw_store w')) = Fail 400"
proof -
  obtain f2 where two: "atomicWrite os dir ''key.pem'' k 0x180 f1 = (False, f2)"
    using assms(11) by (cases "atomicWrite os dir ''key.pem'' k 0x180 f1") auto
  have f: "f1 = (tw_files w)(path_in dir ''cert.pem'' \<mapsto> (c, 0x1A4))"
    by (rule atomicWrite_ok[OF assms(10) cert_names(1)])
  have w': "rep = Fail 500" "w' = w\<lparr>tw_files := f2\<rparr>"
    using assms(4-10,14) two by (simp_all add: handleTLSCert_def tlsCertUpload_def)
  have "load_pair lib dir f2 = Some e"
    using assms(12,13) cert_names(3)[of dir] atomicWrite_failed_other[OF two cert_names(1)]
      atomicWrite_failed_other[OF two cert_names(2)] by (simp add: load_pair_def f)
  moreover have "fst (TLSEnabled (tw_store w))" by (rule assms(3))
  ultimately show ?thesis
    using assms(2,4,5) w' by (auto simp: start_listener_value handleRestart_def split: prod.split)
qed

text \<open>A library that accepts a pair of equal strings, a system that fails on one name, TLS switched on.\<close>

definition twin_lib :: tls_lib where
  "twin_lib = \<lparr>tl_pem = Some,
     tl_x509 = (\<lambda>c. Inr \<lparr>cf_subject = c, cf_issuer = c, cf_notBefore = 0, cf_notAfter = 9, cf_dns = [], cf_ips = []\<rparr>),
     tl_pair = (\<lambda>c k. if c = k then None else Some ''mismatch'')\<rparr>"

definition os_without :: "string \<Rightarrow> os_answers" where
  "os_without bad = \<lparr>oa_mkdir = True, oa_temp = (\<lambda>_. Some ''1''), oa_write = (\<lambda>_. None), oa_chmod = (\<lambda>_. True),
     oa_close = (\<lambda>_. True), oa_rename = (\<lambda>name. name \<noteq> bad), oa_remove = (\<lambda>_. True), oa_untemp = (\<lambda>_. True)\<rparr>"

definition tls_store :: store where
  "tls_store = empty_store\<lparr>s_settings := [''tls_enabled'' \<mapsto> ''true'']\<rparr>"

definition pair_world :: tls_world where
  "pair_world = \<lparr>tw_files = [''certs/cert.pem'' \<mapsto> (''a'', 0x1A4), ''certs/key.pem'' \<mapsto> (''a'', 0x180)], tw_store = tls_store\<rparr>"

definition post_cert :: request where
  "post_cert = blank_request\<lparr>rq_method := ''POST''\<rparr>"

definition new_pair :: cert_body where
  "new_pair = \<lparr>cb_form = None, cb_json = Some (''b'', ''b'')\<rparr>"

lemma post_cert_fields: "rq_method post_cert = ''POST''" "\<not> not_admin post_cert" "rq_user post_cert = None"
  "readCertKey post_cert new_pair = Inr (''b'', ''b'')"
  by (simp_all add: post_cert_def blank_request_def not_admin_def readCertKey_def new_pair_def HasPrefix_def
      TrimSpace_def is_space_def)

lemma tls_store_up: "cache_ok tls_store" "settings_up tls_store" "fst (TLSEnabled tls_store)"
proof -
  show "cache_ok tls_store" "settings_up tls_store"
    by (simp_all add: tls_store_def empty_store_def cache_ok_def settings_up_def)
  from TLSEnabled_value[OF this] show "fst (TLSEnabled tls_store)"
    by (simp add: tls_store_def setting_of_def bool_of_setting_def TrimSpace_def is_space_def ToLower_def to_lower_char_def Let_def)
qed

lemma twin_write: "fs (path_in ''certs'' ''.tmp-1'') = None \<Longrightarrow> name \<noteq> bad \<Longrightarrow> \<not> HasPrefix name ''.tmp-'' \<Longrightarrow>
    atomicWrite (os_without bad) ''certs'' name body perm fs = (True, fs(path_in ''certs'' name \<mapsto> (body, perm)))"
  by (auto simp: atomicWrite_def atomicWrite_states_def temp_file_def os_without_def Let_def fun_upd_idem path_in_def)

theorem cert_upload_outcomes_witness:
  "\<exists>info w'. handleTLSCert 5 (os_without []) twin_lib ''certs'' post_cert new_pair pair_world = (Reply 200 (CertSaved info), w') \<and>
     tw_files w' (path_in ''certs'' ''key.pem'') = Some (''b'', 0x180) \<and> load_pair twin_lib ''certs'' (tw_files w') = None"
proof -
  obtain rep w' where run: "handleTLSCert 5 (os_without []) twin_lib ''certs'' post_cert new_pair pair_world = (rep, w')" by fastforce
  have "\<not> (\<exists>code. rep = Fail code)"
    using run by (auto simp: handleTLSCert_def tlsCertUpload_def post_cert_fields twin_lib_def parseCertInfo_def
        twin_write cert_names pair_world_def path_in_def os_without_def[of "[]", THEN arg_cong[where f = oa_mkdir]])
  with cert_upload_outcomes[OF run post_cert_fields(1)] run post_cert_fields(4) show ?thesis by auto
qed

theorem restart_serves_as_set_witness:
  "\<exists>s'. handleRestart 5 twin_lib ''certs'' (tw_files pair_world) post_cert tls_store = (Reply 200 (), s', True) \<and>
     start_listener twin_lib ''certs'' (tw_files pair_world) s' = ServeTLS"
proof -
  obtain rep s' due where run: "handleRestart 5 twin_lib ''certs'' (tw_files pair_world) post_cert tls_store = (rep, s', due)"
    by (metis prod_cases3)
  have "load_pair twin_lib ''certs'' (tw_files pair_world) = None"
    by (simp add: load_pair_def pair_world_def path_in_def twin_lib_def)
  then have "rep = Reply 200 ()"
    using run by (auto simp: handleRestart_def post_cert_fields split: prod.splits)
  with restart_serves_as_set[OF run tls_store_up(1,2)] run tls_store_up(3) show ?thesis by auto
qed

theorem half_upload_downgrades_witness:
  "\<exists>w'. handleTLSCert 5 (os_without ''key.pem'') twin_lib ''certs'' post_cert new_pair pair_world = (Fail 500, w') \<and>
     start_listener twin_lib ''certs'' (tw_files pair_world) (tw_store pair_world) = ServeTLS \<and>
     start_listener twin_lib ''certs'' (tw_files w') (tw_store w') = ServePlain"
proof -
  let ?f1 = "(tw_files pair_world)(path_in ''certs'' ''cert.pem'' \<mapsto> (''b'', 0x1A4))"
  have st: "tw_store pair_world = tls_store" by (simp add: pair_world_def)
  have pair: "tl_pair twin_lib ''b'' ''b'' = None" "tl_pair twin_lib ''b'' ''a'' = Some ''mismatch''" by (simp_all add: twin_lib_def)
  obtain info where info: "parseCertInfo twin_lib 5 ''b'' = Inr info" by (auto simp: parseCertInfo_def twin_lib_def)
  have mk: "oa_mkdir (os_without ''key.pem'')" by (simp add: os_without_def)
  have one: "atomicWrite (os_without ''key.pem'') ''certs'' ''cert.pem'' ''b'' 0x1A4 (tw_files pair_world) = (True, ?f1)"
    by (rule twin_write) (simp_all add: pair_world_def path_in_def HasPrefix_def)
  have two: "\<not> fst (atomicWrite (os_without ''key.pem'') ''certs'' ''key.pem'' ''b'' 0x180 ?f1)"
    by (simp add: atomicWrite_def atomicWrite_states_def temp_file_def os_without_def Let_def split: option.split prod.split)
  have key: "tw_files pair_world (path_in ''certs'' ''key.pem'') = Some (''a'', 0x180)" by (simp add: pair_world_def path_in_def)
  obtain rep w' where run: "handleTLSCert 5 (os_without ''key.pem'') twin_lib ''certs'' post_cert new_pair pair_world = (rep, w')" by fastforce
  have "load_pair twin_lib ''certs'' (tw_files pair_world) = None"
    by (simp add: load_pair_def pair_world_def path_in_def twin_lib_def)
  then have "start_listener twin_lib ''certs'' (tw_files pair_world) tls_store = ServeTLS"
    using TLSEnabled_value[OF tls_store_up(1,2)] tls_store_up(2,3) by (simp add: start_listener_value)
  with half_upload_downgrades[OF tls_store_up[folded st] post_cert_fields(1,2,4) pair(1) info mk one two key pair(2) run] run st
  show ?thesis by auto
qed

end
