(* ===== verification/Startup.thy ===== *)
theory Startup
  imports Auth_Flow Tls_Certs
begin

text \<open>
  How the process comes up: \<^verbatim>\<open>config.go\<close> (the environment into a configuration), the parts of the
  server built from it, and \<^verbatim>\<open>main.go\<close> from the first line to the listener and on through restarts. The
  environment is a function of the names, unset ones give the empty string as \<^verbatim>\<open>os.Getenv\<close> does; the
  URL parser of the library is the argument \<open>parse\<close>, which gives scheme and host.
\<close>

section \<open>Configuration\<close>

record config =
  cf_ServerAddr :: string
  cf_AuthMode :: string
  cf_V2AuthMode :: string
  cf_ExternalURL :: string
  cf_RegistryURL :: string
  cf_RegistryUsername :: string
  cf_RegistryPassword :: string
  cf_RegistryBearerToken :: string
  cf_RegistryTLSSkipVerify :: bool
  cf_EnableDelete :: bool
  cf_AllowWebhookPrivateIP :: bool
  cf_DataDir :: string
  cf_SQLitePath :: string
  cf_UploadDir :: string
  cf_CertDir :: string
  cf_RegistryDataDir :: string
  cf_RegistryConfig :: string

definition getenv :: "(string \<Rightarrow> string) \<Rightarrow> string \<Rightarrow> string \<Rightarrow> string" where
  "getenv env key dflt = (if env key \<noteq> [] then env key else dflt)"

text \<open>\<^verbatim>\<open>strconv.ParseBool\<close>\<close>

definition ParseBool :: "string \<Rightarrow> bool option" where
  "ParseBool s =
     (if s \<in> set [''1'', ''t'', ''T'', ''true'', ''TRUE'', ''True''] then Some True
      else if s \<in> set [''0'', ''f'', ''F'', ''false'', ''FALSE'', ''False''] then Some False
      else None)"

definition getenvBool :: "(string \<Rightarrow> string) \<Rightarrow> string \<Rightarrow> bool \<Rightarrow> bool" where
  "getenvBool env key dflt =
     (let v = TrimSpace (env key) in
      if v = [] then dflt else case ParseBool v of None \<Rightarrow> dflt | Some b \<Rightarrow> b)"

datatype load_error = Bad_registry_url | Bad_external_url

text \<open>The settings that need no check.\<close>

definition env_config :: "(string \<Rightarrow> string) \<Rightarrow> config" where
  "env_config env =
     (let dir = getenv env ''DATA_DIR'' ''./data'' in
      \<lparr>cf_ServerAddr = getenv env ''SERVER_ADDR'' '':8080'',
       cf_AuthMode = ToLower (getenv env ''AUTH_MODE'' ''off''),
       cf_V2AuthMode = ToLower (getenv env ''V2_AUTH_MODE'' ''registry''),
       cf_ExternalURL = [],
       cf_RegistryURL = TrimRight (env ''REGISTRY_URL'') ''/'',
       cf_RegistryUsername = env ''REGISTRY_USERNAME'', cf_RegistryPassword = env ''REGISTRY_PASSWORD'',
       cf_RegistryBearerToken = env ''REGISTRY_BEARER_TOKEN'',
       cf_RegistryTLSSkipVerify = getenvBool env ''REGISTRY_TLS_SKIP_VERIFY'' False,
       cf_EnableDelete = getenvBool env ''ENABLE_DELETE'' True,
       cf_AllowWebhookPrivateIP = getenvBool env ''ALLOW_WEBHOOK_PRIVATE_IP'' False,
       cf_DataDir = dir,
       cf_SQLitePath = getenv env ''SQLITE_PATH'' (dir @ ''/db/registry-ui.db''),
       cf_UploadDir = getenv env ''UPLOAD_DIR'' (dir @ ''/uploads''),
       cf_CertDir = getenv env ''CERT_DIR'' (dir @ ''/certs''),
       cf_RegistryDataDir = getenv env ''REGISTRY_DATA_DIR'' (dir @ ''/registry''),
       cf_RegistryConfig = getenv env ''REGISTRY_CONFIG'' ''/etc/distribution/config.yml''\<rparr>)"

definition Load :: "(string \<Rightarrow> string) \<Rightarrow> (string \<Rightarrow> (string \<times> string) option) \<Rightarrow> config \<times> load_error option" where
  "Load env parse =
     (let cfg = env_config env
      in if cf_RegistryURL cfg \<noteq> [] \<and> parse (cf_RegistryURL cfg) = None then (cfg, Some Bad_registry_url)
         else let cfg1 = cfg\<lparr>cf_ExternalURL := TrimRight (TrimSpace (env ''EXTERNAL_URL'')) ''/''\<rparr> in
           if cf_ExternalURL cfg1 = [] then (cfg1, None)
           else case parse (cf_ExternalURL cfg1) of
             None \<Rightarrow> (cfg1, Some Bad_external_url)
           | Some (scheme, host) \<Rightarrow>
               if (scheme \<noteq> ''http'' \<and> scheme \<noteq> ''https'') \<or> host = [] then (cfg1, Some Bad_external_url)
               else (cfg1, None))"

text \<open>Whether certificates of the registry go unchecked.\<close>

definition RegistryTLSConfig :: "config \<Rightarrow> bool option" where
  "RegistryTLSConfig c = (if \<not> cf_RegistryTLSSkipVerify c then None else Some True)"

definition HasRegistryAuth :: "config \<Rightarrow> bool" where
  "HasRegistryAuth c \<longleftrightarrow> cf_RegistryBearerToken c \<noteq> [] \<or> cf_RegistryUsername c \<noteq> [] \<or> cf_RegistryPassword c \<noteq> []"

section \<open>The server\<close>

text \<open>The key for registry tokens: 32 random bytes, zeros when there are none to be had.\<close>

definition newV2TokenSecret :: "string option \<Rightarrow> string" where
  "newV2TokenSecret rnd = (case rnd of Some b \<Rightarrow> take 32 b | None \<Rightarrow> replicate 32 (CHR 0x00))"

text \<open>What the middlewares get to see of the configuration.\<close>

definition New :: "config \<Rightarrow> string option \<Rightarrow> config \<times> auth_cfg" where
  "New cfg rnd =
     (let cfg1 = cfg\<lparr>cf_RegistryURL := TrimRight (cf_RegistryURL cfg) ''/''\<rparr> in
      (cfg1, \<lparr>ac_mode = cf_AuthMode cfg1, ac_v2mode = cf_V2AuthMode cfg1, ac_external = cf_ExternalURL cfg1,
         ac_secret = newV2TokenSecret rnd\<rparr>))"

definition sqlitePragmaParams :: string where
  "sqlitePragmaParams = ''_pragma=busy_timeout(5000)&_pragma=foreign_keys(1)&_pragma=synchronous(NORMAL)''"

definition sqliteDSN :: "string \<Rightarrow> string" where
  "sqliteDSN path = (if Contains path ''?'' then path @ ''&'' @ sqlitePragmaParams else path @ ''?'' @ sqlitePragmaParams)"

section \<open>The process\<close>

text \<open>
  What \<^verbatim>\<open>main\<close> finds outside: directories that cannot be made, the database (None when it cannot be
  opened or migrated), the certificate files.
\<close>

record surroundings =
  su_mkdir :: "string \<Rightarrow> bool"
  su_open :: "string \<Rightarrow> store option"
  su_files :: files
  su_random :: "string option"

datatype process = Fatal string | Listening listener auth_cfg | Stopped

definition main_start :: "(string \<Rightarrow> string) \<Rightarrow> (string \<Rightarrow> (string \<times> string) option) \<Rightarrow> tls_lib \<Rightarrow> surroundings \<Rightarrow> process" where
  "main_start env parse lib su =
     (case Load env parse of
        (_, Some e) \<Rightarrow> Fatal ''load config''
      | (cfg, None) \<Rightarrow>
          if \<not> list_all (su_mkdir su) [cf_DataDir cfg, cf_UploadDir cfg, cf_CertDir cfg, cf_RegistryDataDir cfg]
          then Fatal ''create data dir''
          else case su_open su (sqliteDSN (cf_SQLitePath cfg)) of
            None \<Rightarrow> Fatal ''open sqlite''
          | Some s \<Rightarrow> Listening (start_listener lib (cf_CertDir cfg) (su_files su) s) (snd (New cfg (su_random su))))"

text \<open>
  Listening goes on until a signal ends it or a granted restart replaces the process: the same binary
  with the same environment starts again in the surroundings of that moment. \<open>Exec\<close> carries whether the
  binary could be found and executed.
\<close>

datatype happening = Signal | Exec bool surroundings

fun main_loop ::
    "(string \<Rightarrow> string) \<Rightarrow> (string \<Rightarrow> (string \<times> string) option) \<Rightarrow> tls_lib \<Rightarrow> process \<Rightarrow> happening list \<Rightarrow> process" where
  "main_loop env parse lib p [] = p"
| "main_loop env parse lib (Listening l ac) (Signal # hs) = Stopped"
| "main_loop env parse lib (Listening l ac) (Exec found su # hs) =
     (if \<not> found then Fatal ''restart'' else main_loop env parse lib (main_start env parse lib su) hs)"
| "main_loop env parse lib (Fatal m) (h # hs) = Fatal m"
| "main_loop env parse lib Stopped (h # hs) = Stopped"

section \<open>What a loaded configuration is\<close>

lemma ToLower_idem [simp]: "ToLower (ToLower s) = ToLower s"
proof -
  have "to_lower_char (to_lower_char c) = to_lower_char c" for c
    by (auto simp: to_lower_char_def Let_def)
  then show ?thesis by (simp add: ToLower_def)
qed

lemma ToLower_Nil [simp]: "ToLower [] = []" "ToLower s = [] \<longleftrightarrow> s = []"
  by (simp_all add: ToLower_def)

lemma TrimRight_idem [simp]: "TrimRight (TrimRight s cs) cs = TrimRight s cs"
  by (simp add: TrimRight_def)

definition config_ok :: "(string \<Rightarrow> (string \<times> string) option) \<Rightarrow> config \<Rightarrow> bool" where
  "config_ok parse c \<longleftrightarrow>
     TrimRight (cf_RegistryURL c) ''/'' = cf_RegistryURL c \<and>
     (cf_RegistryURL c \<noteq> [] \<longrightarrow> parse (cf_RegistryURL c) \<noteq> None) \<and>
     TrimRight (cf_ExternalURL c) ''/'' = cf_ExternalURL c \<and>
     (cf_ExternalURL c \<noteq> [] \<longrightarrow> (\<exists>h. h \<noteq> [] \<and> parse (cf_ExternalURL c) \<in> {Some (''http'', h), Some (''https'', h)})) \<and>
     ToLower (cf_AuthMode c) = cf_AuthMode c \<and> cf_AuthMode c \<noteq> [] \<and>
     ToLower (cf_V2AuthMode c) = cf_V2AuthMode c \<and> cf_V2AuthMode c \<noteq> [] \<and>
     [] \<notin> set [cf_ServerAddr c, cf_DataDir c, cf_SQLitePath c, cf_UploadDir c, cf_CertDir c, cf_RegistryDataDir c,
       cf_RegistryConfig c]"

lemma getenv_some: "dflt \<noteq> [] \<Longrightarrow> getenv env key dflt \<noteq> []"
  by (simp add: getenv_def)

text \<open>Without a complaint of the URL parser the load goes through.\<close>

lemma load_succeeds_iff:
  "snd (Load env parse) = None \<longleftrightarrow>
     (let r = TrimRight (env ''REGISTRY_URL'') ''/''; x = TrimRight (TrimSpace (env ''EXTERNAL_URL'')) ''/'' in
      (r = [] \<or> parse r \<noteq> None) \<and>
      (x = [] \<or> (\<exists>s h. parse x = Some (s, h) \<and> s \<in> {''http'', ''https''} \<and> h \<noteq> [])))"
proof -
  have "cf_RegistryURL (env_config env) = TrimRight (env ''REGISTRY_URL'') ''/''" by (simp add: env_config_def Let_def)
  then show ?thesis by (auto simp: Load_def Let_def split: option.split)
qed

lemma loaded:
  assumes "Load env parse = (cfg, None)"
  shows "cfg = (env_config env)\<lparr>cf_ExternalURL := TrimRight (TrimSpace (env ''EXTERNAL_URL'')) ''/''\<rparr>"
  using assms by (auto simp: Load_def Let_def split: if_splits option.splits)

text \<open>
  C40. Every configuration the process runs with is well-formed: the registry URL parses and has no
  slash at its end, the external URL is empty or an absolute http(s) origin with a host, modes are
  lower case, no path is empty. And authentication is on exactly if \<^verbatim>\<open>AUTH_MODE\<close> spells \<^verbatim>\<open>basic\<close>, in any
  case but without blanks around it: every other value, a misspelt one too, leaves all routes open.
\<close>

theorem load_wellformed:
  assumes "Load env parse = (cfg, None)"
  shows "config_ok parse cfg \<and> fst (New cfg rnd) = cfg \<and>
    (authEnabled (snd (New cfg rnd)) \<longleftrightarrow> EqualFold (env ''AUTH_MODE'') ''basic'')"
proof -
  define r where "r = TrimRight (env ''REGISTRY_URL'') ''/''"
  define x where "x = TrimRight (TrimSpace (env ''EXTERNAL_URL'')) ''/''"
  have f: "cf_RegistryURL cfg = r" "cf_ExternalURL cfg = x" "cf_AuthMode cfg = ToLower (getenv env ''AUTH_MODE'' ''off'')"
    "cf_V2AuthMode cfg = ToLower (getenv env ''V2_AUTH_MODE'' ''registry'')"
    unfolding loaded[OF assms] by (simp_all add: env_config_def Let_def r_def x_def)
  have p: "[] \<notin> set [cf_ServerAddr cfg, cf_DataDir cfg, cf_SQLitePath cfg, cf_UploadDir cfg, cf_CertDir cfg, cf_RegistryDataDir cfg,
       cf_RegistryConfig cfg]"
    unfolding loaded[OF assms] by (simp add: env_config_def Let_def getenv_def)
  have ok: "(r = [] \<or> parse r \<noteq> None) \<and> (x = [] \<or> (\<exists>s h. parse x = Some (s, h) \<and> s \<in> {''http'', ''https''} \<and> h \<noteq> []))"
    using load_succeeds_iff[of env parse] assms by (simp add: r_def x_def Let_def)
  have t: "TrimRight r ''/'' = r" "TrimRight x ''/'' = x" unfolding r_def x_def by simp_all
  have "config_ok parse cfg"
    unfolding config_ok_def f using ok p t by (auto simp: getenv_def)
  moreover have "fst (New cfg rnd) = cfg" using f t by (simp add: New_def Let_def)
  moreover have "ToLower ''basic'' = ''basic''" "ToLower ''off'' = ''off''" by code_simp+
  then have "authEnabled (snd (New cfg rnd)) \<longleftrightarrow> EqualFold (env ''AUTH_MODE'') ''basic''"
    using f by (auto simp: New_def Let_def authEnabled_def getenv_def EqualFold_def)
  ultimately show ?thesis by blast
qed

definition demo_env :: "string \<Rightarrow> string" where
  "demo_env key = (if key = ''AUTH_MODE'' then ''Basic'' else if key = ''REGISTRY_URL'' then ''http://r:5000/'' else [])"

theorem load_wellformed_witness:
  "\<exists>cfg. Load demo_env (\<lambda>u. Some (''http'', ''r:5000'')) = (cfg, None) \<and> cf_RegistryURL cfg = ''http://r:5000'' \<and>
     authEnabled (snd (New cfg None))"
proof -
  obtain cfg e where l: "Load demo_env (\<lambda>u. Some (''http'', ''r:5000'')) = (cfg, e)" by fastforce
  have x: "TrimRight (TrimSpace []) ''/'' = []" "TrimRight ''http://r:5000/'' ''/'' = ''http://r:5000''" by code_simp+
  have env: "demo_env ''REGISTRY_URL'' = ''http://r:5000/''" "demo_env ''EXTERNAL_URL'' = []" by (simp_all add: demo_env_def)
  have e: "e = None" using load_succeeds_iff[of demo_env "\<lambda>u. Some (''http'', ''r:5000'')"] l x env by simp
  then have "cf_RegistryURL cfg = ''http://r:5000''" using loaded[OF l[unfolded e]] x env by (simp add: env_config_def Let_def)
  moreover have "EqualFold (demo_env ''AUTH_MODE'') ''basic''" by code_simp
  ultimately show ?thesis using load_wellformed[of demo_env _ cfg None] l e by blast
qed

section \<open>Restarts\<close>

text \<open>However often the process replaces itself, the modes it runs with stay those of its environment.\<close>

lemma main_start_modes:
  assumes "main_start env parse lib su = Listening l ac"
  shows "ac_mode ac = ToLower (getenv env ''AUTH_MODE'' ''off'') \<and> ac_v2mode ac = ToLower (getenv env ''V2_AUTH_MODE'' ''registry'')"
proof -
  obtain cfg where c: "Load env parse = (cfg, None)" and a: "ac = snd (New cfg (su_random su))"
    using assms by (auto simp: main_start_def split: prod.splits option.splits if_splits)
  then show ?thesis unfolding loaded[OF c] by (simp add: a New_def Let_def loaded[OF c] env_config_def)
qed

lemma restarts_keep_modes:
  assumes "main_loop env parse lib (main_start env parse lib su) hs = Listening l ac"
  shows "ac_mode ac = ToLower (getenv env ''AUTH_MODE'' ''off'') \<and> ac_v2mode ac = ToLower (getenv env ''V2_AUTH_MODE'' ''registry'')"
  using assms
proof (induction hs arbitrary: su)
  case Nil
  then show ?case using main_start_modes by simp
next
  case (Cons h hs)
  then obtain l0 ac0 where m: "main_start env parse lib su = Listening l0 ac0"
    by (cases "main_start env parse lib su") auto
  obtain found su' where "h = Exec found su'" using Cons.prems m by (cases h) auto
  then show ?case using Cons.IH[of su'] Cons.prems m by (auto split: if_splits)
qed

text \<open>What a zero key is worth: without random bytes every process signs with the same key.\<close>

lemma zero_key: "ac_secret (snd (New cfg None)) = replicate 32 (CHR 0x00)"
  by (simp add: New_def Let_def newV2TokenSecret_def)

end
