(* ===== verification/Admin.thy ===== *)
theory Admin
  imports Auth_Flow
begin

text \<open>
  The administration handlers (\<^verbatim>\<open>admin.go\<close>): settings, user accounts with the guards that protect the
  last enabled administrator, permissions, favorites, visit history and the audit log. A
  decoded JSON body is an argument, None when decoding fails; the path value \<^verbatim>\<open>id\<close> or \<^verbatim>\<open>permId\<close> is the
  argument \<open>pv\<close>; the order in which Go iterates over a decoded map is the order of the list.
\<close>

section \<open>Settings\<close>

definition settableSettings :: "string list" where
  "settableSettings =
     [''theme'', ''language'', ''appLogo'', ''appTitle'', ''appSubtitle'', ''pageSize'', ''showAudit'',
      ''tls_enabled'', ''recycleGCDays'', ''protection_mode'', ''overwrite_action'', ''retention_keep_count'',
      ''allow_anonymous_pull'', ''push_create_repo'']"

datatype settings_view = SettingsMap "string \<rightharpoonup> string" | Saved

fun put_settings :: "(string \<times> string) list \<Rightarrow> store \<Rightarrow> settings_view reply \<times> store" where
  "put_settings [] s = (Reply 200 Saved, s)"
| "put_settings ((k, v) # kvs) s =
     (if k \<notin> set settableSettings then (Fail 400, s)
      else case SetSetting k v s of
        (Inl (InvalidSetting _ _), s1) \<Rightarrow> (Fail 400, s1)
      | (Inl _, s1) \<Rightarrow> (Fail 500, s1)
      | (Inr _, s1) \<Rightarrow> put_settings kvs s1)"

definition handleSettings ::
    "request \<Rightarrow> (string \<times> string) list option \<Rightarrow> store \<Rightarrow> settings_view reply \<times> store" where
  "handleSettings rq body s =
     (if rq_method rq = ''GET'' then
        (case Settings s of
           (Inl _, s1) \<Rightarrow> (Fail 500, s1)
         | (Inr m, s1) \<Rightarrow> (Reply 200 (SettingsMap (DefaultSettings ++ m)), s1))
      else if rq_method rq = ''PUT'' then
        (if \<not> requireAdmin rq then (Fail 403, s)
         else case body of None \<Rightarrow> (Fail 400, s) | Some kvs \<Rightarrow> put_settings kvs s)
      else (Fail 405, s))"

section \<open>User accounts\<close>

record user_body =
  ub_name :: string
  ub_pass :: string
  ub_admin :: bool
  ub_enabled :: bool

text \<open>A user as JSON shows it, without the password hash.\<close>

definition shown_user :: "user_row \<Rightarrow> user_row" where
  "shown_user u = u\<lparr>us_hash := []\<rparr>"

datatype admin_view =
  UserList "user_row list"
| UserView user_row
| UserWithPerms user_row "perm_row list"
| PermList "perm_row list"
| AckView

definition is_admin_caller :: "request \<Rightarrow> bool" where
  "is_admin_caller rq \<longleftrightarrow> (case rq_user rq of None \<Rightarrow> False | Some u \<Rightarrow> us_admin u)"

definition fmt_bool :: "bool \<Rightarrow> string" where
  "fmt_bool b = (if b then ''true'' else ''false'')"

definition audited :: "int \<Rightarrow> request \<Rightarrow> string \<Rightarrow> string \<Rightarrow> store \<Rightarrow> store" where
  "audited now rq action detail s = snd (AddAudit now (currentUserID rq) action [] [] [] ''ok'' detail s)"

definition createUser ::
    "int \<Rightarrow> crypto \<Rightarrow> request \<Rightarrow> user_body \<Rightarrow> store \<Rightarrow> admin_view reply \<times> store" where
  "createUser now cr rq b s =
     (let username = TrimSpace (ub_name b) in
      if username = [] then (Fail 400, s)
      else if length (ub_pass b) < 6 then (Fail 400, s)
      else case HashPassword cr (ub_pass b) of
        None \<Rightarrow> (Fail 500, s)
      | Some h \<Rightarrow>
          (case CreateUserWithEnabled now username h (ub_admin b) (ub_enabled b) False s of
             (Inl _, s1) \<Rightarrow> (Fail 400, s1)
           | (Inr u, s1) \<Rightarrow>
               (Reply 201 (UserView (shown_user u)),
                audited now rq ''user.create'' (''user_id='' @ Itoa (us_id u) @ '' username='' @ us_name u @
                  '' isAdmin='' @ fmt_bool (us_admin u)) s1)))"

definition handleAdminUsers ::
    "int \<Rightarrow> crypto \<Rightarrow> request \<Rightarrow> user_body option \<Rightarrow> store \<Rightarrow> admin_view reply \<times> store" where
  "handleAdminUsers now cr rq body s =
     (if \<not> is_admin_caller rq then (Fail 403, s)
      else if rq_method rq = ''GET'' then
        (case ListUsers s of Inl _ \<Rightarrow> (Fail 500, s) | Inr us \<Rightarrow> (Reply 200 (UserList (map shown_user us)), s))
      else if rq_method rq = ''POST'' then
        (case body of None \<Rightarrow> (Fail 400, s) | Some b \<Rightarrow> createUser now cr rq b s)
      else (Fail 405, s))"

text \<open>The guard of the generic update: the status of its refusal.\<close>

definition demotion_guard :: "user_row \<Rightarrow> user_body \<Rightarrow> store \<Rightarrow> int option" where
  "demotion_guard t b s =
     (if us_admin t \<and> us_enabled t \<and> (\<not> ub_admin b \<or> \<not> ub_enabled b) then
        (case CountEnabledAdmins s of
           Inl _ \<Rightarrow> Some 500 | Inr remaining \<Rightarrow> if remaining \<le> 1 then Some 400 else None)
      else None)"

text \<open>The answer once the row has been written, or not.\<close>

definition update_reply ::
    "int \<Rightarrow> request \<Rightarrow> int \<Rightarrow> string \<Rightarrow> unit sres \<Rightarrow> store \<Rightarrow> admin_view reply \<times> store" where
  "update_reply now rq i password res s =
     (case res of
        Inl e \<Rightarrow> (Fail (if e = UniqueViolation then 400 else 500), s)
      | Inr _ \<Rightarrow>
          (case GetUserByID i s of
             Inl _ \<Rightarrow> (Fail 404, s)
           | Inr u \<Rightarrow>
               (Reply 200 (UserView (shown_user u)),
                audited now rq ''user.update'' (''user_id='' @ Itoa (us_id u) @ '' username='' @ us_name u @
                  '' isAdmin='' @ fmt_bool (us_admin u) @ '' enabled='' @ fmt_bool (us_enabled u) @
                  (if password \<noteq> [] then '' password_changed=true'' else [])) s)))"

definition updateUser ::
    "int \<Rightarrow> crypto \<Rightarrow> request \<Rightarrow> int \<Rightarrow> user_body \<Rightarrow> store \<Rightarrow> admin_view reply \<times> store" where
  "updateUser now cr rq i b s =
     (let username = TrimSpace (ub_name b) in
      if username = [] then (Fail 400, s)
      else if ub_pass b \<noteq> [] \<and> length (ub_pass b) < 6 then (Fail 400, s)
      else case GetUserByID i s of
        Inl _ \<Rightarrow> (Fail 404, s)
      | Inr t \<Rightarrow>
          (case demotion_guard t b s of
             Some status \<Rightarrow> (Fail status, s)
           | None \<Rightarrow>
               (case UpdateUser now (cr_bcrypt cr) i username (ub_pass b) (ub_admin b) (ub_enabled b) s of
                  (res, s1) \<Rightarrow> update_reply now rq i (ub_pass b) res s1)))"

text \<open>A failed count is read as zero, so deleting and disabling refuse then.\<close>

definition remaining_admins :: "store \<Rightarrow> int" where
  "remaining_admins s = (case CountEnabledAdmins s of Inl _ \<Rightarrow> 0 | Inr n \<Rightarrow> n)"

text \<open>Deleting a user: the status the guards refuse it with, and what is done past them.\<close>

definition delete_guard :: "request \<Rightarrow> int \<Rightarrow> store \<Rightarrow> int option" where
  "delete_guard rq i s =
     (if (case rq_user rq of None \<Rightarrow> False | Some cur \<Rightarrow> us_id cur = i) then Some 400
      else case GetUserByID i s of
        Inl _ \<Rightarrow> Some 404
      | Inr t \<Rightarrow> if us_admin t \<and> remaining_admins s \<le> 1 then Some 400 else None)"

definition delete_effect :: "int \<Rightarrow> request \<Rightarrow> int \<Rightarrow> store \<Rightarrow> admin_view reply \<times> store" where
  "delete_effect now rq i s =
     (case DeleteUser i s of
        (Inl _, s1) \<Rightarrow> (Fail 500, s1)
      | (Inr _, s1) \<Rightarrow> (Reply 200 AckView, audited now rq ''user.delete'' (''user_id='' @ Itoa i) s1))"

definition deleteUser :: "int \<Rightarrow> request \<Rightarrow> int \<Rightarrow> store \<Rightarrow> admin_view reply \<times> store" where
  "deleteUser now rq i s =
     (case delete_guard rq i s of Some status \<Rightarrow> (Fail status, s) | None \<Rightarrow> delete_effect now rq i s)"

definition getUserWithPerms :: "int \<Rightarrow> store \<Rightarrow> admin_view reply" where
  "getUserWithPerms i s =
     (case GetUserByID i s of
        Inl _ \<Rightarrow> Fail 404
      | Inr u \<Rightarrow> (case ListUserPermissions i s of
          Inl _ \<Rightarrow> Fail 500 | Inr perms \<Rightarrow> Reply 200 (UserWithPerms (shown_user u) perms)))"

definition handleAdminUserByID ::
    "int \<Rightarrow> crypto \<Rightarrow> request \<Rightarrow> user_body option \<Rightarrow> store \<Rightarrow> admin_view reply \<times> store" where
  "handleAdminUserByID now cr rq body s =
     (if \<not> is_admin_caller rq then (Fail 403, s)
      else case parseID (TrimPrefix (rq_path rq) ''/api/admin/users/'') of
        None \<Rightarrow> (Fail 404, s)
      | Some i \<Rightarrow>
          if rq_method rq = ''GET'' then (getUserWithPerms i s, s)
          else if rq_method rq = ''PUT'' then
            (case body of None \<Rightarrow> (Fail 400, s) | Some b \<Rightarrow> updateUser now cr rq i b s)
          else if rq_method rq = ''DELETE'' then deleteUser now rq i s
          else (Fail 405, s))"

definition setUserEnabled ::
    "int \<Rightarrow> request \<Rightarrow> string \<Rightarrow> bool \<Rightarrow> store \<Rightarrow> admin_view reply \<times> store" where
  "setUserEnabled now rq pv enabled s =
     (if rq_method rq \<noteq> ''POST'' then (Fail 405, s)
      else case rq_user rq of
        None \<Rightarrow> (Fail 403, s)
      | Some caller \<Rightarrow>
          if \<not> us_admin caller then (Fail 403, s)
          else case parseID pv of
            None \<Rightarrow> (Fail 404, s)
          | Some i \<Rightarrow>
              if us_id caller = i then (Fail 400, s)
              else case GetUserByID i s of
                Inl _ \<Rightarrow> (Fail 404, s)
              | Inr t \<Rightarrow>
                  if \<not> enabled \<and> us_admin t \<and> remaining_admins s \<le> 1 then (Fail 400, s)
                  else (case SetUserEnabled now i enabled s of
                     (Inl _, s1) \<Rightarrow> (Fail 500, s1)
                   | (Inr _, s1) \<Rightarrow>
                       (let s2 = audited now rq (if enabled then ''user.enable'' else ''user.disable'')
                              (''user_id='' @ Itoa i @ '' enabled='' @ fmt_bool enabled) s1
                        in case GetUserByID i s2 of
                             Inl _ \<Rightarrow> (Fail 500, s2) | Inr u \<Rightarrow> (Reply 200 (UserView (shown_user u)), s2))))"

definition handleAdminUserDisable :: "int \<Rightarrow> request \<Rightarrow> string \<Rightarrow> store \<Rightarrow> admin_view reply \<times> store" where
  "handleAdminUserDisable now rq pv s = setUserEnabled now rq pv False s"

definition handleAdminUserEnable :: "int \<Rightarrow> request \<Rightarrow> string \<Rightarrow> store \<Rightarrow> admin_view reply \<times> store" where
  "handleAdminUserEnable now rq pv s = setUserEnabled now rq pv True s"

section \<open>Permissions\<close>

record perm_body =
  pb_patterns :: "string list"
  pb_pattern :: string
  pb_read :: bool
  pb_write :: bool

definition perm_zero :: perm_row where
  "perm_zero = \<lparr>pm_id = 0, pm_user = 0, pm_pattern = [], pm_read = False, pm_write = False, pm_created = 0\<rparr>"

text \<open>The rows saved; \<open>rowid\<close> is the row the connection inserted last, which the upsert reports.\<close>

fun save_perms ::
    "int \<Rightarrow> request \<Rightarrow> (store \<Rightarrow> int) \<Rightarrow> int \<Rightarrow> bool \<Rightarrow> bool \<Rightarrow> string list \<Rightarrow> store \<Rightarrow> perm_row list \<times> store" where
  "save_perms now rq rowid uid rd wr [] s = ([], s)"
| "save_perms now rq rowid uid rd wr (pat # pats) s =
     (case UpsertUserPermission now (rowid s)
          (perm_zero\<lparr>pm_user := uid, pm_pattern := pat, pm_read := rd, pm_write := wr\<rparr>) s of
        (Inl _, s1) \<Rightarrow> save_perms now rq rowid uid rd wr pats s1
      | (Inr p, s1) \<Rightarrow>
          (case save_perms now rq rowid uid rd wr pats (audited now rq ''user.permission.set''
                 (''target_user_id='' @ Itoa uid @ '' pattern='' @ pm_pattern p @ '' can_read='' @
                  fmt_bool (pm_read p) @ '' can_write='' @ fmt_bool (pm_write p)) s1) of
             (ps, s2) \<Rightarrow> (p # ps, s2)))"

definition postPermissions ::
    "int \<Rightarrow> request \<Rightarrow> (store \<Rightarrow> int) \<Rightarrow> int \<Rightarrow> perm_body \<Rightarrow> store \<Rightarrow> admin_view reply \<times> store" where
  "postPermissions now rq rowid uid b s =
     (let patterns = (if pb_patterns b = [] \<and> pb_pattern b \<noteq> [] then [pb_pattern b] else pb_patterns b) in
      if patterns = [] then (Fail 400, s)
      else case save_perms now rq rowid uid (pb_read b \<or> pb_write b) (pb_write b) patterns s of
        (ps, s1) \<Rightarrow> (Reply 200 (PermList ps), s1))"

definition deletePermissions ::
    "int \<Rightarrow> request \<Rightarrow> int \<Rightarrow> perm_body \<Rightarrow> store \<Rightarrow> admin_view reply \<times> store" where
  "deletePermissions now rq uid b s =
     (if pb_pattern b = [] then (Fail 400, s)
      else case DeleteUserPermissionByPattern uid (pb_pattern b) s of
        (Inl _, s1) \<Rightarrow> (Fail 500, s1)
      | (Inr _, s1) \<Rightarrow>
          (Reply 200 AckView, audited now rq ''user.permission.delete''
             (''target_user_id='' @ Itoa uid @ '' pattern='' @ pb_pattern b) s1))"

definition handleAdminUserPermissions ::
    "int \<Rightarrow> request \<Rightarrow> string \<Rightarrow> (store \<Rightarrow> int) \<Rightarrow> perm_body option \<Rightarrow> store \<Rightarrow> admin_view reply \<times> store" where
  "handleAdminUserPermissions now rq pv rowid body s =
     (if \<not> is_admin_caller rq then (Fail 403, s)
      else case parseID pv of
        None \<Rightarrow> (Fail 404, s)
      | Some uid \<Rightarrow>
          if rq_method rq = ''GET'' then
            (case ListUserPermissions uid s of
               Inl _ \<Rightarrow> (Fail 500, s) | Inr perms \<Rightarrow> (Reply 200 (PermList perms), s))
          else if rq_method rq = ''POST'' then
            (case body of None \<Rightarrow> (Fail 400, s) | Some b \<Rightarrow> postPermissions now rq rowid uid b s)
          else if rq_method rq = ''DELETE'' then
            (case body of None \<Rightarrow> (Fail 400, s) | Some b \<Rightarrow> deletePermissions now rq uid b s)
          else (Fail 405, s))"

definition handleAdminUserPermissionByID ::
    "int \<Rightarrow> request \<Rightarrow> string \<Rightarrow> perm_row option \<Rightarrow> store \<Rightarrow> admin_view reply \<times> store" where
  "handleAdminUserPermissionByID now rq pv body s =
     (if \<not> is_admin_caller rq then (Fail 403, s)
      else case parseID pv of
        None \<Rightarrow> (Fail 404, s)
      | Some i \<Rightarrow>
          if rq_method rq = ''PUT'' then
            (case body of
               None \<Rightarrow> (Fail 400, s)
             | Some p \<Rightarrow>
                 (case UpdateUserPermission i (pm_pattern p) (pm_read p) (pm_write p) s of
                    (Inl _, s1) \<Rightarrow> (Fail 500, s1)
                  | (Inr _, s1) \<Rightarrow>
                      (Reply 200 AckView, audited now rq ''user.permission.update''
                         (''perm_id='' @ Itoa i @ '' pattern='' @ pm_pattern p @ '' can_read='' @
                          fmt_bool (pm_read p) @ '' can_write='' @ fmt_bool (pm_write p)) s1)))
          else if rq_method rq = ''DELETE'' then
            (case DeleteUserPermission i s of
               (Inl _, s1) \<Rightarrow> (Fail 500, s1)
             | (Inr _, s1) \<Rightarrow>
                 (Reply 200 AckView, audited now rq ''user.permission.delete'' (''perm_id='' @ Itoa i) s1))
          else (Fail 405, s))"

section \<open>Favorites, visits, audit log\<close>

record favorite =
  fv_id :: int
  fv_repo :: string
  fv_ref :: string
  fv_digest :: string
  fv_note :: string
  fv_created :: int
  fv_updated :: int

definition favorite_of :: "image_row \<Rightarrow> string \<Rightarrow> favorite" where
  "favorite_of im repo =
     \<lparr>fv_id = im_id im, fv_repo = repo, fv_ref = im_tag im, fv_digest = im_digest im, fv_note = im_note im,
      fv_created = im_created im, fv_updated = im_updated im\<rparr>"

record favorite_body =
  fb_repo :: string
  fb_ref :: string
  fb_digest :: string
  fb_note :: string

datatype favorites_view = FavoriteList "favorite list" | FavoriteView favorite | FavoriteGone

definition addFavorite ::
    "int \<Rightarrow> request \<Rightarrow> favorite_body \<Rightarrow> store \<Rightarrow> favorites_view reply \<times> store" where
  "addFavorite now rq b s =
     (if TrimSpace (fb_repo b) = [] then (Fail 400, s)
      else if \<not> userCanAccessRepo rq (fb_repo b) s then (Fail 403, s)
      else case resolveRepo now (fb_repo b) s of
        (Inl _, s1) \<Rightarrow> (Fail 400, s1)
      | (Inr rid, s1) \<Rightarrow>
          (case UpsertImage now (image_zero\<lparr>im_repo := rid, im_tag := fb_ref b, im_digest := fb_digest b,
                 im_fav := True, im_note := fb_note b\<rparr>) s1 of
             (Inl _, s2) \<Rightarrow> (Fail 400, s2)
           | (Inr _, s2) \<Rightarrow>
               (case GetImageByRepoTag rid (fb_ref b) s2 of
                  Inl _ \<Rightarrow> (Fail 500, s2)
                | Inr im \<Rightarrow>
                    (Reply 200 (FavoriteView (favorite_of im (fb_repo b))),
                     snd (AddAudit now (currentUserID rq) ''favorite.upsert'' (fb_repo b) (fb_ref b)
                       (fb_digest b) ''ok'' (fb_note b) s2)))))"

definition handleFavorites ::
    "int \<Rightarrow> request \<Rightarrow> favorite_body option \<Rightarrow> store \<Rightarrow> favorites_view reply \<times> store" where
  "handleFavorites now rq body s =
     (if rq_method rq = ''GET'' then
        (case ListFavoriteImages s of
           Inl _ \<Rightarrow> (Fail 500, s)
         | Inr items \<Rightarrow>
             (Reply 200 (FavoriteList (map (\<lambda>(im, repo). favorite_of im repo)
                (filter (\<lambda>(im, repo). userCanAccessRepo rq repo s) items))), s))
      else if rq_method rq = ''POST'' then
        (case body of None \<Rightarrow> (Fail 400, s) | Some b \<Rightarrow> addFavorite now rq b s)
      else (Fail 405, s))"

definition handleFavoriteByID :: "int \<Rightarrow> request \<Rightarrow> store \<Rightarrow> favorites_view reply \<times> store" where
  "handleFavoriteByID now rq s =
     (case parseID (TrimPrefix (rq_path rq) ''/api/favorites/'') of
        None \<Rightarrow> (Fail 404, s)
      | Some i \<Rightarrow>
          if rq_method rq \<noteq> ''DELETE'' then (Fail 405, s)
          else case GetImageByID i s of
            Inl _ \<Rightarrow> (Fail 404, s)
          | Inr im \<Rightarrow>
              (case RepositoryFullName (im_repo im) s of
                 Inl _ \<Rightarrow> (Fail 500, s)
               | Inr repo \<Rightarrow>
                   if \<not> userCanAccessRepo rq repo s then (Fail 403, s)
                   else (case SetImageFavorite now (im_repo im) (im_tag im) False [] s of
                      (Inl _, s1) \<Rightarrow> (Fail 400, s1)
                    | (Inr _, s1) \<Rightarrow> (Reply 200 FavoriteGone, s1))))"

definition handleRecent :: "request \<Rightarrow> store \<Rightarrow> recent_row list reply" where
  "handleRecent rq s =
     (case ListRecent (currentUserID rq) 50 s of
        Inl _ \<Rightarrow> Fail 500
      | Inr items \<Rightarrow> Reply 200 (filter (\<lambda>r. userCanAccessRepo rq (rc_repo r) s) items))"

definition handleAudit :: "request \<Rightarrow> store \<Rightarrow> (audit_row \<times> string) list reply" where
  "handleAudit rq s =
     (let uid = (case rq_user rq of None \<Rightarrow> 0 | Some u \<Rightarrow> if us_admin u then 0 else us_id u)
      in case ListAudit uid 100 s of Inl _ \<Rightarrow> Fail 400 | Inr items \<Rightarrow> Reply 200 items)"

section \<open>The last administrator\<close>

text \<open>One request to the account handlers, and a run of them one after the other.\<close>

datatype admin_call =
  CallUsers int request "user_body option"
| CallUserByID int request "user_body option"
| CallDisable int request string
| CallEnable int request string
| CallPerms int request string "store \<Rightarrow> int" "perm_body option"
| CallPermByID int request string "perm_row option"

fun run_call :: "crypto \<Rightarrow> admin_call \<Rightarrow> store \<Rightarrow> store" where
  "run_call cr (CallUsers now rq body) s = snd (handleAdminUsers now cr rq body s)"
| "run_call cr (CallUserByID now rq body) s = snd (handleAdminUserByID now cr rq body s)"
| "run_call cr (CallDisable now rq pv) s = snd (handleAdminUserDisable now rq pv s)"
| "run_call cr (CallEnable now rq pv) s = snd (handleAdminUserEnable now rq pv s)"
| "run_call cr (CallPerms now rq pv rowid body) s = snd (handleAdminUserPermissions now rq pv rowid body s)"
| "run_call cr (CallPermByID now rq pv body) s = snd (handleAdminUserPermissionByID now rq pv body s)"

definition admin_calls :: "crypto \<Rightarrow> admin_call list \<Rightarrow> store \<Rightarrow> store" where
  "admin_calls cr calls s = foldl (\<lambda>s c. run_call cr c s) s calls"

text \<open>What every handler keeps: the invariant of the user tables and somebody to administer.\<close>

definition governed :: "store \<Rightarrow> bool" where
  "governed s \<longleftrightarrow> users_ok s \<and> admins s \<noteq> []"

lemma governed_users: "users_ok s' \<Longrightarrow> s_users s' = s_users s \<Longrightarrow> governed s \<Longrightarrow> governed s'"
  using admins_cong[of s' s] by (simp add: governed_def)

lemma audited_users: "s_users (audited now rq a d s) = s_users s" "users_ok (audited now rq a d s) = users_ok s"
  using users_ok_cong[of "audited now rq a d s" s] by (simp_all add: audited_def AddAudit_def)

lemma audited_governed [simp]: "governed (audited now rq a d s) = governed s"
  using admins_cong[OF audited_users(1)[of now rq a d s]] by (simp add: governed_def audited_users)

lemma remaining_admins_le: "1 < remaining_admins s \<Longrightarrow> 1 < length (admins s)"
  by (auto simp: remaining_admins_def CountEnabledAdmins_def admins_def split: if_splits)

lemma GetUserByID_row:
  "users_ok s \<Longrightarrow> GetUserByID i s = Inr t \<Longrightarrow> us_id t = i \<and> (\<forall>u \<in> set (trows (s_users s)). us_id u = i \<longrightarrow> u = t)"
  using table_ok_same_id[OF users_okD(1)]
  by (auto simp: GetUserByID_def dest!: tfind_SomeD split: if_splits)

text \<open>Who remains when the account \<open>i\<close> is touched: another administrator, unless the guard refused.\<close>

lemma other_admin:
  assumes "governed s" "GetUserByID i s = Inr t" "us_admin t \<and> us_enabled t \<longrightarrow> 1 < length (admins s)"
  shows "\<exists>a \<in> set (admins s). us_id a \<noteq> i"
proof (cases "us_admin t \<and> us_enabled t")
  case True
  then show ?thesis using two_admins_other assms by (simp add: governed_def)
next
  case False
  obtain a where "a \<in> set (admins s)" using assms(1) by (cases "admins s") (auto simp: governed_def)
  moreover from this have "us_id a \<noteq> i"
    using False GetUserByID_row[OF _ assms(2)] assms(1)
    by (auto simp: governed_def admins_def tselect_def enabled_admin_def)
  ultimately show ?thesis by blast
qed

lemma update_user_admins:
  "a \<in> set (admins s) \<Longrightarrow> us_id a \<noteq> i \<Longrightarrow> admins (snd (update_user i f s)) \<noteq> []"
  using admins_update_other[of a s i f] by (auto simp: update_user_def)

lemma rename_user_admins:
  "a \<in> set (admins s) \<Longrightarrow> us_id a \<noteq> i \<Longrightarrow> admins (snd (rename_user i n f s)) \<noteq> []"
  using update_user_admins[of a s i f] by (auto simp: rename_user_def)

lemma update_user_self:
  assumes "GetUserByID i s = Inr t" "\<And>u. enabled_admin (f u)"
  shows "admins (snd (update_user i f s)) \<noteq> []"
proof -
  have nf: "\<not> s_fault s TUsers" and t: "t \<in> set (trows (s_users s))" "us_id t = i"
    using assms(1) by (auto simp: GetUserByID_def dest!: tfind_SomeD split: if_splits)
  have "f t \<in> set (admins (s\<lparr>s_users := tupdate (\<lambda>u. us_id u = i) f (s_users s)\<rparr>))"
    unfolding admins_def tselect_def using t assms(2)
    by (auto simp: tupdate_simps intro!: image_eqI[of _ _ t])
  then show ?thesis using nf by (auto simp: update_user_def)
qed

lemma UpdateUser_governed:
  assumes g: "governed s" and t: "GetUserByID i s = Inr t" and guard: "demotion_guard t b s = None"
  shows "governed (snd (UpdateUser now hash i name pw (ub_admin b) (ub_enabled b) s))"
proof -
  have keep: "admins (snd (rename_user i name f s)) \<noteq> []"
    if f: "\<And>u. enabled_admin (f u) \<longleftrightarrow> ub_admin b \<and> ub_enabled b" for f
  proof (cases "ub_admin b \<and> ub_enabled b")
    case True
    then show ?thesis using update_user_self[OF t, of f] f g by (auto simp: rename_user_def governed_def)
  next
    case False
    then have "us_admin t \<and> us_enabled t \<longrightarrow> 1 < length (admins s)"
      using guard by (auto simp: demotion_guard_def CountEnabledAdmins_def admins_def split: if_splits)
    from other_admin[OF g t this] show ?thesis using rename_user_admins by blast
  qed
  have "admins (snd (UpdateUser now hash i name pw (ub_admin b) (ub_enabled b) s)) \<noteq> []"
    using g by (auto simp: UpdateUser_def governed_def enabled_admin_def intro!: keep split: option.split)
  then show ?thesis using g UpdateUser_users_ok by (simp add: governed_def)
qed

lemma updateUser_governed: "governed s \<Longrightarrow> governed (snd (updateUser now cr rq i b s))"
proof -
  assume g: "governed s"
  have "governed s1 \<Longrightarrow> governed (snd (update_reply now rq i pw x s1))" for pw x s1
    by (auto simp: update_reply_def split: sum.split)
  then show ?thesis using g UpdateUser_governed[OF g]
    by (auto simp: updateUser_def Let_def split_beta split: sum.split option.split)
qed

lemma createUser_governed: "governed s \<Longrightarrow> governed (snd (createUser now cr rq b s))"
proof -
  assume g: "governed s"
  have "governed (snd (CreateUserWithEnabled now n h ad en mc s))" for n h ad en mc
    using g CreateUserWithEnabled_users_ok[of s now n h ad en mc]
    by (auto simp: governed_def CreateUserWithEnabled_def Let_def admins_def tselect_def table_simps)
  then show ?thesis using g
    by (auto simp: createUser_def Let_def split: option.split prod.split sum.split) (metis snd_conv)+
qed

lemma deleteUser_governed: "governed s \<Longrightarrow> governed (snd (deleteUser now rq i s))"
proof -
  assume g: "governed s"
  show ?thesis
  proof (cases "delete_guard rq i s")
    case None
    then obtain t where t: "GetUserByID i s = Inr t" "us_admin t \<longrightarrow> 1 < remaining_admins s"
      by (auto simp: delete_guard_def split: sum.splits if_splits)
    then have "us_admin t \<and> us_enabled t \<longrightarrow> 1 < length (admins s)" using remaining_admins_le by blast
    from other_admin[OF g t(1) this] obtain a where "a \<in> set (admins s)" "us_id a \<noteq> i" by blast
    then have "admins (snd (DeleteUser i s)) \<noteq> []"
      using admins_delete_other[of a s i] by (auto simp: DeleteUser_def admins_def)
    then have "governed (snd (DeleteUser i s))" using g DeleteUser_users_ok by (simp add: governed_def)
    then show ?thesis using None
      by (auto simp: deleteUser_def delete_effect_def split: prod.split sum.split)
  qed (use g in \<open>simp add: deleteUser_def\<close>)
qed

lemma setUserEnabled_governed: "governed s \<Longrightarrow> governed (snd (setUserEnabled now rq pv en s))"
proof -
  assume g: "governed s"
  have "governed (snd (SetUserEnabled now i en s))"
    if t: "GetUserByID i s = Inr t" "\<not> (\<not> en \<and> us_admin t \<and> remaining_admins s \<le> 1)" for i t
  proof -
    have "admins (snd (SetUserEnabled now i en s)) \<noteq> []"
    proof (cases en)
      case False
      then have "us_admin t \<and> us_enabled t \<longrightarrow> 1 < length (admins s)" using t(2) remaining_admins_le by force
      from other_admin[OF g t(1) this] show ?thesis using update_user_admins unfolding SetUserEnabled_def by blast
    next
      case True
      obtain a where a: "a \<in> set (admins s)" using g by (cases "admins s") (auto simp: governed_def)
      show ?thesis
      proof (cases "us_id a = i")
        case False
        with a show ?thesis using update_user_admins unfolding SetUserEnabled_def by blast
      next
        case eq: True
        let ?f = "\<lambda>u. u\<lparr>us_enabled := en, us_updated := now\<rparr>"
        have "?f a \<in> set (admins (s\<lparr>s_users := tupdate (\<lambda>u. us_id u = i) ?f (s_users s)\<rparr>))"
          using a eq True by (auto simp: admins_def tselect_def tupdate_simps enabled_admin_def intro!: image_eqI[of _ _ a])
        then show ?thesis using g by (auto simp: SetUserEnabled_def update_user_def governed_def)
      qed
    qed
    then show ?thesis using g user_setters_users_ok by (simp add: governed_def)
  qed
  then show ?thesis using g
    by (auto simp: setUserEnabled_def Let_def split_beta split: option.split sum.split)
qed

lemma perms_governed:
  "governed s \<Longrightarrow> governed (snd (save_perms now rq rowid uid rd wr pats s))"
  "governed s \<Longrightarrow> governed (snd (handleAdminUserPermissionByID now rq pv pbody s))"
  "governed s \<Longrightarrow> governed (snd (deletePermissions now rq uid db s))"
proof -
  have up: "governed (snd (UpsertUserPermission now r p s))" if "governed s" for r p s
    by (rule governed_users[OF _ _ that]) (use that in \<open>simp add: governed_def UpsertUserPermission_users_ok\<close>,
      simp add: UpsertUserPermission_def Let_def)
  show "governed s \<Longrightarrow> governed (snd (save_perms now rq rowid uid rd wr pats s))"
  proof (induction pats arbitrary: s)
    case (Cons pat pats)
    let ?p = "perm_zero\<lparr>pm_user := uid, pm_pattern := pat, pm_read := rd, pm_write := wr\<rparr>"
    obtain x s1 where u: "UpsertUserPermission now (rowid s) ?p s = (x, s1)" by fastforce
    have "governed s1" using up[OF Cons.prems, of "rowid s" ?p] u by simp
    then show ?case using Cons.IH by (cases x) (simp_all add: u split_beta)
  qed simp
  have del: "governed (snd (DeleteUserPermission k s))" "governed (snd (DeleteUserPermissionByPattern u pt s))"
    if "governed s" for k u pt s
    by (rule governed_users[OF _ _ that], use that in \<open>simp add: governed_def perm_deletes_users_ok\<close>,
      simp add: DeleteUserPermission_def DeleteUserPermissionByPattern_def)+
  have upd: "governed (snd (UpdateUserPermission k pt rd wr s))" if "governed s" for k pt rd wr s
    by (rule governed_users[OF _ _ that]) (use that in \<open>simp add: governed_def UpdateUserPermission_users_ok\<close>,
      simp add: UpdateUserPermission_def)
  show "governed s \<Longrightarrow> governed (snd (handleAdminUserPermissionByID now rq pv pbody s))"
    using del(1)[of s] upd[of s] unfolding handleAdminUserPermissionByID_def
    by (auto split: option.split prod.split sum.split) (metis snd_conv)+
  show "governed s \<Longrightarrow> governed (snd (deletePermissions now rq uid db s))"
    using del(2)[of s] by (auto simp: deletePermissions_def split: prod.split sum.split) (metis snd_conv)+
qed

lemma run_call_governed: "governed s \<Longrightarrow> governed (run_call cr c s)"
proof (cases c)
  case (CallUsers now rq body)
  then show "governed s \<Longrightarrow> ?thesis" using createUser_governed
    by (auto simp: handleAdminUsers_def split: sum.split option.split)
next
  case (CallUserByID now rq body)
  then show "governed s \<Longrightarrow> ?thesis" using updateUser_governed deleteUser_governed
    by (auto simp: handleAdminUserByID_def split: option.split)
next
  case (CallPerms now rq pv rowid body)
  then show "governed s \<Longrightarrow> ?thesis" using perms_governed(1,3)
    by (auto simp: handleAdminUserPermissions_def postPermissions_def Let_def split_beta
        split: option.split sum.split)
qed (simp_all add: handleAdminUserDisable_def handleAdminUserEnable_def setUserEnabled_governed perms_governed(2))

text \<open>
  C24. Nobody can be locked out by administration: however many requests to the account handlers are
  served one after another, by whomever and whatever they ask, if an enabled administrator
  exists before, one exists after.
\<close>

theorem an_admin_remains:
  assumes "users_ok s" and "admins s \<noteq> []"
  shows "admins (admin_calls cr calls s) \<noteq> []"
proof -
  have "governed s \<Longrightarrow> governed (admin_calls cr calls s)"
    by (induction calls arbitrary: s) (simp_all add: admin_calls_def run_call_governed)
  then show ?thesis using assms by (simp add: governed_def)
qed

text \<open>The seeded administrator, and what tries to get rid of it.\<close>

definition seeded :: store where
  "seeded = snd (migrate_users 1 (Some ''h'') empty_store)"

definition as_user :: "user_row \<Rightarrow> string \<Rightarrow> string \<Rightarrow> request" where
  "as_user u m p = blank_request\<lparr>rq_method := m, rq_path := p, rq_user := Some u\<rparr>"

definition root_user :: user_row where
  "root_user = new_user 1 ''admin'' ''h'' True True False 1"

lemma seeded_rows: "trows (s_users seeded) = [root_user]"
  by (simp add: seeded_def migrate_users_def seed_admin_def HasAdminUser_def empty_store_def tselect_def
      enabled_admin_def table_simps thas_iff new_user_def root_user_def DefaultAdminUsername_def)

lemma seeded_seq: "tseq (s_users seeded) = 1"
  by (simp add: seeded_def migrate_users_def seed_admin_def HasAdminUser_def empty_store_def tselect_def
      enabled_admin_def table_simps thas_iff)

lemma seeded_fault: "s_fault seeded t = False"
  by (simp add: seeded_def migrate_users_def seed_admin_def HasAdminUser_def empty_store_def tselect_def
      enabled_admin_def table_simps thas_iff)

lemma seeded_ok: "users_ok seeded" "admins seeded \<noteq> []"
proof -
  show "users_ok seeded"
    unfolding seeded_def by (rule migrate_users_users_ok[OF users_ok_empty])
  show "admins seeded \<noteq> []"
    by (simp add: admins_def tselect_def seeded_rows enabled_admin_def root_user_def new_user_def)
qed

theorem an_admin_remains_witness:
  "admins (admin_calls demo_crypto
     [CallUserByID 5 (as_user root_user ''PUT'' ''/api/admin/users/1'')
        (Some \<lparr>ub_name = ''admin'', ub_pass = [], ub_admin = False, ub_enabled = True\<rparr>),
      CallUserByID 6 (as_user root_user ''DELETE'' ''/api/admin/users/1'') None,
      CallDisable 7 (as_user root_user ''POST'' []) ''1''] seeded) \<noteq> []"
  by (rule an_admin_remains[OF seeded_ok])

text \<open>
  C27. One after another is essential: the guard counts before the row is written and nothing holds
  the two together. When exactly two enabled administrators are left and each deletes the other
  at the same time, both guards pass, both deletions are made and nobody remains.
\<close>

theorem concurrent_deletes_lock_out:
  assumes "users_ok s" and "\<not> s_fault s TUsers" and "set (admins s) = {a, b}" and "us_id a \<noteq> us_id b"
    and "rq_user ra = Some a" and "rq_user rb = Some b"
  shows "delete_guard ra (us_id b) s = None \<and> delete_guard rb (us_id a) s = None \<and>
    admins (snd (delete_effect now rb (us_id a) (snd (delete_effect now ra (us_id b) s)))) = []"
proof -
  have d: "distinct (admins s)"
    using table_ok_distinct[OF users_okD(1)[OF assms(1)]]
    by (simp add: admins_def tselect_def distinct_map)
  have two: "1 < length (admins s)"
  proof -
    have "a \<noteq> b" using assms(4) by blast
    then have "length (admins s) = 2" using distinct_card[OF d] assms(3) by simp
    then show ?thesis by simp
  qed
  then have rem: "\<not> remaining_admins s \<le> 1"
    using CountEnabledAdmins_eq[OF assms(2)] by (simp add: remaining_admins_def)
  have "\<exists>t. GetUserByID (us_id u) s = Inr t" if "u \<in> set (admins s)" for u
    using that assms(2) tfind_None[of "\<lambda>x. us_id x = us_id u" "s_users s"]
    by (auto simp: GetUserByID_def admins_def tselect_def thas_iff)
  then have "delete_guard ra (us_id b) s = None" "delete_guard rb (us_id a) s = None"
    using assms(3-6) rem by (force simp: delete_guard_def)+
  moreover have "admins (snd (delete_effect now rb (us_id a) (snd (delete_effect now ra (us_id b) s)))) =
      filter (\<lambda>u. us_id u \<noteq> us_id b \<and> us_id u \<noteq> us_id a) (admins s)"
    using assms(2) audited_users(1)
    by (auto simp: delete_effect_def DeleteUser_def admins_def tselect_def table_simps audited_def AddAudit_def
        intro: filter_cong)
  moreover have "\<dots> = []" using assms(3) by (auto simp: filter_empty_conv)
  ultimately show ?thesis by simp
qed

definition second_admin :: user_row where
  "second_admin = new_user 2 ''eve'' ''h'' True True False 2"

definition two_admins :: store where
  "two_admins = snd (CreateUserWithEnabled 2 ''eve'' ''h'' True True False seeded)"

theorem concurrent_deletes_lock_out_witness:
  "admins (snd (delete_effect 9 (as_user second_admin ''DELETE'' []) 1
     (snd (delete_effect 9 (as_user root_user ''DELETE'' []) 2 two_admins)))) = []"
proof -
  have rows: "trows (s_users two_admins) = [root_user, second_admin]"
    by (simp add: two_admins_def CreateUserWithEnabled_def seeded_fault thas_iff seeded_rows seeded_seq table_simps Let_def
        second_admin_def root_user_def new_user_def)
  have ok: "users_ok two_admins" unfolding two_admins_def by (rule CreateUserWithEnabled_users_ok[OF seeded_ok(1)])
  have "\<not> s_fault two_admins TUsers"
    by (simp add: two_admins_def CreateUserWithEnabled_def seeded_fault thas_iff seeded_rows Let_def root_user_def new_user_def)
  moreover have "set (admins two_admins) = {root_user, second_admin}"
    by (auto simp: admins_def tselect_def rows enabled_admin_def root_user_def second_admin_def new_user_def)
  moreover have ids: "us_id root_user = 1" "us_id second_admin = 2"
    by (simp_all add: root_user_def second_admin_def new_user_def)
  ultimately show ?thesis
    using concurrent_deletes_lock_out[OF ok, of root_user second_admin "as_user root_user ''DELETE'' []"
        "as_user second_admin ''DELETE'' []" 9] by (simp add: as_user_def)
qed

end
