(* ===== verification/Features.thy ===== *)
theory Features
  imports Auth_Flow Image_Size
begin

text \<open>
  The feature handlers of \<^verbatim>\<open>features.go\<close> except the webhooks: immutable-tag rules, repository
  descriptions, API tokens, the export and the statistics. A decoded JSON body is an argument, None
  when decoding fails; the 32 random bytes of a token are an argument, None when the source fails.
\<close>

section \<open>Immutable-tag rules\<close>

record rule_body =
  rl_pattern :: string
  rl_desc :: string

datatype rules_view = RuleList "rule_row list" | RuleView rule_row | RuleGone

definition rule_zero :: rule_row where
  "rule_zero = \<lparr>ru_id = 0, ru_pattern = [], ru_desc = [], ru_created = 0\<rparr>"

definition handleImmutableRules ::
    "int \<Rightarrow> request \<Rightarrow> rule_body option \<Rightarrow> store \<Rightarrow> rules_view reply \<times> store" where
  "handleImmutableRules now rq body s =
     (if \<not> requireAdmin rq then (Fail 403, s)
      else if rq_method rq = ''GET'' then
        (case ListImmutableTagRules s of Inl _ \<Rightarrow> (Fail 500, s) | Inr rules \<Rightarrow> (Reply 200 (RuleList rules), s))
      else if rq_method rq = ''POST'' then
        (case body of
           None \<Rightarrow> (Fail 400, s)
         | Some b \<Rightarrow>
             if rl_pattern b = [] then (Fail 400, s)
             else (case CreateImmutableTagRule now (rule_zero\<lparr>ru_pattern := rl_pattern b, ru_desc := rl_desc b\<rparr>) s of
                (Inl _, s1) \<Rightarrow> (Fail 400, s1) | (Inr r, s1) \<Rightarrow> (Reply 201 (RuleView r), s1)))
      else (Fail 405, s))"

definition handleImmutableRuleByID :: "int \<Rightarrow> request \<Rightarrow> store \<Rightarrow> rules_view reply \<times> store" where
  "handleImmutableRuleByID now rq s =
     (if \<not> requireAdmin rq then (Fail 403, s)
      else case parseID (TrimPrefix (rq_path rq) ''/api/admin/immutable-rules/'') of
        None \<Rightarrow> (Fail 404, s)
      | Some i \<Rightarrow>
          if rq_method rq \<noteq> ''DELETE'' then (Fail 405, s)
          else (case DeleteImmutableTagRule i s of
             (Inl _, s1) \<Rightarrow> (Fail 500, s1)
           | (Inr _, s1) \<Rightarrow>
               (Reply 200 RuleGone, snd (AddAudit now (currentUserID rq) ''immutable-rule.delete'' [] [] []
                  ''ok'' (''rule_id='' @ Itoa i) s1))))"

section \<open>Descriptions\<close>

datatype descr_view = Description string string | DescrSaved

definition handleRepoDescription ::
    "int \<Rightarrow> request \<Rightarrow> string option \<Rightarrow> store \<Rightarrow> descr_view reply \<times> store" where
  "handleRepoDescription now rq body s =
     (let repo = TrimSuffix (TrimPrefix (rq_path rq) ''/api/repo-description/'') ''/description'' in
      if repo = [] then (Fail 404, s)
      else if \<not> userCanAccessRepo rq repo s then (Fail 403, s)
      else if isMutatingMethod (rq_method rq) \<and> \<not> userCanWriteRepo rq repo s then (Fail 403, s)
      else if rq_method rq = ''GET'' then
        (case GetRepoDescription repo s of
           Inl _ \<Rightarrow> (Fail 500, s) | Inr d \<Rightarrow> (Reply 200 (Description repo d), s))
      else if rq_method rq = ''PUT'' then
        (case body of
           None \<Rightarrow> (Fail 400, s)
         | Some d \<Rightarrow>
             (case SetRepoDescription repo d s of
                (Inl _, s1) \<Rightarrow> (Fail 500, s1)
              | (Inr _, s1) \<Rightarrow>
                  (Reply 200 DescrSaved, snd (AddAudit now (currentUserID rq) ''repo.description'' repo [] []
                     ''ok'' ''description updated'' s1))))
      else (Fail 405, s))"

section \<open>API tokens\<close>

record token_body =
  tb_name :: string
  tb_desc :: string
  tb_hours :: int

datatype tokens_view = TokenList "token_row list" | TokenCreated token_row string | TokenGone

text \<open>
  \<^verbatim>\<open>time.Now().Add(time.Duration(ExpiresIn) * time.Hour)\<close>: the product is a number of nanoseconds
  in 64 bits. At whole seconds the comparison with the expiry is one with its floor.
\<close>

definition token_expiry :: "int \<Rightarrow> int \<Rightarrow> int option" where
  "token_expiry now hours =
     (if hours > 0 then Some (now + wrap64 (hours * 3600000000000) div 1000000000) else None)"

definition fullToken :: "string \<Rightarrow> string" where
  "fullToken tokenHex = ''ru_'' @ take 12 tokenHex @ ''_'' @ tokenHex"

definition new_token :: "crypto \<Rightarrow> int \<Rightarrow> user_row \<Rightarrow> string \<Rightarrow> token_body \<Rightarrow> token_row" where
  "new_token cr now u tokenHex b =
     \<lparr>tk_id = 0, tk_user = us_id u, tk_name = tb_name b, tk_hash = sha256Hex cr tokenHex,
      tk_prefix = take 12 tokenHex, tk_desc = tb_desc b, tk_expires = token_expiry now (tb_hours b),
      tk_lastused = None, tk_created = 0\<rparr>"

text \<open>A token as JSON shows it, without its hash.\<close>

definition shown_token :: "token_row \<Rightarrow> token_row" where
  "shown_token t = t\<lparr>tk_hash := []\<rparr>"

definition createToken ::
    "int \<Rightarrow> crypto \<Rightarrow> string option \<Rightarrow> user_row \<Rightarrow> token_body \<Rightarrow> store \<Rightarrow> tokens_view reply \<times> store" where
  "createToken now cr rnd u b s =
     (if tb_name b = [] then (Fail 400, s)
      else case rnd of
        None \<Rightarrow> (Fail 500, s)
      | Some bytes \<Rightarrow>
          (let tokenHex = HexEncode bytes in
           case CreateAPIToken now (new_token cr now u tokenHex b) s of
             (Inl _, s1) \<Rightarrow> (Fail 400, s1)
           | (Inr t, s1) \<Rightarrow>
               (Reply 201 (TokenCreated (shown_token t) (fullToken tokenHex)),
                snd (AddAudit now (us_id u) ''token.create'' [] [] [] ''ok''
                  (''token_id='' @ Itoa (tk_id t) @ '' name='' @ tk_name t @ '' prefix='' @ take 12 tokenHex) s1))))"

definition handleTokens ::
    "int \<Rightarrow> crypto \<Rightarrow> string option \<Rightarrow> request \<Rightarrow> token_body option \<Rightarrow> store \<Rightarrow> tokens_view reply \<times> store" where
  "handleTokens now cr rnd rq body s =
     (case rq_user rq of
        None \<Rightarrow> (Fail 403, s)
      | Some u \<Rightarrow>
          if rq_method rq = ''GET'' then
            (case ListAPITokens (us_id u) s of
               Inl _ \<Rightarrow> (Fail 500, s) | Inr ts \<Rightarrow> (Reply 200 (TokenList (map shown_token ts)), s))
          else if rq_method rq = ''POST'' then
            (case body of None \<Rightarrow> (Fail 400, s) | Some b \<Rightarrow> createToken now cr rnd u b s)
          else (Fail 405, s))"

definition handleTokenByID :: "int \<Rightarrow> request \<Rightarrow> store \<Rightarrow> tokens_view reply \<times> store" where
  "handleTokenByID now rq s =
     (case rq_user rq of
        None \<Rightarrow> (Fail 403, s)
      | Some u \<Rightarrow>
          (case parseID (TrimPrefix (rq_path rq) ''/api/admin/tokens/'') of
             None \<Rightarrow> (Fail 404, s)
           | Some i \<Rightarrow>
               if rq_method rq \<noteq> ''DELETE'' then (Fail 405, s)
               else (case GetAPITokenByID i s of
                  Inl _ \<Rightarrow> (Fail 404, s)
                | Inr t \<Rightarrow>
                    if tk_user t \<noteq> us_id u \<and> \<not> us_admin u then (Fail 403, s)
                    else (case DeleteAPIToken i s of
                       (Inl _, s1) \<Rightarrow> (Fail 500, s1)
                     | (Inr _, s1) \<Rightarrow>
                         (Reply 200 TokenGone, snd (AddAudit now (us_id u) ''token.delete'' [] [] [] ''ok''
                            (''token_id='' @ Itoa i @ '' name='' @ tk_name t @ '' owner_id='' @
                             Itoa (tk_user t)) s1))))))"

section \<open>Export and statistics\<close>

record export_row =
  ex_repo :: string
  ex_tag :: string
  ex_digest :: string
  ex_ctype :: string
  ex_size :: int

definition export_tag :: "'r client \<Rightarrow> string \<Rightarrow> 'r \<Rightarrow> string \<Rightarrow> export_row list" where
  "export_tag c repo r tag =
     (case Manifest c repo tag r of
        Inl _ \<Rightarrow> []
      | Inr m \<Rightarrow> [\<lparr>ex_repo = repo, ex_tag = tag, ex_digest = rm_digest m, ex_ctype = rm_ctype m,
                   ex_size = imageSize c repo (rm_payload m) r\<rparr>])"

definition export_repo :: "'r client \<Rightarrow> 'r \<Rightarrow> string \<Rightarrow> export_row list" where
  "export_repo c r repo =
     (case Tags c repo r of Inl _ \<Rightarrow> [] | Inr tags \<Rightarrow> concat (map (export_tag c repo r) tags))"

definition export_rows :: "'r client \<Rightarrow> 'r \<Rightarrow> string list \<Rightarrow> export_row list" where
  "export_rows c r repos = concat (map (export_repo c r) repos)"

text \<open>
  \<^verbatim>\<open>csv.Writer\<close>: a field is quoted when it is \<^verbatim>\<open>\\.\<close>, begins with white space or holds a comma, a quote
  or a line break; quotes are doubled. Fields are ASCII.
\<close>

definition csv_needs_quotes :: "string \<Rightarrow> bool" where
  "csv_needs_quotes f \<longleftrightarrow>
     (if f = [] then False else if f = [CHR 0x5C, CHR ''.''] then True
      else list_ex (\<lambda>c. c \<in> set [CHR '','', CHR 0x22, CHR 0x0D, CHR 0x0A]) f \<or> is_space (hd f))"

definition csv_field :: "string \<Rightarrow> string" where
  "csv_field f =
     (if csv_needs_quotes f
      then [CHR 0x22] @ concat (map (\<lambda>c. if c = CHR 0x22 then [c, c] else [c]) f) @ [CHR 0x22]
      else f)"

definition csv_line :: "string list \<Rightarrow> string" where
  "csv_line fs = Join (map csv_field fs) '','' @ [CHR 0x0A]"

definition csv_export :: "export_row list \<Rightarrow> string" where
  "csv_export rows =
     csv_line [''repo'', ''tag'', ''digest'', ''contentType'', ''size''] @
     concat (map (\<lambda>x. csv_line [ex_repo x, ex_tag x, ex_digest x, ex_ctype x, Itoa (ex_size x)]) rows)"

datatype export_view = Csv string | Items int "export_row list"

definition handleExport :: "int \<Rightarrow> 'r client \<Rightarrow> request \<Rightarrow> 'r \<Rightarrow> export_view reply" where
  "handleExport now c rq r =
     (if \<not> requireAdmin rq then Fail 403
      else case Catalog c [] [] r of
        Inl _ \<Rightarrow> Fail 502
      | Inr (repos, _) \<Rightarrow>
          (let rows = export_rows c r repos
           in if rq_query rq ''format'' = ''csv'' then Reply 200 (Csv (csv_export rows))
              else Reply 200 (Items now rows)))"

definition handleRepoStats :: "request \<Rightarrow> store \<Rightarrow> stats_row list reply" where
  "handleRepoStats rq s =
     (if rq_method rq \<noteq> ''GET'' then Fail 405
      else if \<not> requireAdmin rq then Fail 403
      else case ListRepoStats s of Inl _ \<Rightarrow> Fail 500 | Inr stats \<Rightarrow> Reply 200 stats)"

section \<open>What a token is worth\<close>

lemma HexEncode_plain: "CHR ''_'' \<notin> set (HexEncode s)"
proof
  assume "CHR ''_'' \<in> set (HexEncode s)"
  then obtain n where "n < 16" "hex_lower n = CHR ''_''" using HexEncode_chars by metis
  moreover have "\<forall>n \<in> set [0..<16]. hex_lower n \<noteq> CHR ''_''"
    by (simp add: upt_rec hex_lower_def char_of_def)
  ultimately show False by auto
qed

lemma SplitN_char:
  "c \<notin> set a \<Longrightarrow> SplitN (Suc (Suc n)) (a @ c # b) [c] = a # SplitN (Suc n) b [c]"
  by (simp add: Index_char_first)

lemma fullToken_split:
  "SplitN 3 (fullToken (HexEncode bytes)) ''_'' = [''ru'', take 12 (HexEncode bytes), HexEncode bytes]"
proof -
  let ?h = "HexEncode bytes"
  have "CHR ''_'' \<notin> set (take 12 ?h)" using HexEncode_plain[of bytes] by (meson in_set_takeD)
  then have "SplitN 2 (take 12 ?h @ CHR ''_'' # ?h) ''_'' = [take 12 ?h, ?h]"
    using SplitN_char[of "CHR ''_''" "take 12 ?h" 0 ?h] by (simp add: numeral_2_eq_2)
  moreover have "SplitN 3 (''ru'' @ CHR ''_'' # take 12 ?h @ CHR ''_'' # ?h) ''_'' =
      ''ru'' # SplitN 2 (take 12 ?h @ CHR ''_'' # ?h) ''_''"
    using SplitN_char[of "CHR ''_''" "''ru''" 1] by (simp add: numeral_3_eq_3 numeral_2_eq_2)
  ultimately show ?thesis by (simp add: fullToken_def)
qed

lemma token_created:
  assumes "handleTokens now cr (Some bytes) rq (Some b) s = (Reply 201 (TokenCreated t full), s')"
    and "rq_user rq = Some u"
  shows "full = fullToken (HexEncode bytes)" "s_users s' = s_users s" "s_fault s' = s_fault s"
    "\<not> s_fault s TTokens"
    "trows (s_tokens s') = trows (s_tokens s) @
       [(new_token cr now u (HexEncode bytes) b)\<lparr>tk_id := tseq (s_tokens s) + 1, tk_created := now\<rparr>]"
  using assms
  by (auto simp: handleTokens_def createToken_def CreateAPIToken_def AddAudit_def Let_def tinsert_def new_token_def
      split: if_splits option.splits sum.splits prod.splits)

text \<open>
  C25. What an API token is worth: the string shown once when a token is made authenticates its
  owner, as long as the account is enabled and until the second the token expires, and nobody
  after; unless an older token happens to begin with the same six random bytes.
\<close>

theorem issued_token_authenticates:
  assumes "handleTokens now cr (Some bytes) rq (Some b) s = (Reply 201 (TokenCreated t full), s')"
    and "rq_user rq = Some u" and "length bytes = 32"
    and "\<not> thas (\<lambda>k. tk_prefix k = take 12 (HexEncode bytes)) (s_tokens s)"
    and "rq_header call ''Authorization'' = ''Bearer '' @ full" and "at_store st = s'"
    and "GetUserByID (us_id u) s' = Inr owner" and "us_enabled owner"
  shows "fst (checkAPITokenAuth cr later call st) =
    (case token_expiry now (tb_hours b) of
       Some e \<Rightarrow> if e < later then None else Some (call\<lparr>rq_user := Some owner\<rparr>)
     | None \<Rightarrow> Some (call\<lparr>rq_user := Some owner\<rparr>))"
proof -
  let ?h = "HexEncode bytes"
  let ?t = "(new_token cr now u ?h b)\<lparr>tk_id := tseq (s_tokens s) + 1, tk_created := now\<rparr>"
  note c = token_created[OF assms(1,2)]
  have "List.find (\<lambda>k. tk_prefix k = take 12 ?h) (trows (s_tokens s)) = None"
    using assms(4) by (simp add: find_None_all thas_iff)
  then have row: "GetAPITokenByPrefix (take 12 ?h) s' = Inr ?t"
    using c(3-5) by (simp add: GetAPITokenByPrefix_def tfind_def find_append new_token_def)
  have len: "\<not> length (fullToken ?h) < 16" using assms(3) by (simp add: fullToken_def)
  have f: "tk_hash ?t = sha256Hex cr ?h" "tk_user ?t = us_id u" "tk_expires ?t = token_expiry now (tb_hours b)"
    by (simp_all add: new_token_def)
  show ?thesis
    unfolding checkAPITokenAuth_def assms(5) c(1) TrimPrefix_append HasPrefix_append[THEN eqTrueI] Let_def fullToken_split
    using len f assms(6-8) row by (simp add: constantTimeEqual_def split: option.split)
qed

text \<open>The product of hours and nanoseconds wraps: a token asked for 293 years is born expired.\<close>

lemma token_expiry_wraps: "token_expiry now 2562048 = Some (now - 9223371274)"
  by (simp add: token_expiry_def wrap64_def)

definition ci_body :: token_body where
  "ci_body = \<lparr>tb_name = ''ci'', tb_desc = [], tb_hours = 1\<rparr>"

definition ci_bytes :: string where
  "ci_bytes = replicate 32 (CHR ''k'')"

definition bob_asks :: request where
  "bob_asks = blank_request\<lparr>rq_method := ''POST'', rq_user := Some bob\<rparr>"

definition ci_full :: string where
  "ci_full = fullToken (HexEncode ci_bytes)"

definition ci_call :: request where
  "ci_call = blank_request\<lparr>rq_header := (\<lambda>h. if h = ''Authorization'' then ''Bearer '' @ ci_full else [])\<rparr>"

theorem issued_token_authenticates_witness:
  "\<exists>t s'. handleTokens 100 demo_crypto (Some ci_bytes) bob_asks (Some ci_body) bob_store =
      (Reply 201 (TokenCreated t ci_full), s') \<and>
    fst (checkAPITokenAuth demo_crypto 3700 ci_call (bob_state\<lparr>at_store := s'\<rparr>)) = Some (ci_call\<lparr>rq_user := Some bob\<rparr>) \<and>
    fst (checkAPITokenAuth demo_crypto 3701 ci_call (bob_state\<lparr>at_store := s'\<rparr>)) = None"
proof -
  obtain t s' where h: "handleTokens 100 demo_crypto (Some ci_bytes) bob_asks (Some ci_body) bob_store =
      (Reply 201 (TokenCreated t ci_full), s')"
    by (simp add: handleTokens_def bob_asks_def createToken_def ci_body_def ci_full_def Let_def CreateAPIToken_def
        bob_store_def empty_store_def thas_iff bob_def new_token_def)
  have f: "rq_user bob_asks = Some bob" "length ci_bytes = 32"
    "\<not> thas (\<lambda>k. tk_prefix k = take 12 (HexEncode ci_bytes)) (s_tokens bob_store)"
    "rq_header ci_call ''Authorization'' = ''Bearer '' @ ci_full"
    "at_store (bob_state\<lparr>at_store := s'\<rparr>) = s'" "us_enabled bob"
    by (simp_all add: bob_asks_def ci_bytes_def thas_iff bob_store_def empty_store_def table_simps ci_call_def bob_def)
  have g: "GetUserByID (us_id bob) s' = Inr bob"
    using token_created(2,3)[OF h f(1)] by (simp add: GetUserByID_def bob_store_def empty_store_def tfind_def)
  have e: "token_expiry 100 (tb_hours ci_body) = Some 3700"
    by (simp add: token_expiry_def ci_body_def wrap64_def)
  show ?thesis
    using h issued_token_authenticates[OF h f(1-5) g f(6), of 3700] issued_token_authenticates[OF h f(1-5) g f(6), of 3701]
    by (auto simp: e)
qed

end
