(* ===== verification/Webhooks.thy ===== *)
theory Webhooks
  imports Admin Delete_Tags "HOL-Library.Word"
begin

unbundle bit_operations_syntax

text \<open>
  The webhooks of \<^verbatim>\<open>features.go\<close>: the addresses that count as internal, the validation of a target, the
  handlers that keep the list and the delivery of an event. Parsing a URL, resolving a host and
  building a request are the parameter \<open>hook_net\<close>; an address is the list of its 4 or 16 bytes. What
  \<^verbatim>\<open>http.Client\<close> does with a request (redirects included) is outside.
\<close>

section \<open>Addresses\<close>

type_synonym ip = "8 word list"

definition To4 :: "ip \<Rightarrow> ip option" where
  "To4 a =
     (if length a = 4 then Some a
      else if length a = 16 \<and> take 10 a = replicate 10 0 \<and> a ! 10 = 0xFF \<and> a ! 11 = 0xFF
      then Some (drop 12 a) else None)"

definition IsLoopback :: "ip \<Rightarrow> bool" where
  "IsLoopback a = (case To4 a of Some b \<Rightarrow> b ! 0 = 127 | None \<Rightarrow> a = replicate 15 0 @ [1])"

definition IsLinkLocalUnicast :: "ip \<Rightarrow> bool" where
  "IsLinkLocalUnicast a =
     (case To4 a of Some b \<Rightarrow> b ! 0 = 169 \<and> b ! 1 = 254
      | None \<Rightarrow> length a = 16 \<and> a ! 0 = 0xFE \<and> a ! 1 AND 0xC0 = 0x80)"

definition IsLinkLocalMulticast :: "ip \<Rightarrow> bool" where
  "IsLinkLocalMulticast a =
     (case To4 a of Some b \<Rightarrow> b ! 0 = 224 \<and> b ! 1 = 0 \<and> b ! 2 = 0
      | None \<Rightarrow> length a = 16 \<and> a ! 0 = 0xFF \<and> a ! 1 AND 0x0F = 0x02)"

definition IsUnspecified :: "ip \<Rightarrow> bool" where
  "IsUnspecified a = (To4 a = Some [0, 0, 0, 0] \<or> a = replicate 16 0)"

definition IsPrivate :: "ip \<Rightarrow> bool" where
  "IsPrivate a =
     (case To4 a of
        Some b \<Rightarrow> b ! 0 = 10 \<or> (b ! 0 = 172 \<and> b ! 1 AND 0xF0 = 16) \<or> (b ! 0 = 192 \<and> b ! 1 = 168)
      | None \<Rightarrow> length a = 16 \<and> a ! 0 AND 0xFE = 0xFC)"

definition isInternalIP :: "ip \<Rightarrow> bool" where
  "isInternalIP a =
     (IsLoopback a \<or> IsLinkLocalUnicast a \<or> IsLinkLocalMulticast a \<or> IsUnspecified a \<or> IsPrivate a)"

section \<open>Validation\<close>

record hook_net =
  hn_allow :: bool
  hn_parse :: "string \<Rightarrow> (string \<times> string) option"
  hn_ip :: "string \<Rightarrow> ip option"
  hn_lookup :: "string \<Rightarrow> ip list option"
  hn_request :: "string \<Rightarrow> bool"

text \<open>\<open>hn_parse\<close> gives scheme and host name; \<open>hn_request\<close> says whether \<^verbatim>\<open>http.NewRequest\<close> takes the URL.\<close>

definition host_ips :: "hook_net \<Rightarrow> string \<Rightarrow> ip list option" where
  "host_ips net h = (case hn_ip net h of Some a \<Rightarrow> Some [a] | None \<Rightarrow> hn_lookup net h)"

datatype url_err = BadURL | BadScheme | NoHost | Unresolved | NonPublic ip

definition validateWebhookURL :: "hook_net \<Rightarrow> string \<Rightarrow> url_err option" where
  "validateWebhookURL net raw =
     (case hn_parse net (TrimSpace raw) of
        None \<Rightarrow> Some BadURL
      | Some (scheme, h) \<Rightarrow>
          if scheme \<noteq> ''http'' \<and> scheme \<noteq> ''https'' then Some BadScheme
          else if h = [] then Some NoHost
          else if hn_allow net then None
          else case host_ips net h of
            None \<Rightarrow> Some Unresolved
          | Some ips \<Rightarrow> map_option NonPublic (List.find isInternalIP ips))"

section \<open>Handlers\<close>

record hook_body =
  hb_url :: string
  hb_secret :: string
  hb_events :: string
  hb_enabled :: bool

datatype hooks_view = HookList "hook_row list" | HookView hook_row | HookDone

definition hook_of :: "int \<Rightarrow> hook_body \<Rightarrow> string \<Rightarrow> hook_row" where
  "hook_of i b events =
     \<lparr>wh_id = i, wh_url = hb_url b, wh_secret = hb_secret b, wh_events = events, wh_enabled = hb_enabled b,
      wh_created = 0\<rparr>"

definition handleWebhooks ::
    "int \<Rightarrow> hook_net \<Rightarrow> request \<Rightarrow> hook_body option \<Rightarrow> store \<Rightarrow> hooks_view reply \<times> store" where
  "handleWebhooks now net rq body s =
     (if \<not> is_admin_caller rq then (Fail 403, s)
      else if rq_method rq = ''GET'' then
        (case ListWebhooks s of Inl _ \<Rightarrow> (Fail 500, s) | Inr hooks \<Rightarrow> (Reply 200 (HookList hooks), s))
      else if rq_method rq = ''POST'' then
        (case body of
           None \<Rightarrow> (Fail 400, s)
         | Some b \<Rightarrow>
             if hb_url b = [] then (Fail 400, s)
             else if validateWebhookURL net (hb_url b) \<noteq> None then (Fail 400, s)
             else (case CreateWebhook now (hook_of 0 b
                      (if hb_events b = [] then ''push,delete,untag,restore'' else hb_events b)) s of
                (Inl _, s1) \<Rightarrow> (Fail 400, s1) | (Inr h, s1) \<Rightarrow> (Reply 201 (HookView h), s1)))
      else (Fail 405, s))"

definition handleWebhookByID ::
    "hook_net \<Rightarrow> request \<Rightarrow> hook_body option \<Rightarrow> store \<Rightarrow> hooks_view reply \<times> store" where
  "handleWebhookByID net rq body s =
     (if \<not> is_admin_caller rq then (Fail 403, s)
      else case parseID (hd (Split (TrimPrefix (rq_path rq) ''/api/admin/webhooks/'') ''/'')) of
        None \<Rightarrow> (Fail 404, s)
      | Some i \<Rightarrow>
          if rq_method rq = ''PUT'' then
            (case body of
               None \<Rightarrow> (Fail 400, s)
             | Some b \<Rightarrow>
                 if hb_url b = [] then (Fail 400, s)
                 else if validateWebhookURL net (hb_url b) \<noteq> None then (Fail 400, s)
                 else (case UpdateWebhook (hook_of i b (hb_events b)) s of
                    (Inl _, s1) \<Rightarrow> (Fail 500, s1) | (Inr _, s1) \<Rightarrow> (Reply 200 HookDone, s1)))
          else if rq_method rq = ''DELETE'' then
            (case DeleteWebhook i s of
               (Inl _, s1) \<Rightarrow> (Fail 500, s1) | (Inr _, s1) \<Rightarrow> (Reply 200 HookDone, s1))
          else (Fail 405, s))"

section \<open>Delivery\<close>

definition webhookMatchesEvent :: "string \<Rightarrow> string \<Rightarrow> bool" where
  "webhookMatchesEvent events event = list_ex (\<lambda>e. TrimSpace e = event) (Split events '','')"

text \<open>A request on its way: URL, header of the secret, fields of the JSON body.\<close>

record hook_post =
  po_url :: string
  po_header :: "(string \<times> string) option"
  po_fields :: "(string \<times> string) list"

definition secret_header :: "string \<Rightarrow> (string \<times> string) option" where
  "secret_header h =
     (if h = [] then None
      else case SplitN 2 h '':'' of [k, v] \<Rightarrow> Some (TrimSpace k, TrimSpace v) | _ \<Rightarrow> None)"

definition hook_due :: "hook_net \<Rightarrow> string \<Rightarrow> hook_row \<Rightarrow> bool" where
  "hook_due net event h \<longleftrightarrow>
     wh_enabled h \<and> webhookMatchesEvent (wh_events h) event \<and> validateWebhookURL net (wh_url h) = None \<and>
     hn_request net (wh_url h)"

text \<open>What one event sends, \<open>stamp\<close> being the time in RFC 3339.\<close>

definition deliver ::
    "hook_net \<Rightarrow> string \<Rightarrow> string \<times> string \<times> string \<times> string \<Rightarrow> store \<Rightarrow> hook_post list" where
  "deliver net stamp ev s =
     (case ev of (event, repo, ref, digest) \<Rightarrow>
        (case ListWebhooks s of
           Inl _ \<Rightarrow> []
         | Inr hooks \<Rightarrow>
             map (\<lambda>h. \<lparr>po_url = wh_url h, po_header = secret_header (wh_secret h),
                   po_fields = [(''digest'', digest), (''event'', event), (''ref'', ref), (''repo'', repo),
                                (''time'', stamp)]\<rparr>)
               (filter (hook_due net event) hooks)))"

text \<open>Everything the handlers queued in \<open>w_events\<close>.\<close>

definition deliver_all :: "hook_net \<Rightarrow> string \<Rightarrow> 'r world \<Rightarrow> hook_post list" where
  "deliver_all net stamp w = concat (map (\<lambda>ev. deliver net stamp ev (w_store w)) (w_events w))"

section \<open>Where requests go\<close>

lemma byte_range: "unat (w :: 8 word) < 256"
  using unsigned_less[of w, where 'a = nat] by simp

lemma byte_eq: "k < 256 \<Longrightarrow> w = (word_of_nat k :: 8 word) \<longleftrightarrow> unat w = k"
  by (auto simp: unsigned_of_nat take_bit_nat_eq_self)

lemma byte_numeral:
  "w = (0 :: 8 word) \<longleftrightarrow> unat w = 0"
  "(numeral k :: nat) < 256 \<Longrightarrow> w = (numeral k :: 8 word) \<longleftrightarrow> unat w = numeral k"
  using byte_eq[of 0 w] byte_eq[of "numeral k" w] by simp_all

text \<open>Masks of high and low bits, in arithmetic.\<close>

lemma and_high:
  assumes "k \<le> 8"
  shows "unat ((w :: 8 word) AND push_bit k (mask (8 - k))) = unat w div 2 ^ k * 2 ^ k"
proof -
  have m: "w AND push_bit k (mask (8 - k)) = push_bit k (drop_bit k w)"
    by (rule bit_eqI) (use assms in \<open>auto simp: bit_simps\<close>)
  have d: "unat (drop_bit k w) = unat w div 2 ^ k"
    by (simp only: unsigned_drop_bit_eq) (simp add: drop_bit_eq_div take_bit_nat_eq_self byte_range)
  have "unat w div 2 ^ k * 2 ^ k < 256"
    using byte_range[of w] by (meson div_times_less_eq_dividend le_less_trans)
  then show ?thesis
    unfolding m by (simp only: unsigned_push_bit_eq d) (simp add: push_bit_eq_mult take_bit_nat_eq_self)
qed

lemma and_masks:
  "unat ((w :: 8 word) AND 0xF0) = unat w div 16 * 16"
  "unat (w AND 0xC0) = unat w div 64 * 64"
  "unat (w AND 0xFE) = unat w div 2 * 2"
  "unat (w AND 0x0F) = unat w mod 16"
proof -
  have f: "(0xF0 :: 8 word) = push_bit 4 (mask (8 - 4))" "(0xC0 :: 8 word) = push_bit 6 (mask (8 - 6))"
    "(0xFE :: 8 word) = push_bit 1 (mask (8 - 1))"
    by (simp_all add: mask_eq_exp_minus_1 push_bit_eq_mult)
  show "unat (w AND 0xF0) = unat w div 16 * 16" using and_high[of 4 w] unfolding f(1) by simp
  show "unat (w AND 0xC0) = unat w div 64 * 64" using and_high[of 6 w] unfolding f(2) by simp
  show "unat (w AND 0xFE) = unat w div 2 * 2" using and_high[of 1 w] unfolding f(3) by simp
  have "w AND 0x0F = take_bit 4 w" by (simp add: take_bit_eq_mask mask_eq_exp_minus_1)
  then show "unat (w AND 0x0F) = unat w mod 16"
    by (simp only: unsigned_take_bit_eq) (simp add: take_bit_eq_mod)
qed

text \<open>
  The addresses that are public, in the arithmetic of the standards and not in terms of the code:
  an IPv4 address outside 0.0.0.0, 10/8, 127/8, 169.254/16, 172.16/12, 192.168/16 and 224.0.0/24,
  plain or mapped into IPv6, or an IPv6 address that is not :: or ::1 and lies outside fe80::/10,
  fc00::/7 and the link-local multicast ffx2::/16. A list of another length is no address.
\<close>

definition public_ipv4 :: "nat list \<Rightarrow> bool" where
  "public_ipv4 n \<longleftrightarrow>
     n ! 0 \<notin> {10, 127} \<and> (n ! 0, n ! 1) \<notin> {(169, 254), (192, 168)} \<and>
     \<not> (n ! 0 = 172 \<and> 16 \<le> n ! 1 \<and> n ! 1 < 32) \<and> (n ! 0, n ! 1, n ! 2) \<noteq> (224, 0, 0) \<and> n \<noteq> [0, 0, 0, 0]"

definition public_ipv6 :: "nat list \<Rightarrow> bool" where
  "public_ipv6 n \<longleftrightarrow>
     n \<noteq> replicate 16 0 \<and> n \<noteq> replicate 15 0 @ [1] \<and> \<not> (n ! 0 = 254 \<and> 128 \<le> n ! 1 \<and> n ! 1 < 192) \<and>
     n ! 0 \<notin> {252, 253} \<and> \<not> (n ! 0 = 255 \<and> n ! 1 mod 16 = 2)"

definition public_address :: "ip \<Rightarrow> bool" where
  "public_address a \<longleftrightarrow>
     (let n = map unat a in
      if length n = 4 then public_ipv4 n
      else if length n = 16 then
        (if take 12 n = replicate 10 0 @ [255, 255] then public_ipv4 (drop 12 n) else public_ipv6 n)
      else True)"

lemma internal_ipv4: "isInternalIP [a, b, c, d] \<longleftrightarrow> \<not> public_ipv4 (map unat [a, b, c, d])"
proof -
  have n: "([a, b, c, d] = replicate 16 0) = False" by (auto dest: arg_cong[where f = length])
  have r: "16 \<le> unat b \<and> unat b < 32 \<longleftrightarrow> unat b div 16 = 1" by presburger
  have "isInternalIP [a, b, c, d] \<longleftrightarrow> unat a = 127 \<or> (unat a = 169 \<and> unat b = 254) \<or>
     (unat a = 224 \<and> unat b = 0 \<and> unat c = 0) \<or> (unat a = 0 \<and> unat b = 0 \<and> unat c = 0 \<and> unat d = 0) \<or>
     unat a = 10 \<or> (unat a = 172 \<and> unat b div 16 = 1) \<or> (unat a = 192 \<and> unat b = 168)"
    by (simp add: isInternalIP_def IsLoopback_def IsLinkLocalUnicast_def IsLinkLocalMulticast_def n
      IsUnspecified_def IsPrivate_def To4_def byte_numeral and_masks numeral_2_eq_2)
  then show ?thesis unfolding r[symmetric] public_ipv4_def by (auto simp: numeral_2_eq_2)
qed

lemma internal_mapped: "length a = 4 \<Longrightarrow> isInternalIP (replicate 10 0 @ [0xFF, 0xFF] @ a) = isInternalIP a"
proof -
  assume l: "length a = 4"
  let ?m = "replicate 10 0 @ [0xFF, 0xFF] @ a :: ip"
  have "To4 ?m = Some a" "To4 a = Some a" using l by (simp_all add: To4_def nth_append)
  moreover have "?m \<noteq> replicate 16 0" "a \<noteq> replicate 16 0"
    using l by (auto dest: arg_cong[where f = length] arg_cong[where f = "\<lambda>x. x ! 10"] simp: nth_append)
  ultimately show ?thesis
    by (simp add: isInternalIP_def IsLoopback_def IsLinkLocalUnicast_def IsLinkLocalMulticast_def
      IsUnspecified_def IsPrivate_def)
qed

lemma map_unat_eq: "map unat (a :: ip) = map unat b \<longleftrightarrow> a = b"
  by (simp add: inj_map_eq_map[OF inj_onI] word_unat_eq_iff)

lemma internal_ipv6:
  assumes "length a = 16" "To4 a = None"
  shows "isInternalIP a \<longleftrightarrow> \<not> public_ipv6 (map unat a)"
proof -
  have n: "map unat a ! 0 = unat (a ! 0)" "map unat a ! 1 = unat (a ! 1)" using assms(1) by simp_all
  have e: "map unat a = replicate 16 0 \<longleftrightarrow> a = replicate 16 0"
    "map unat a = replicate 15 0 @ [1] \<longleftrightarrow> a = replicate 15 0 @ [1]"
    using map_unat_eq[of a "replicate 16 0"] map_unat_eq[of a "replicate 15 0 @ [1]"] by simp_all
  have q: "k div 64 = 2 \<longleftrightarrow> 128 \<le> k \<and> k < 192" for k :: nat
    using div_mult_mod_eq[of k 64] mod_less_divisor[of 64 k] div_nat_eqI[of 64 2 k] by auto
  have c: "unat (a ! 1) div 64 = 2 \<longleftrightarrow> 128 \<le> unat (a ! 1) \<and> unat (a ! 1) < 192" by (rule q)
  have h: "k div 2 = 126 \<longleftrightarrow> k = 252 \<or> k = 253" for k :: nat by presburger
  have f: "unat (a ! 0) div 2 = 126 \<longleftrightarrow> unat (a ! 0) \<in> {252, 253}"
    using h[of "unat (a ! 0)"] by simp
  have "isInternalIP a \<longleftrightarrow> a = replicate 15 0 @ [1] \<or> (unat (a ! 0) = 254 \<and> unat (a ! 1) div 64 = 2) \<or>
      (unat (a ! 0) = 255 \<and> unat (a ! 1) mod 16 = 2) \<or> a = replicate 16 0 \<or> unat (a ! 0) div 2 = 126"
    using assms
    by (simp add: isInternalIP_def IsLoopback_def IsLinkLocalUnicast_def IsLinkLocalMulticast_def
      IsUnspecified_def IsPrivate_def byte_numeral and_masks)
  then show ?thesis unfolding public_ipv6_def n e c f by blast
qed

lemma internal_or_public:
  assumes "length a = 4 \<or> length a = 16"
  shows "isInternalIP a \<longleftrightarrow> \<not> public_address a"
proof (cases "To4 a")
  case None
  then have l: "length a = 16" using assms by (auto simp: To4_def)
  have "take 12 (map unat a) \<noteq> replicate 10 0 @ [255, 255]"
  proof
    assume "take 12 (map unat a) = replicate 10 0 @ [255, 255]"
    then have t: "map unat (take 12 a) = map unat (replicate 10 0 @ [0xFF, 0xFF] :: ip)" by (simp add: take_map)
    then have t: "take 12 a = replicate 10 0 @ [0xFF, 0xFF]" unfolding map_unat_eq .
    have "take 10 a = take 10 (take 12 a)" "a ! 10 = take 12 a ! 10" "a ! 11 = take 12 a ! 11" by simp_all
    then have "To4 a \<noteq> None" using l unfolding t by (simp add: To4_def nth_append)
    with None show False by simp
  qed
  with internal_ipv6[OF l None] l show ?thesis by (simp add: public_address_def Let_def)
next
  case (Some b)
  show ?thesis
  proof (cases "length a = 4")
    case True
    then obtain x y z v where "a = [x, y, z, v]" by (auto simp: length_Suc_conv eval_nat_numeral)
    then show ?thesis using internal_ipv4[of x y z v] by (simp add: public_address_def)
  next
    case False
    then have m: "length a = 16" "take 10 a = replicate 10 0" "a ! 10 = 0xFF" "a ! 11 = 0xFF" "b = drop 12 a"
      using Some by (auto simp: To4_def split: if_splits)
    have "take 12 a = take 10 a @ [a ! 10, a ! 11]"
      using m(1) take_Suc_conv_app_nth[of 10 a] take_Suc_conv_app_nth[of 11 a] by (simp add: eval_nat_numeral)
    then have t: "take 12 a = replicate 10 0 @ [0xFF, 0xFF]" using m by simp
    have l: "length b = 4" using m by simp
    have "a = replicate 10 0 @ [0xFF, 0xFF] @ b" using append_take_drop_id[of 12 a] t m(5) by simp
    then have "isInternalIP a = isInternalIP b" using internal_mapped[OF l] by simp
    moreover obtain x y z v where b: "b = [x, y, z, v]" using l by (auto simp: length_Suc_conv eval_nat_numeral)
    moreover have "public_address a = public_ipv4 (map unat b)"
      using m(1,5) t by (simp add: public_address_def Let_def take_map drop_map)
    ultimately show ?thesis using internal_ipv4[of x y z v] by simp
  qed
qed

lemma webhookMatchesEvent_iff:
  "webhookMatchesEvent events event \<longleftrightarrow> event \<in> TrimSpace ` set (Split events '','')"
  by (auto simp: webhookMatchesEvent_def list_ex_iff)

lemma validated_target:
  "validateWebhookURL net raw = None \<longleftrightarrow>
     (\<exists>scheme h. hn_parse net (TrimSpace raw) = Some (scheme, h) \<and> scheme \<in> {''http'', ''https''} \<and> h \<noteq> [] \<and>
        (hn_allow net \<or> (\<exists>ips. host_ips net h = Some ips \<and> (\<forall>a \<in> set ips. \<not> isInternalIP a))))"
  by (auto simp: validateWebhookURL_def find_None_all split: option.split)

text \<open>
  C26. Where webhook requests go: whatever the rows of the table are, and however they got there, an
  event is posted only to enabled hooks that subscribe to it by its exact name, over http or https,
  and, unless ALLOW_WEBHOOK_PRIVATE_IP is set, only when every address the host name resolved to
  at that check, IPv4, IPv6 or IPv4 mapped into IPv6, is public: not loopback, private (unique
  local), link-local or unspecified. What the HTTP client then does, redirects and a second
  resolution of the name included, is outside the model.
\<close>

theorem webhooks_reach_public_hosts:
  assumes "post \<in> set (deliver net stamp (event, repo, ref, digest) s)"
  shows "\<exists>hook \<in> set (trows (s_hooks s)). po_url post = wh_url hook \<and> wh_enabled hook \<and>
    event \<in> TrimSpace ` set (Split (wh_events hook) '','') \<and>
    (\<exists>scheme h. hn_parse net (TrimSpace (po_url post)) = Some (scheme, h) \<and> scheme \<in> {''http'', ''https''} \<and>
      (hn_allow net \<or> (\<exists>ips. host_ips net h = Some ips \<and> (\<forall>a \<in> set ips. public_address a))))"
proof -
  from assms obtain hook where h: "hook \<in> set (trows (s_hooks s))" "hook_due net event hook"
    and p: "po_url post = wh_url hook"
    by (auto simp: deliver_def ListWebhooks_def split: if_splits)
  from h(2) obtain scheme host where v: "hn_parse net (TrimSpace (wh_url hook)) = Some (scheme, host)"
      "scheme \<in> {''http'', ''https''}"
      "hn_allow net \<or> (\<exists>ips. host_ips net host = Some ips \<and> (\<forall>a \<in> set ips. \<not> isInternalIP a))"
    by (auto simp: hook_due_def validated_target)
  have "public_address a" if "\<not> isInternalIP a" for a
    using that internal_or_public[of a] by (auto simp: public_address_def Let_def)
  then have "hn_allow net \<or> (\<exists>ips. host_ips net host = Some ips \<and> (\<forall>a \<in> set ips. public_address a))"
    using v(3) by blast
  moreover have "wh_enabled hook" "event \<in> TrimSpace ` set (Split (wh_events hook) '','')"
    using h(2) by (simp_all add: hook_due_def webhookMatchesEvent_iff)
  ultimately show ?thesis using h(1) v(1,2) unfolding p by blast
qed

definition chat_hook :: hook_row where
  "chat_hook = \<lparr>wh_id = 1, wh_url = ''http://chat'', wh_secret = [], wh_events = ''push, delete'',
     wh_enabled = True, wh_created = 0\<rparr>"

definition chat_net :: hook_net where
  "chat_net = \<lparr>hn_allow = False, hn_parse = (\<lambda>_. Some (''http'', ''chat'')), hn_ip = (\<lambda>_. None),
     hn_lookup = (\<lambda>_. Some [[93, 184, 216, 34]]), hn_request = (\<lambda>_. True)\<rparr>"

definition chat_store :: store where
  "chat_store = empty_store\<lparr>s_hooks := \<lparr>trows = [chat_hook], tseq = 1\<rparr>\<rparr>"

theorem webhooks_reach_public_hosts_witness:
  "deliver chat_net ''now'' (''delete'', ''app'', ''v1'', ''d'') chat_store \<noteq> [] \<and>
   public_address [93, 184, 216, 34]"
proof -
  have one: "deliver chat_net ''now'' (''delete'', ''app'', ''v1'', ''d'') chat_store =
    [\<lparr>po_url = ''http://chat'', po_header = None, po_fields = [(''digest'', ''d''), (''event'', ''delete''),
       (''ref'', ''v1''), (''repo'', ''app''), (''time'', ''now'')]\<rparr>]"
    by code_simp
  then have "hd (deliver chat_net ''now'' (''delete'', ''app'', ''v1'', ''d'') chat_store) \<in>
    set (deliver chat_net ''now'' (''delete'', ''app'', ''v1'', ''d'') chat_store)" by simp
  from webhooks_reach_public_hosts[OF this] have "public_address [93, 184, 216, 34]"
    by (auto simp: chat_net_def host_ips_def)
  then show ?thesis using one by simp
qed

end
