(* ===== verification/Spec2Isabelle.thy ===== *)
theory Spec2Isabelle
  imports Repo_Path Store_Invariant Repo_Listing Server_Routes Migration Schema_Rebuild Startup V2_Proxy Admin Features Webhooks
begin

text \<open>
  A model of the backend of \<^verbatim>\<open>registry-ui-go\<close> (\<^verbatim>\<open>backend/\<close>), a server in front of a container registry
  with its own database, and the theorems that say what it does.

  \<^bold>\<open>The program.\<close> A request runs through the middlewares of \<^verbatim>\<open>auth.go\<close>, the table of \<^verbatim>\<open>server.go\<close>
  picks its handler, and the handler works on three things: the SQLite database behind \<^verbatim>\<open>store.go\<close>,
  the upstream registry behind \<^verbatim>\<open>registry/client.go\<close>, and files. A second way in is \<^verbatim>\<open>/v2/\<close>, a reverse
  proxy to the registry that checks permissions, push policies and immutable tags on the way and
  keeps snapshots of what is deleted. In the background run the collection of old recycle items and
  blobs, and refreshes of the images table.

  \<^bold>\<open>Theories.\<close>
  \<^item> \<open>RU_Prelude\<close>: 64-bit integers written out, tables with AUTOINCREMENT, the locale \<open>keyed_table\<close> for
    upserts under a unique key. \<open>Go_Strings\<close>, \<open>Encoding\<close>: the string, number, path, hexadecimal and
    base64 functions the code calls.
  \<^item> \<open>Store_Types\<close>, \<open>Store_Settings\<close>, \<open>Store_Repos\<close>, \<open>Store_Users\<close>, \<open>Store_Recycle\<close>: \<^verbatim>\<open>store.go\<close>, one
    definition for each method on the record \<open>store\<close>; a fault of a table is part of the state, so
    that every error branch of a method is a value. \<open>Store_Repos_Inv\<close>, \<open>Store_Users_Inv\<close>,
    \<open>Store_Invariant\<close>: what every sequence of methods keeps. \<open>Migration\<close>: the data statements of
    \<^verbatim>\<open>migrate\<close>. \<open>Schema_Rebuild\<close>: its table rebuilds, statement by statement, across crashes.
  \<^item> \<open>Http\<close>: requests, replies, permission checks. \<open>Repo_Path\<close>: \<^verbatim>\<open>repo_path.go\<close>. \<open>Tag_Policy\<close>: policies and
    immutable tags. \<open>Repo_Listing\<close>, \<open>Repo_Handlers\<close>: listing, paging, the routes of a repository,
    refreshes (\<^verbatim>\<open>server.go\<close>). \<open>Admin\<close>, \<open>Features\<close>, \<open>Webhooks\<close>, \<open>Recycle_Bin\<close>, \<open>Assets\<close>, \<open>Tls_Certs\<close>:
    \<^verbatim>\<open>admin.go\<close>, \<^verbatim>\<open>features.go\<close>, \<^verbatim>\<open>recycle.go\<close>, \<^verbatim>\<open>static.go\<close> with \<^verbatim>\<open>uploads.go\<close> and \<^verbatim>\<open>user.go\<close>, \<^verbatim>\<open>tls.go\<close>.
  \<^item> \<open>Registry_Client\<close>: \<^verbatim>\<open>client.go\<close> over a registry that is a parameter; \<open>Registry_Laws\<close>: what a healthy
    registry does and one that does. \<open>Image_Size\<close>, \<open>Delete_Tags\<close>, \<open>Retention\<close>, \<open>GC\<close>, \<open>Disk\<close>, \<open>GC_Run\<close>:
    sizes, deletion that spares sibling tags, retention, the two phases of a collection and the
    gate that keeps collections and pushes apart. \<open>V2_Proxy\<close>: \<^verbatim>\<open>v2_proxy.go\<close>.
  \<^item> \<open>Auth\<close>, \<open>Auth_Flow\<close>: credentials, sessions, tokens, and the middlewares around every handler.
    \<open>Server_Routes\<close>: the table behind them. \<open>Startup\<close>: \<^verbatim>\<open>config.go\<close>, \<^verbatim>\<open>New\<close> and \<^verbatim>\<open>main.go\<close>.

  \<^bold>\<open>What the lemmas show.\<close> The store keeps ids fresh, keys unique and references whole under any
  sequence of methods, and a stored setting or policy is read back as written. With
  authentication on, a path that does not end like an asset leads past the public handlers only
  for an enabled user, and a user attached to a request holds a credential of that account;
  sessions and tokens live as long as promised and no longer; an administrator remains after every
  sequence of account requests. Deleting, retaining and collecting take exactly the tags they should from a registry that
  keeps its word; collections exclude each other and pushes, in every interleaving, and whoever is
  past the gate opens it again by its own next actions. Paging and sizes are complete and bounded;
  refreshes end in what the registry says; the walk at startup ends by its deadline. Uploads are
  stored whole, restarts serve as the settings say, upgrades keep the policies of namespaced
  repositories and the permissions. Where the code falls short of this, theorems exhibit it: an overwrite that leaves
  nothing to restore, two administrators who delete each other, a policy that a restart forgets, a
  table whose rows a crash strands.

  \<^bold>\<open>Interfaces.\<close> \<open>keyed_table\<close> (an upsert under a unique key; five tables of the store), \<open>setting_service\<close>
  (a cached setting reads as written; \<^verbatim>\<open>GetSetting\<close>, \<^verbatim>\<open>SetSetting\<close>), \<open>file_replace\<close> (a file is replaced as a
  whole or not at all, whatever temporary file stays; \<^verbatim>\<open>atomicWrite\<close>), \<open>single_flight\<close> (one run at a time; the collection gate and the
  refreshes).

  \<^bold>\<open>Bounds.\<close> Indexes are followed to depth 2 with at most 16 children each, hence at most 16 + 256 +
  4096 = 4368 requests. A recycle item is parked after 5 refused deletions. Sessions live 604800 s,
  registry tokens 86400 s. Uploads are cut at 2 MiB, certificate files at 64 KiB. The walk over the
  catalog runs under a context with a deadline; the number of calls answered before it is an
  argument and its measure, and a catalog of finitely many pages is walked to its end when the
  deadline allows one call per page, one per repository and 4371 per tag. All other loops are
  structural or have a measure. The rebuilds of a start are 28 statements; a budget of statements
  stands for the moment of a crash.

  \<^bold>\<open>Assumptions.\<close> Times are whole seconds and an argument of the operations. Strings are sequences of
  bytes; case folding, glob patterns and JSON keys are ASCII. Parameters, with what is relied on as
  hypotheses: the registry (\<open>client\<close>), hash functions and HMAC (\<open>crypto\<close>), the proxied transport, name
  resolution and delivery of webhooks (\<open>hook_net\<close>), the answers of the operating system, the X.509
  library, the collector binary (\<open>host\<close>), the URL parser, random bytes, and every order the language
  leaves open (map iteration, groups of SQL). The matching rules of \<^verbatim>\<open>http.ServeMux\<close> and the effect of
  single SQL statements are translated from their documentation.

  \<^bold>\<open>Not modelled.\<close> The JavaScript interface, deployment files, documentation and tests. Logging, JSON
  encoding and response writing beyond status and content. The HTTP time-outs of
  \<^verbatim>\<open>timeouts.go\<close> and the deadlines of contexts other than those of the startup walk and of the
  drain delay of a collection; a deadline is observed between calls, each of which is answered whole
  or not at all. In \<open>Assets\<close> the limit of \<^verbatim>\<open>http.MaxBytesReader\<close> is part of the form that is a parameter,
  and the range and conditional requests that \<^verbatim>\<open>http.ServeFile\<close> answers are left out. What the HTTP client
  of a webhook does after the check of its target, redirects included; the tickers that start the session sweeper and the daily collection (what they
  start is modelled). The schema statements of \<^verbatim>\<open>migrate\<close> other than the rebuilt tables, and PRAGMAs:
  the record \<open>store\<close> is the schema they lead to. Two requests interleave only where a property says so
  (the gate, the deletion of administrators, refreshes); other handlers run as a whole.
\<close>

end
